(* ===== verification/Prelude.thy ===== *)
theory Prelude
  imports Main "HOL-Library.Word"
begin

text \<open>
  Shared vocabulary of the development: the C integer types, the outcome of a C computation
  (a value, or one of the ways in which the C standard gives no defined result), checked memory
  accesses, the loop combinator behind the "first slot that ..." searches of \<open>fs.c\<close>, and the
  generic list lemmas every component uses.
\<close>

unbundle bit_operations_syntax

section \<open>C integers\<close>

type_synonym u8 = "8 word"
type_synonym u16 = "16 word"
type_synonym u32 = "32 word"
type_synonym u64 = "64 word"
type_synonym byte = "8 word"

text \<open>
  The C type \<open>int\<close> is modelled by \<open>int\<close>; \<open>to_int\<close> is the (GCC, modulo \<open>2 ^ 32\<close>) conversion of an
  unsigned value to \<open>int\<close>, and \<open>c_int\<close> is a signed result whose overflow is undefined.
\<close>

definition INT_MAX :: int where
  "INT_MAX = 2147483647"

definition to_int :: "'a::len word \<Rightarrow> int" where
  "to_int w = signed_take_bit 31 (uint w)"

lemma to_int_small: "uint w \<le> INT_MAX \<Longrightarrow> to_int w = uint w"
  using order_trans [OF _ uint_ge_0, of "- 2147483648" w]
  by (simp add: to_int_def INT_MAX_def signed_take_bit_int_eq_self)

lemma to_int_u16 [simp]: "to_int (w :: u16) = uint w"
proof (rule to_int_small)
  show "uint w \<le> INT_MAX" using uint_bounded [of w] by (simp add: INT_MAX_def)
qed

lemma uint_eq_int_iff: "uint w = int n \<longleftrightarrow> unat w = n"
  by (metis of_nat_eq_iff of_nat_unat)

section \<open>Outcomes\<close>

text \<open>
  A computation that has no defined result ends in a \<open>fault\<close>: the dereference of a null pointer or
  of freed memory, an access outside an object, signed overflow, or a loop that never ends.
\<close>

datatype fault =
    Null_deref
  | Use_after_free
  | Out_of_bounds
  | Signed_overflow
  | Diverges

type_synonym 'a res = "fault + 'a"

definition bnd :: "'a res \<Rightarrow> ('a \<Rightarrow> 'b res) \<Rightarrow> 'b res" where
  "bnd m f = (case m of Inl e \<Rightarrow> Inl e | Inr x \<Rightarrow> f x)"

lemma bnd_simps [simp]:
  "bnd (Inl e) f = Inl e"
  "bnd (Inr x) f = f x"
  by (simp_all add: bnd_def)

lemma bnd_eq_Inr_iff: "bnd m f = Inr y \<longleftrightarrow> (\<exists>x. m = Inr x \<and> f x = Inr y)"
  by (cases m) auto

lemma bnd_cong [fundef_cong]:
  "m = m' \<Longrightarrow> (\<And>x. m' = Inr x \<Longrightarrow> f x = f' x) \<Longrightarrow> bnd m f = bnd m' f'"
  by (cases m') auto

lemma bnd_assoc: "bnd (bnd m f) g = bnd m (\<lambda>x. bnd (f x) g)"
  by (cases m) auto

lemma bnd_if: "bnd (if c then m else m') f = (if c then bnd m f else bnd m' f)"
  by simp

text \<open>\<open>runs m Q\<close>: the computation has a defined result, and the result satisfies \<open>Q\<close>.\<close>

definition runs :: "'a res \<Rightarrow> ('a \<Rightarrow> bool) \<Rightarrow> bool" where
  "runs m Q \<longleftrightarrow> (case m of Inl _ \<Rightarrow> False | Inr x \<Rightarrow> Q x)"

lemma runs_simps [simp]:
  "\<not> runs (Inl e) Q"
  "runs (Inr x) Q \<longleftrightarrow> Q x"
  by (simp_all add: runs_def)

lemma runs_iff: "runs m Q \<longleftrightarrow> (\<exists>x. m = Inr x \<and> Q x)"
  by (cases m) auto

lemma runs_bnd [simp]: "runs (bnd m f) Q \<longleftrightarrow> runs m (\<lambda>x. runs (f x) Q)"
  by (cases m) auto

lemma runs_mono: "runs m Q \<Longrightarrow> (\<And>x. m = Inr x \<Longrightarrow> Q x \<Longrightarrow> Q' x) \<Longrightarrow> runs m Q'"
  by (cases m) auto

lemma runs_if [simp]: "runs (if c then m else m') Q \<longleftrightarrow> (if c then runs m Q else runs m' Q)"
  by simp

text \<open>A loop given by a partial function: not returning is the fault \<open>Diverges\<close>.\<close>

definition returns :: "'a res option \<Rightarrow> 'a res" where
  "returns r = (case r of None \<Rightarrow> Inl Diverges | Some m \<Rightarrow> m)"

lemma returns_simps [simp]:
  "returns None = Inl Diverges"
  "returns (Some m) = m"
  by (simp_all add: returns_def)

definition c_int :: "int \<Rightarrow> int res" where
  "c_int i = (if - (2 ^ 31) \<le> i \<and> i \<le> INT_MAX then Inr i else Inl Signed_overflow)"

lemma c_int_ok: "- (2 ^ 31) \<le> i \<Longrightarrow> i \<le> INT_MAX \<Longrightarrow> c_int i = Inr i"
  by (simp add: c_int_def)

section \<open>Checked memory\<close>

text \<open>A pointer with one owner: null, valid, or dangling after \<open>free\<close>.\<close>

datatype 'a ptr = Null | Ptr 'a | Dangling

primrec deref :: "'a ptr \<Rightarrow> 'a res" where
  "deref Null = Inl Null_deref"
| "deref (Ptr x) = Inr x"
| "deref Dangling = Inl Use_after_free"

lemma deref_eq_Inr_iff [simp]: "deref p = Inr x \<longleftrightarrow> p = Ptr x"
  by (cases p) auto

text \<open>Array reads and writes; \<open>memcpy\<close> from and to an offset.\<close>

definition fetch :: "'a list \<Rightarrow> nat \<Rightarrow> 'a res" where
  "fetch xs i = (if i < length xs then Inr (xs ! i) else Inl Out_of_bounds)"

definition store :: "'a list \<Rightarrow> nat \<Rightarrow> 'a \<Rightarrow> 'a list res" where
  "store xs i x = (if i < length xs then Inr (xs[i := x]) else Inl Out_of_bounds)"

definition overwrite :: "'a list \<Rightarrow> nat \<Rightarrow> 'a list \<Rightarrow> 'a list" where
  "overwrite xs off ys = take off xs @ ys @ drop (off + length ys) xs"

definition load_bytes :: "'a list \<Rightarrow> nat \<Rightarrow> nat \<Rightarrow> 'a list res" where
  "load_bytes xs off n =
     (if off + n \<le> length xs then Inr (take n (drop off xs)) else Inl Out_of_bounds)"

definition store_bytes :: "'a list \<Rightarrow> nat \<Rightarrow> 'a list \<Rightarrow> 'a list res" where
  "store_bytes xs off ys =
     (if off + length ys \<le> length xs then Inr (overwrite xs off ys) else Inl Out_of_bounds)"

lemma fetch_ok: "i < length xs \<Longrightarrow> fetch xs i = Inr (xs ! i)"
  by (simp add: fetch_def)

lemma fetch_eq_Inr_iff [simp]: "fetch xs i = Inr x \<longleftrightarrow> i < length xs \<and> x = xs ! i"
  by (auto simp: fetch_def)

lemma store_ok: "i < length xs \<Longrightarrow> store xs i x = Inr (xs[i := x])"
  by (simp add: store_def)

lemma load_bytes_ok: "off + n \<le> length xs \<Longrightarrow> load_bytes xs off n = Inr (take n (drop off xs))"
  by (simp add: load_bytes_def)

lemma store_bytes_ok:
  "off + length ys \<le> length xs \<Longrightarrow> store_bytes xs off ys = Inr (overwrite xs off ys)"
  by (simp add: store_bytes_def)

named_theorems mem_simps "checked accesses inside their object"

lemmas [mem_simps] = fetch_ok store_ok load_bytes_ok store_bytes_ok

section \<open>Overwriting a part of a list\<close>

lemma length_overwrite [simp]:
  "off + length ys \<le> length xs \<Longrightarrow> length (overwrite xs off ys) = length xs"
  by (simp add: overwrite_def)

lemma overwrite_Nil [simp]: "overwrite xs off [] = xs"
  by (simp add: overwrite_def)

lemma overwrite_all: "length ys = length xs \<Longrightarrow> overwrite xs 0 ys = ys"
  by (simp add: overwrite_def)

lemma overwrite_overwrite:
  assumes "off + length ys \<le> length xs"
  shows "overwrite (overwrite xs off ys) (off + length ys) zs = overwrite xs off (ys @ zs)"
  using assms by (cases ys) (auto simp: overwrite_def min_def ac_simps)

lemma nth_overwrite:
  assumes "off + length ys \<le> length xs" and "i < length xs"
  shows "overwrite xs off ys ! i =
    (if off \<le> i \<and> i < off + length ys then ys ! (i - off) else xs ! i)"
  using assms by (auto simp: overwrite_def nth_append min_def)

lemma take_drop_overwrite:
  "off + length ys \<le> length xs \<Longrightarrow> take (length ys) (drop off (overwrite xs off ys)) = ys"
  by (simp add: overwrite_def min_def)

section \<open>Lists of equal chunks\<close>

lemma length_concat_chunks:
  "(\<And>y. y \<in> set ys \<Longrightarrow> length y = w) \<Longrightarrow> length (concat ys) = w * length ys"
  by (induction ys) auto

lemma concat_chunk:
  assumes "\<And>y. y \<in> set ys \<Longrightarrow> length y = w" and "i < length ys"
  shows "take w (drop (w * i) (concat ys @ rest)) = ys ! i"
  using assms
proof (induction ys arbitrary: i)
  case Nil
  then show ?case by simp
next
  case (Cons y ys)
  then have y: "length y = w" by simp
  show ?case
  proof (cases i)
    case 0
    with y show ?thesis by simp
  next
    case (Suc j)
    with Cons.prems have "take w (drop (w * j) (concat ys @ rest)) = ys ! j"
      by (intro Cons.IH) auto
    with y Suc show ?thesis by simp
  qed
qed

lemma concat_update:
  assumes "\<And>y. y \<in> set ys \<Longrightarrow> length y = w" and "i < length ys" and "length z = w"
  shows "concat (ys[i := z]) = overwrite (concat ys) (w * i) z"
  using assms
proof (induction ys arbitrary: i)
  case Nil
  then show ?case by simp
next
  case (Cons y ys)
  then have y: "length y = w" by simp
  show ?case
  proof (cases i)
    case 0
    with y Cons.prems show ?thesis by (simp add: overwrite_def)
  next
    case (Suc j)
    with Cons.prems have "concat (ys[j := z]) = overwrite (concat ys) (w * j) z"
      by (intro Cons.IH) auto
    with y Suc show ?thesis by (simp add: overwrite_def add.assoc)
  qed
qed

section \<open>Searching loops\<close>

text \<open>
  \<open>for (i = lo; i < n; i++) if (p(i)) \<dots>\<close>: the first index at which the test holds, where the test may
  itself fault.
\<close>

function find_first :: "nat \<Rightarrow> nat \<Rightarrow> (nat \<Rightarrow> bool res) \<Rightarrow> nat option res" where
  "find_first i n p =
     (if i < n then bnd (p i) (\<lambda>hit. if hit then Inr (Some i) else find_first (Suc i) n p)
      else Inr None)"
  by pat_completeness auto
termination
  by (relation "measure (\<lambda>(i, n, p). n - i)") auto

declare find_first.simps [simp del]

lemma find_first_pure:
  assumes "\<And>j. i \<le> j \<Longrightarrow> j < n \<Longrightarrow> p j = Inr (P j)"
  shows "find_first i n p = Inr (List.find P [i..<n])"
  using assms
proof (induction i n p rule: find_first.induct)
  case (1 i n p)
  show ?case
  proof (cases "i < n")
    case True
    with "1.prems" have p: "p i = Inr (P i)" by simp
    show ?thesis
    proof (cases "P i")
      case True
      with p \<open>i < n\<close> show ?thesis by (simp add: find_first.simps [of i] upt_conv_Cons)
    next
      case False
      with "1.IH" [OF \<open>i < n\<close> p] "1.prems"
      have "find_first (Suc i) n p = Inr (List.find P [Suc i..<n])" by simp
      with False p \<open>i < n\<close> show ?thesis by (simp add: find_first.simps [of i] upt_conv_Cons)
    qed
  next
    case False
    then show ?thesis by (simp add: find_first.simps [of i])
  qed
qed

lemma find_upt_Some_iff:
  "List.find P [i..<n] = Some j \<longleftrightarrow> i \<le> j \<and> j < n \<and> P j \<and> (\<forall>k. i \<le> k \<and> k < j \<longrightarrow> \<not> P k)"
proof (cases "i \<le> n")
  case True
  then show ?thesis
  proof (induction i rule: inc_induct)
    case base
    then show ?case by auto
  next
    case (step m)
    then show ?case
      by (auto simp: upt_conv_Cons) (metis Suc_leI le_neq_implies_less not_less_eq_eq)+
  qed
next
  case False
  then show ?thesis by simp
qed

lemma find_upt_None_iff: "List.find P [i..<n] = None \<longleftrightarrow> (\<forall>k. i \<le> k \<and> k < n \<longrightarrow> \<not> P k)"
  by (auto simp: find_None_iff)

end
