(* ===== verification/Bytes.thy ===== *)
theory Bytes
  imports Prelude
begin

text \<open>
  The byte-level encodings of \<open>fs.c\<close>: little-endian numbers (\<open>concatenate_two_bytes\<close>,
  \<open>concatenate_four_bytes\<close> and the shift-and-mask code of \<open>fs_umount\<close>) and the layout of 16-bit
  arrays in memory, as \<open>block_read\<close> and \<open>block_write\<close> see the FAT. The interface between a type and
  its fixed-width encoding is the locale \<open>fixed_codec\<close>; its array law is what the round trips of the
  root directory and of the FAT rest on.
\<close>

section \<open>Fixed-width codecs\<close>

definition chunks :: "nat \<Rightarrow> nat \<Rightarrow> 'a list \<Rightarrow> 'a list list" where
  "chunks w n bs = map (\<lambda>i. take w (drop (w * i) bs)) [0..<n]"

lemma length_chunks [simp]: "length (chunks w n bs) = n"
  by (simp add: chunks_def)

lemma nth_chunks: "i < n \<Longrightarrow> chunks w n bs ! i = take w (drop (w * i) bs)"
  by (simp add: chunks_def)

lemma chunks_concat:
  assumes "\<And>y. y \<in> set ys \<Longrightarrow> length y = w"
  shows "chunks w (length ys) (concat ys @ rest) = ys"
  by (rule nth_equalityI)
    (simp_all add: nth_chunks concat_chunk [OF assms] del: take_append drop_append)

locale fixed_codec =
  fixes enc :: "'a \<Rightarrow> byte list"
    and dec :: "byte list \<Rightarrow> 'a"
    and valid :: "'a \<Rightarrow> bool"
    and width :: nat
  assumes enc_length: "valid x \<Longrightarrow> length (enc x) = width"
    and dec_enc: "valid x \<Longrightarrow> dec (enc x) = x"
begin

lemma enc_inject: "valid x \<Longrightarrow> valid y \<Longrightarrow> enc x = enc y \<longleftrightarrow> x = y"
  by (metis dec_enc)

lemma length_enc_array:
  "(\<And>x. x \<in> set xs \<Longrightarrow> valid x) \<Longrightarrow> length (concat (map enc xs)) = width * length xs"
  using length_concat_chunks [of "map enc xs" width] enc_length by auto

lemma dec_enc_array:
  assumes "\<And>x. x \<in> set xs \<Longrightarrow> valid x"
  shows "map dec (chunks width (length xs) (concat (map enc xs) @ rest)) = xs"
proof -
  have "chunks width (length (map enc xs)) (concat (map enc xs) @ rest) = map enc xs"
    by (rule chunks_concat) (auto simp: enc_length assms)
  then show ?thesis by (simp add: map_idI assms dec_enc)
qed

lemma enc_nth:
  assumes "\<And>x. x \<in> set xs \<Longrightarrow> valid x" and "i < length xs"
  shows "take width (drop (width * i) (concat (map enc xs) @ rest)) = enc (xs ! i)"
proof -
  have "take width (drop (width * i) (concat (map enc xs) @ rest)) = map enc xs ! i"
    by (rule concat_chunk) (auto simp: assms enc_length)
  then show ?thesis using assms(2) by simp
qed

lemma dec_enc_nth:
  assumes "\<And>x. x \<in> set xs \<Longrightarrow> valid x" and "i < length xs"
  shows "dec (take width (drop (width * i) (concat (map enc xs) @ rest))) = xs ! i"
  using assms by (subst enc_nth) (simp_all add: dec_enc)

end

section \<open>Numbers\<close>

text \<open>
  \<open>concatenate_two_bytes\<close>: \<open>result\<close> is a \<open>uint16_t\<close>, so both additions are taken modulo \<open>2 ^ 16\<close>.
\<close>

definition concatenate_two_bytes :: "byte \<Rightarrow> byte \<Rightarrow> u16" where
  "concatenate_two_bytes byte1 byte2 =
     (let result = (0 :: u16);
          result = result + 256 * ucast byte2;
          result = result + ucast byte1
      in result)"

text \<open>
  \<open>concatenate_four_bytes\<close> adds in \<open>double\<close> (\<open>pow\<close>) and converts back to \<open>uint32_t\<close> each time. The
  sums are integers below \<open>2 ^ 32\<close>, which a \<open>double\<close> holds exactly; they are kept as natural numbers
  here, and \<open>u32_of_double\<close> is the conversion of an integral \<open>double\<close> in the range of \<open>uint32_t\<close>.
\<close>

definition u32_of_double :: "nat \<Rightarrow> u32" where
  "u32_of_double d = word_of_nat d"

definition concatenate_four_bytes :: "byte \<Rightarrow> byte \<Rightarrow> byte \<Rightarrow> byte \<Rightarrow> u32" where
  "concatenate_four_bytes byte1 byte2 byte3 byte4 =
     (let result = (0 :: u32);
          result = u32_of_double (unat result + 2 ^ 24 * unat byte4);
          result = u32_of_double (unat result + 2 ^ 16 * unat byte3);
          result = u32_of_double (unat result + 2 ^ 8 * unat byte2);
          result = result + ucast byte1
      in result)"

text \<open>The bytes \<open>fs_umount\<close> stores: \<open>(x >> k) & 0xFF\<close>, at increasing addresses.\<close>

definition u16_bytes :: "u16 \<Rightarrow> byte list" where
  "u16_bytes x = [ucast (drop_bit 0 x AND 0xFF), ucast (drop_bit 8 x AND 0xFF)]"

definition u32_bytes :: "u32 \<Rightarrow> byte list" where
  "u32_bytes x =
     [ucast (drop_bit 0 x AND 0xFF), ucast (drop_bit 8 x AND 0xFF),
      ucast (drop_bit 16 x AND 0xFF), ucast (drop_bit 24 x AND 0xFF)]"

definition u16_of_bytes :: "byte list \<Rightarrow> u16" where
  "u16_of_bytes bs = concatenate_two_bytes (bs ! 0) (bs ! 1)"

definition u32_of_bytes :: "byte list \<Rightarrow> u32" where
  "u32_of_bytes bs = concatenate_four_bytes (bs ! 0) (bs ! 1) (bs ! 2) (bs ! 3)"

lemma unat_byte_bound: "unat (b :: byte) < 256"
  using unsigned_less [where 'a = nat, of b] by simp

lemma unat_u16_bound: "unat (x :: u16) < 65536"
  using unsigned_less [where 'a = nat, of x] by simp

lemma unat_u32_bound: "unat (x :: u32) < 4294967296"
  using unsigned_less [where 'a = nat, of x] by simp

lemma unat_ucast_byte [simp]:
  "unat (ucast (b :: byte) :: u16) = unat b"
  "unat (ucast (b :: byte) :: u32) = unat b"
  by (simp_all add: unsigned_ucast_eq take_bit_nat_eq_self unat_byte_bound [THEN less_trans])

lemma unat_concatenate_two_bytes:
  "unat (concatenate_two_bytes byte1 byte2) = unat byte1 + 256 * unat byte2"
  using unat_byte_bound [of byte1] unat_byte_bound [of byte2]
  by (simp add: concatenate_two_bytes_def unat_word_ariths)

lemma unat_concatenate_four_bytes:
  "unat (concatenate_four_bytes byte1 byte2 byte3 byte4) =
    unat byte1 + 2 ^ 8 * unat byte2 + 2 ^ 16 * unat byte3 + 2 ^ 24 * unat byte4"
  using unat_byte_bound [of byte1] unat_byte_bound [of byte2]
    unat_byte_bound [of byte3] unat_byte_bound [of byte4]
  by (simp add: concatenate_four_bytes_def u32_of_double_def unat_word_ariths unat_of_nat Let_def)

lemma length_u16_bytes [simp]: "length (u16_bytes x) = 2"
  by (simp add: u16_bytes_def)

lemma length_u32_bytes [simp]: "length (u32_bytes x) = 4"
  by (simp add: u32_bytes_def)

lemma unat_low_byte:
  "8 \<le> LENGTH('a) \<Longrightarrow>
    unat (ucast (drop_bit k (w :: 'a::len word) AND 0xFF) :: byte) = unat w div 2 ^ k mod 256"
proof -
  assume "8 \<le> LENGTH('a)"
  moreover have "drop_bit k w AND 0xFF = take_bit 8 (drop_bit k w)"
    by (simp add: take_bit_eq_mask mask_eq_exp_minus_1)
  ultimately show ?thesis
    by (simp only: unsigned_ucast_eq unsigned_take_bit_eq unat_drop_bit_eq)
      (simp add: take_bit_nat_def drop_bit_nat_def)
qed

lemma unat_lowest_byte:
  "8 \<le> LENGTH('a) \<Longrightarrow> unat (ucast ((w :: 'a::len word) AND 0xFF) :: byte) = unat w mod 256"
  using unat_low_byte [of 0 w] by simp

text \<open>
  What \<open>fs_umount\<close> writes for a number is what \<open>concatenate_two_bytes\<close> and
  \<open>concatenate_four_bytes\<close> read back.
\<close>

lemma u16_of_bytes_u16_bytes: "u16_of_bytes (u16_bytes x) = x"
proof -
  have "unat (u16_of_bytes (u16_bytes x)) = unat x"
    using unat_u16_bound [of x]
    by (simp add: u16_of_bytes_def u16_bytes_def unat_concatenate_two_bytes unat_low_byte
        unat_lowest_byte unat_drop_bit_eq drop_bit_nat_def)
  then show ?thesis by (simp add: unsigned_word_eqI)
qed

lemma base_256_digits:
  fixes n :: nat
  shows "n mod 256 + 256 * (n div 256 mod 256) + 65536 * (n div 65536 mod 256)
    + 16777216 * (n div 16777216) = n"
proof -
  define a where "a = n div 256"
  define b where "b = a div 256"
  define c where "c = b div 256"
  have b: "b = n div 65536" and c: "c = n div 16777216"
    by (simp_all add: a_def b_def c_def div_mult2_eq [symmetric])
  have "n = 256 * a + n mod 256" and "a = 256 * b + a mod 256" and "b = 256 * c + b mod 256"
    by (simp_all add: a_def b_def c_def)
  then show ?thesis by (simp add: a_def [symmetric] b [symmetric] c [symmetric])
qed

lemma u32_of_bytes_u32_bytes: "u32_of_bytes (u32_bytes x) = x"
proof -
  have "unat (u32_of_bytes (u32_bytes x)) = unat x"
    using unat_u32_bound [of x] base_256_digits [of "unat x"]
    by (simp add: u32_of_bytes_def u32_bytes_def unat_concatenate_four_bytes unat_low_byte
        unat_lowest_byte unat_drop_bit_eq drop_bit_nat_def)
  then show ?thesis by (simp add: unsigned_word_eqI)
qed

interpretation u16c: fixed_codec u16_bytes u16_of_bytes "\<lambda>_. True" 2
  by unfold_locales (simp_all add: u16_of_bytes_u16_bytes)

interpretation u32c: fixed_codec u32_bytes u32_of_bytes "\<lambda>_. True" 4
  by unfold_locales (simp_all add: u32_of_bytes_u32_bytes)

text \<open>
  An array of \<open>uint16_t\<close> in memory, and the array a block of bytes is when it is read into one. The
  host is little-endian, as the disk format is (\<open>fs.c\<close> moves the FAT blocks without conversion).
\<close>

definition mem_of_u16s :: "u16 list \<Rightarrow> byte list" where
  "mem_of_u16s xs = concat (map u16_bytes xs)"

definition u16s_of_mem :: "byte list \<Rightarrow> u16 list" where
  "u16s_of_mem bs = map u16_of_bytes (chunks 2 (length bs div 2) bs)"

lemma length_mem_of_u16s [simp]: "length (mem_of_u16s xs) = 2 * length xs"
  by (simp add: mem_of_u16s_def u16c.length_enc_array)

lemma length_u16s_of_mem [simp]: "length (u16s_of_mem bs) = length bs div 2"
  by (simp add: u16s_of_mem_def)

lemma u16s_of_mem_of_u16s [simp]: "u16s_of_mem (mem_of_u16s xs) = xs"
  using u16c.dec_enc_array [of xs "[]"]
  by (simp add: u16s_of_mem_def mem_of_u16s_def u16c.length_enc_array)

end
