(* ===== verification/Disk.thy ===== *)
theory Disk
  imports Bytes
begin

text \<open>
  The virtual disk, \<open>src/libfs/disk.c\<close>: its static \<open>struct disk\<close>, the calls it makes on the host
  (\<open>open\<close>, \<open>fstat\<close>, \<open>lseek\<close>, \<open>read\<close>, \<open>write\<close>, \<open>close\<close>) and the five operations of \<open>disk.h\<close>. Messages
  on the error stream are not modelled. The locale \<open>block_device\<close> states what the file system relies
  on (reading a block back after writing it, blocks kept apart) and is interpreted on this model.
\<close>

section \<open>The host\<close>

text \<open>
  The host's files by path, its open descriptors, and a schedule of failures: the next call on the
  host fails if the schedule starts with \<open>True\<close>; the empty schedule fails no call. Descriptor numbers
  are not reused (\<open>disk.c\<close> compares them with \<open>-1\<close> only). Every transfer of \<open>disk.c\<close> is preceded by its
  own \<open>lseek\<close>, so the position is passed from \<open>lseek\<close> to \<open>read\<close> or \<open>write\<close>.
\<close>

record host =
  host_files :: "string \<rightharpoonup> byte list"
  host_fds :: "int \<rightharpoonup> string"
  host_next :: int
  host_faults :: "bool list"

definition host_call :: "host \<Rightarrow> bool \<times> host" where
  "host_call h =
     (case host_faults h of [] \<Rightarrow> (False, h) | b # bs \<Rightarrow> (b, h\<lparr>host_faults := bs\<rparr>))"

definition host_open :: "string \<Rightarrow> host \<Rightarrow> int \<times> host" where
  "host_open path h =
     (case host_call h of (failed, h) \<Rightarrow>
       if failed then (-1, h)
       else case host_files h path of
         None \<Rightarrow> (-1, h)
       | Some _ \<Rightarrow>
           (host_next h,
            h\<lparr>host_fds := (host_fds h)(host_next h \<mapsto> path), host_next := host_next h + 1\<rparr>))"

definition host_content :: "int \<Rightarrow> host \<Rightarrow> byte list option" where
  "host_content fd h = (case host_fds h fd of None \<Rightarrow> None | Some path \<Rightarrow> host_files h path)"

definition host_fstat :: "int \<Rightarrow> host \<Rightarrow> nat option \<times> host" where
  "host_fstat fd h =
     (case host_call h of (failed, h) \<Rightarrow>
       if failed then (None, h) else (map_option length (host_content fd h), h))"

definition host_lseek :: "int \<Rightarrow> nat \<Rightarrow> host \<Rightarrow> nat option \<times> host" where
  "host_lseek fd off h =
     (case host_call h of (failed, h) \<Rightarrow>
       if failed \<or> host_content fd h = None then (None, h) else (Some off, h))"

definition host_read :: "int \<Rightarrow> nat \<Rightarrow> nat \<Rightarrow> host \<Rightarrow> byte list option \<times> host" where
  "host_read fd pos n h =
     (case host_call h of (failed, h) \<Rightarrow>
       if failed then (None, h)
       else case host_content fd h of
         None \<Rightarrow> (None, h)
       | Some c \<Rightarrow> (Some (take n (drop pos c)), h))"

definition host_write :: "int \<Rightarrow> nat \<Rightarrow> byte list \<Rightarrow> host \<Rightarrow> bool \<times> host" where
  "host_write fd pos buf h =
     (case host_call h of (failed, h) \<Rightarrow>
       if failed then (False, h)
       else case host_fds h fd of
         None \<Rightarrow> (False, h)
       | Some path \<Rightarrow>
           (case host_files h path of
             None \<Rightarrow> (False, h)
           | Some c \<Rightarrow> (True, h\<lparr>host_files := (host_files h)(path \<mapsto> overwrite c pos buf)\<rparr>)))"

definition host_close :: "int \<Rightarrow> host \<Rightarrow> host" where
  "host_close fd h = h\<lparr>host_fds := (host_fds h)(fd := None)\<rparr>"

section \<open>The disk\<close>

definition BLOCK_SIZE :: nat where
  "BLOCK_SIZE = 4096"

definition INVALID_FD :: int where
  "INVALID_FD = -1"

text \<open>\<open>struct disk\<close> (its field \<open>fd\<close> is \<open>disk_fd\<close> here), and the world \<open>disk.c\<close> works on.\<close>

record disk =
  disk_fd :: int
  bcount :: u64

record dev =
  disk :: disk
  host :: host

definition disk_init :: disk where
  "disk_init = \<lparr>disk_fd = INVALID_FD, bcount = 0\<rparr>"

definition block_disk_open :: "string option \<Rightarrow> dev \<Rightarrow> int \<times> dev" where
  "block_disk_open diskname d =
     (case diskname of
       None \<Rightarrow> (-1, d)
     | Some path \<Rightarrow>
         if disk_fd (disk d) \<noteq> INVALID_FD then (-1, d)
         else case host_open path (host d) of (fd, h) \<Rightarrow>
           if fd < 0 then (-1, d\<lparr>host := h\<rparr>)
           else case host_fstat fd h of
             (None, h) \<Rightarrow> (-1, d\<lparr>host := h\<rparr>)
           | (Some st_size, h) \<Rightarrow>
               if st_size mod BLOCK_SIZE \<noteq> 0 then (-1, d\<lparr>host := h\<rparr>)
               else (0, d\<lparr>disk := \<lparr>disk_fd = fd, bcount = of_nat (st_size div BLOCK_SIZE)\<rparr>,
                          host := h\<rparr>))"

definition block_disk_close :: "dev \<Rightarrow> int \<times> dev" where
  "block_disk_close d =
     (if disk_fd (disk d) = INVALID_FD then (-1, d)
      else (0, d\<lparr>disk := (disk d)\<lparr>disk_fd := INVALID_FD\<rparr>,
                 host := host_close (disk_fd (disk d)) (host d)\<rparr>))"

definition block_disk_count :: "dev \<Rightarrow> int" where
  "block_disk_count d =
     (if disk_fd (disk d) = INVALID_FD then -1 else to_int (bcount (disk d)))"

text \<open>
  \<open>buf\<close> is the block handed to \<open>write\<close>. \<open>block_read\<close> returns, with its result, the bytes \<open>read\<close> stored
  at the caller's pointer: none when it fails before the transfer.
\<close>

definition block_write :: "u64 \<Rightarrow> byte list \<Rightarrow> dev \<Rightarrow> int \<times> dev" where
  "block_write block buf d =
     (if disk_fd (disk d) = INVALID_FD then (-1, d)
      else if block \<ge> bcount (disk d) then (-1, d)
      else case host_lseek (disk_fd (disk d)) (unat (block * of_nat BLOCK_SIZE)) (host d) of
        (None, h) \<Rightarrow> (-1, d\<lparr>host := h\<rparr>)
      | (Some pos, h) \<Rightarrow>
          (case host_write (disk_fd (disk d)) pos buf h of (written, h) \<Rightarrow>
             if \<not> written then (-1, d\<lparr>host := h\<rparr>) else (0, d\<lparr>host := h\<rparr>)))"

definition block_read :: "u64 \<Rightarrow> dev \<Rightarrow> int \<times> byte list \<times> dev" where
  "block_read block d =
     (if disk_fd (disk d) = INVALID_FD then (-1, [], d)
      else if block \<ge> bcount (disk d) then (-1, [], d)
      else case host_lseek (disk_fd (disk d)) (unat (block * of_nat BLOCK_SIZE)) (host d) of
        (None, h) \<Rightarrow> (-1, [], d\<lparr>host := h\<rparr>)
      | (Some pos, h) \<Rightarrow>
          (case host_read (disk_fd (disk d)) pos BLOCK_SIZE h of
            (None, h) \<Rightarrow> (-1, [], d\<lparr>host := h\<rparr>)
          | (Some data, h) \<Rightarrow> (0, data, d\<lparr>host := h\<rparr>)))"

section \<open>What a disk holds\<close>

text \<open>
  \<open>disk_image\<close> is the content of the open disk file, \<open>block_at\<close> one block of it. A disk is \<open>disk_ok\<close> when
  it is open on an existing file of the size recorded in \<open>bcount\<close> (file sizes are \<open>off_t\<close> values);
  it is \<open>calm\<close> when no host call is scheduled to fail.
\<close>

definition disk_image :: "dev \<Rightarrow> byte list" where
  "disk_image d = (case host_content (disk_fd (disk d)) (host d) of None \<Rightarrow> [] | Some c \<Rightarrow> c)"

definition blocks :: "dev \<Rightarrow> nat" where
  "blocks d = unat (bcount (disk d))"

definition block_at :: "dev \<Rightarrow> nat \<Rightarrow> byte list" where
  "block_at d b = take BLOCK_SIZE (drop (BLOCK_SIZE * b) (disk_image d))"

definition disk_ok :: "dev \<Rightarrow> bool" where
  "disk_ok d \<longleftrightarrow>
     disk_fd (disk d) \<noteq> INVALID_FD \<and>
     host_content (disk_fd (disk d)) (host d) \<noteq> None \<and>
     length (disk_image d) = BLOCK_SIZE * blocks d \<and>
     length (disk_image d) < 2 ^ 63"

definition calm :: "dev \<Rightarrow> bool" where
  "calm d \<longleftrightarrow> host_faults (host d) = []"

text \<open>The effect of a successful \<open>block_write\<close>.\<close>

definition put_block :: "nat \<Rightarrow> byte list \<Rightarrow> dev \<Rightarrow> dev" where
  "put_block b buf d =
     (case host_fds (host d) (disk_fd (disk d)) of
       None \<Rightarrow> d
     | Some path \<Rightarrow>
         d\<lparr>host := (host d)\<lparr>host_files :=
             (host_files (host d))(path \<mapsto> overwrite (disk_image d) (BLOCK_SIZE * b) buf)\<rparr>\<rparr>)"

lemma BLOCK_SIZE_pos [simp]: "0 < BLOCK_SIZE" "BLOCK_SIZE \<noteq> 0"
  by (simp_all add: BLOCK_SIZE_def)

lemma host_call_calm [simp]: "host_faults h = [] \<Longrightarrow> host_call h = (False, h)"
  by (simp add: host_call_def)

lemma blocks_bound: "unat b < blocks d \<Longrightarrow> BLOCK_SIZE * Suc (unat b) \<le> BLOCK_SIZE * blocks d"
  by (rule mult_le_mono2) simp

lemma block_offset:
  assumes "disk_ok d" and "unat b < blocks d"
  shows "unat (b * of_nat BLOCK_SIZE :: u64) = BLOCK_SIZE * unat b"
    and "BLOCK_SIZE * unat b + BLOCK_SIZE \<le> length (disk_image d)"
proof -
  have le: "BLOCK_SIZE * unat b + BLOCK_SIZE \<le> length (disk_image d)"
    using blocks_bound [OF assms(2)] assms(1) by (simp add: disk_ok_def)
  then show "BLOCK_SIZE * unat b + BLOCK_SIZE \<le> length (disk_image d)" .
  have "BLOCK_SIZE * unat b < 2 ^ 64"
    using le assms(1) by (simp add: disk_ok_def BLOCK_SIZE_def)
  then show "unat (b * of_nat BLOCK_SIZE :: u64) = BLOCK_SIZE * unat b"
    by (simp add: unat_word_ariths BLOCK_SIZE_def mult.commute)
qed

lemma length_block_at: "disk_ok d \<Longrightarrow> b < blocks d \<Longrightarrow> length (block_at d b) = BLOCK_SIZE"
proof -
  assume "disk_ok d" and "b < blocks d"
  moreover from this(2) have "BLOCK_SIZE * Suc b \<le> BLOCK_SIZE * blocks d"
    by (intro mult_le_mono2) simp
  ultimately show ?thesis by (simp add: block_at_def disk_ok_def)
qed

lemma disk_okE:
  assumes "disk_ok d"
  obtains path c where "host_fds (host d) (disk_fd (disk d)) = Some path"
    and "host_files (host d) path = Some c" and "disk_image d = c"
    and "disk_fd (disk d) \<noteq> INVALID_FD"
  using assms by (auto simp: disk_ok_def host_content_def disk_image_def split: option.splits)

lemma block_read_ok:
  assumes "disk_ok d" and "calm d" and "unat b < blocks d"
  shows "block_read b d = (0, block_at d (unat b), d)"
proof -
  from \<open>disk_ok d\<close> obtain path c where
    "host_fds (host d) (disk_fd (disk d)) = Some path" "host_files (host d) path = Some c"
    "disk_image d = c" "disk_fd (disk d) \<noteq> INVALID_FD"
    by (rule disk_okE)
  with assms show ?thesis
    by (simp add: block_read_def host_lseek_def host_read_def calm_def block_offset [OF assms(1,3)]
        host_content_def block_at_def blocks_def word_le_nat_alt)
qed

lemma block_write_ok:
  assumes "disk_ok d" and "calm d" and "unat b < blocks d"
  shows "block_write b buf d = (0, put_block (unat b) buf d)"
proof -
  from \<open>disk_ok d\<close> obtain path c where
    "host_fds (host d) (disk_fd (disk d)) = Some path" "host_files (host d) path = Some c"
    "disk_image d = c" "disk_fd (disk d) \<noteq> INVALID_FD"
    by (rule disk_okE)
  with assms show ?thesis
    by (simp add: block_write_def host_lseek_def host_write_def calm_def block_offset [OF assms(1,3)]
        host_content_def put_block_def blocks_def word_le_nat_alt)
qed

lemma block_read_range: "blocks d \<le> unat b \<Longrightarrow> block_read b d = (-1, [], d)"
  by (simp add: block_read_def blocks_def word_le_nat_alt)

lemma block_write_range: "blocks d \<le> unat b \<Longrightarrow> block_write b buf d = (-1, d)"
  by (simp add: block_write_def blocks_def word_le_nat_alt)

lemma put_block_disk [simp]: "disk (put_block b buf d) = disk d"
  by (simp add: put_block_def split: option.split)

lemma put_block_blocks [simp]: "blocks (put_block b buf d) = blocks d"
  by (simp add: blocks_def)

lemma put_block_calm [simp]: "calm (put_block b buf d) \<longleftrightarrow> calm d"
  by (simp add: calm_def put_block_def split: option.split)

lemma put_block_image: "disk_ok d \<Longrightarrow> disk_image (put_block b buf d) = overwrite (disk_image d) (BLOCK_SIZE * b) buf"
  by (erule disk_okE) (simp add: put_block_def disk_image_def host_content_def)

lemma put_block_content:
  "disk_ok d \<Longrightarrow> host_content (disk_fd (disk d)) (host (put_block b buf d)) \<noteq> None"
  by (erule disk_okE) (simp add: put_block_def host_content_def)

lemma put_block_disk_ok:
  assumes "disk_ok d" and "b < blocks d" and "length buf = BLOCK_SIZE"
  shows "disk_ok (put_block b buf d)"
proof -
  have "BLOCK_SIZE * Suc b \<le> BLOCK_SIZE * blocks d"
    using assms(2) by (intro mult_le_mono2) simp
  with assms have "length (disk_image (put_block b buf d)) = length (disk_image d)"
    by (simp add: put_block_image disk_ok_def)
  with assms put_block_content [OF assms(1)] show ?thesis
    by (simp add: disk_ok_def)
qed

lemma block_at_put_same:
  assumes "disk_ok d" and "b < blocks d" and "length buf = BLOCK_SIZE"
  shows "block_at (put_block b buf d) b = buf"
proof -
  have "BLOCK_SIZE * Suc b \<le> BLOCK_SIZE * blocks d"
    using assms(2) by (intro mult_le_mono2) simp
  with assms take_drop_overwrite [of "BLOCK_SIZE * b" buf "disk_image d"] show ?thesis
    by (simp add: block_at_def put_block_image disk_ok_def)
qed

lemma take_drop_overwrite_other:
  assumes "off' + n \<le> off \<or> off + length ys \<le> off'" and "off + length ys \<le> length xs"
  shows "take n (drop off' (overwrite xs off ys)) = take n (drop off' xs)"
proof (rule nth_equalityI)
  show "length (take n (drop off' (overwrite xs off ys))) = length (take n (drop off' xs))"
    using assms by simp
  fix i assume "i < length (take n (drop off' (overwrite xs off ys)))"
  then show "take n (drop off' (overwrite xs off ys)) ! i = take n (drop off' xs) ! i"
    using assms by (auto simp: nth_overwrite)
qed

lemma block_at_put_other:
  assumes "disk_ok d" and "b < blocks d" and "length buf = BLOCK_SIZE" and "b' \<noteq> b"
  shows "block_at (put_block b buf d) b' = block_at d b'"
proof -
  have "BLOCK_SIZE * Suc b \<le> BLOCK_SIZE * blocks d"
    using assms(2) by (intro mult_le_mono2) simp
  moreover have "BLOCK_SIZE * Suc b' \<le> BLOCK_SIZE * b \<or> BLOCK_SIZE * Suc b \<le> BLOCK_SIZE * b'"
    using assms(4) by (metis Suc_leI linorder_neqE_nat mult_le_mono2)
  ultimately show ?thesis
    using assms by (simp add: block_at_def put_block_image disk_ok_def)
      (intro take_drop_overwrite_other; auto)
qed

section \<open>Opening and closing\<close>

lemma block_disk_count_ok:
  assumes "disk_ok d" and "blocks d < 65536"
  shows "block_disk_count d = int (blocks d)"
proof -
  have "uint (bcount (disk d)) = int (blocks d)" by (simp add: blocks_def)
  with assms(2) have "to_int (bcount (disk d)) = int (blocks d)"
    by (subst to_int_small) (simp_all add: INT_MAX_def)
  with assms(1) show ?thesis by (simp add: block_disk_count_def disk_ok_def)
qed

lemma block_disk_open_ok:
  assumes "disk_fd (disk d) = INVALID_FD" and "calm d" and "0 \<le> host_next (host d)"
    and "host_files (host d) path = Some c" and "length c mod BLOCK_SIZE = 0"
    and "length c < 2 ^ 63"
  obtains d' where "block_disk_open (Some path) d = (0, d')" and "disk_ok d'" and "calm d'"
    and "disk_image d' = c" and "blocks d' = length c div BLOCK_SIZE"
    and "host_files (host d') = host_files (host d)" and "0 \<le> host_next (host d')"
    and "host_fds (host d') (disk_fd (disk d')) = Some path"
proof -
  define d' where "d' = d\<lparr>disk := \<lparr>disk_fd = host_next (host d), bcount = of_nat (length c div BLOCK_SIZE)\<rparr>,
    host := (host d)\<lparr>host_fds := (host_fds (host d))(host_next (host d) \<mapsto> path),
      host_next := host_next (host d) + 1\<rparr>\<rparr>"
  have len: "length c div BLOCK_SIZE < 2 ^ 64"
    using assms(6) by (simp add: BLOCK_SIZE_def)
  then have b: "blocks d' = length c div BLOCK_SIZE"
    by (simp add: d'_def blocks_def unat_of_nat)
  have i: "disk_image d' = c"
    using assms by (simp add: d'_def disk_image_def host_content_def)
  have "length c = BLOCK_SIZE * (length c div BLOCK_SIZE)"
    using assms(5) by (metis add.right_neutral mult_div_mod_eq)
  then have "disk_ok d'"
    using assms b i by (simp add: disk_ok_def) (simp add: d'_def host_content_def INVALID_FD_def)
  moreover have "block_disk_open (Some path) d = (0, d')"
    using assms by (simp add: block_disk_open_def host_open_def host_fstat_def calm_def d'_def
        host_content_def)
  ultimately show ?thesis
    using that [of d'] assms b i by (simp add: calm_def) (simp add: d'_def)
qed

lemma block_disk_close_ok:
  assumes "disk_ok d" and "calm d"
  obtains d' where "block_disk_close d = (0, d')" and "disk_fd (disk d') = INVALID_FD" and "calm d'"
    and "host_files (host d') = host_files (host d)" and "host_next (host d') = host_next (host d)"
  using assms that [of "snd (block_disk_close d)"]
  by (simp add: block_disk_close_def disk_ok_def calm_def host_close_def)

section \<open>The block device interface\<close>

text \<open>
  What the file system uses of the disk: blocks of \<open>BLOCK_SIZE\<close> bytes under an index, a write that
  changes one block and nothing else. A file's content is the concatenation of the blocks of its
  chain; the laws below are about such lists of blocks.
\<close>

definition blocks_content :: "(nat \<Rightarrow> byte list) \<Rightarrow> nat list \<Rightarrow> byte list" where
  "blocks_content get bs = concat (map get bs)"

locale block_device =
  fixes get :: "'d \<Rightarrow> nat \<Rightarrow> byte list"
    and put :: "nat \<Rightarrow> byte list \<Rightarrow> 'd \<Rightarrow> 'd"
    and count :: "'d \<Rightarrow> nat"
    and ok :: "'d \<Rightarrow> bool"
  assumes length_get: "ok d \<Longrightarrow> b < count d \<Longrightarrow> length (get d b) = BLOCK_SIZE"
    and get_put_same:
      "ok d \<Longrightarrow> b < count d \<Longrightarrow> length buf = BLOCK_SIZE \<Longrightarrow> get (put b buf d) b = buf"
    and get_put_other:
      "ok d \<Longrightarrow> b < count d \<Longrightarrow> length buf = BLOCK_SIZE \<Longrightarrow> b' \<noteq> b \<Longrightarrow>
        get (put b buf d) b' = get d b'"
    and count_put: "count (put b buf d) = count d"
    and ok_put: "ok d \<Longrightarrow> b < count d \<Longrightarrow> length buf = BLOCK_SIZE \<Longrightarrow> ok (put b buf d)"
begin

lemma length_content:
  assumes "ok d" and "\<And>b. b \<in> set bs \<Longrightarrow> b < count d"
  shows "length (blocks_content (get d) bs) = BLOCK_SIZE * length bs"
proof -
  have "length (concat (map (get d) bs)) = BLOCK_SIZE * length (map (get d) bs)"
    by (rule length_concat_chunks) (use assms in \<open>auto simp: length_get\<close>)
  then show ?thesis by (simp add: blocks_content_def)
qed

lemma content_block:
  assumes "ok d" and "\<And>b. b \<in> set bs \<Longrightarrow> b < count d" and "k < length bs"
  shows "take BLOCK_SIZE (drop (BLOCK_SIZE * k) (blocks_content (get d) bs)) = get d (bs ! k)"
proof -
  have "take BLOCK_SIZE (drop (BLOCK_SIZE * k) (concat (map (get d) bs) @ [])) = map (get d) bs ! k"
    by (rule concat_chunk) (use assms in \<open>auto simp: length_get\<close>)
  then show ?thesis using assms(3) by (simp add: blocks_content_def)
qed

lemma content_put:
  assumes "ok d" and "\<And>b. b \<in> set bs \<Longrightarrow> b < count d" and "distinct bs" and "k < length bs"
    and "length buf = BLOCK_SIZE"
  shows "blocks_content (get (put (bs ! k) buf d)) bs =
    overwrite (blocks_content (get d) bs) (BLOCK_SIZE * k) buf"
proof -
  have "map (get (put (bs ! k) buf d)) bs = (map (get d) bs)[k := buf]"
  proof (rule nth_equalityI)
    fix i assume "i < length (map (get (put (bs ! k) buf d)) bs)"
    then show "map (get (put (bs ! k) buf d)) bs ! i = (map (get d) bs)[k := buf] ! i"
      using assms by (cases "i = k") (auto simp: get_put_same get_put_other nth_eq_iff_index_eq)
  qed simp
  moreover have "concat ((map (get d) bs)[k := buf]) =
    overwrite (concat (map (get d) bs)) (BLOCK_SIZE * k) buf"
    by (rule concat_update) (use assms in \<open>auto simp: length_get\<close>)
  ultimately show ?thesis by (simp add: blocks_content_def)
qed

lemma content_put_other:
  assumes "ok d" and "b < count d" and "length buf = BLOCK_SIZE" and "b \<notin> set bs"
  shows "blocks_content (get (put b buf d)) bs = blocks_content (get d) bs"
proof -
  have "map (get (put b buf d)) bs = map (get d) bs"
    by (rule map_cong [OF refl]) (metis assms get_put_other)
  then show ?thesis unfolding blocks_content_def by (rule arg_cong)
qed

end

interpretation vd: block_device block_at put_block blocks disk_ok
  by unfold_locales
    (simp_all add: length_block_at block_at_put_same block_at_put_other put_block_disk_ok)

end
