(* ===== verification/Fs_State.thy ===== *)
theory Fs_State
  imports Disk
begin

text \<open>
  The data of \<open>src/libfs/fs.c\<close>: its constants, its structs as records, its file-scope variables as the
  record \<open>fs\<close>, and the pointer accesses the operations make on them.

  \<^item> \<open>root\<close> and \<open>open_files\<close> are the two pointer arrays. The \<open>struct File\<close> objects are shared between
    them, so they live in a store \<open>heap\<close> from addresses to objects, in which freed addresses are
    absent and never given out again. A \<open>struct FileDescriptor\<close> has one owner, its slot of
    \<open>open_files\<close>, and is kept there.
  \<^item> \<open>sb\<close> and \<open>fat\<close> have one owner and are a \<open>ptr\<close>.
  \<^item> \<open>junk\<close> is what uninitialised or neighbouring memory holds: one arbitrary function.
  \<^item> \<open>stdout\<close> lists the \<open>printf\<close> calls (format and arguments), oldest first.
\<close>

section \<open>Constants\<close>

definition FS_FILENAME_LEN :: nat where
  "FS_FILENAME_LEN = 16"

definition FS_FILE_MAX_COUNT :: nat where
  "FS_FILE_MAX_COUNT = 128"

definition FS_OPEN_MAX_COUNT :: nat where
  "FS_OPEN_MAX_COUNT = 32"

definition SUPERBLOCK_SIG_LEN :: nat where
  "SUPERBLOCK_SIG_LEN = 8"

definition SUPERBLOCK_PAD_LEN :: nat where
  "SUPERBLOCK_PAD_LEN = 4079"

definition ROOT_PAD_LEN :: nat where
  "ROOT_PAD_LEN = 10"

definition ROOT_ENTRY_LEN :: nat where
  "ROOT_ENTRY_LEN = 32"

definition FAT_EOC :: u16 where
  "FAT_EOC = 0xFFFF"

lemmas fs_sizes =
  FS_FILENAME_LEN_def FS_FILE_MAX_COUNT_def FS_OPEN_MAX_COUNT_def SUPERBLOCK_SIG_LEN_def
  SUPERBLOCK_PAD_LEN_def ROOT_PAD_LEN_def ROOT_ENTRY_LEN_def

section \<open>Structs and variables\<close>

type_synonym addr = nat

record SuperBlock =
  signature :: "byte list"
  num_blocks :: u16
  root_index :: u16
  data_start_index :: u16
  num_data_blocks :: u16
  num_fat_blocks :: u8
  sb_padding :: "byte list"

record File =
  filename :: "byte list"
  file_size :: u32
  first_index :: u16
  file_padding :: "byte list"

record FileDescriptor =
  fd_file :: "addr option"
  fd_offset :: u16

datatype printf_arg = Dec int | Chr byte | Str "byte list"

type_synonym printed = "string \<times> printf_arg list"

record fs =
  sb :: "SuperBlock ptr"
  fat :: "u16 list ptr"
  root :: "addr option list"
  open_files :: "FileDescriptor option list"
  num_open_files :: u8
  is_disk_mounted :: bool
  heap :: "addr \<rightharpoonup> File"
  next_addr :: addr
  junk :: "nat \<Rightarrow> byte"
  stdout :: "printed list"
  dev :: dev

text \<open>The state of a program that has just started, over a given host.\<close>

definition fs_init :: "(nat \<Rightarrow> byte) \<Rightarrow> host \<Rightarrow> fs" where
  "fs_init j h =
     \<lparr>sb = Null, fat = Null,
      root = replicate FS_FILE_MAX_COUNT None,
      open_files = replicate FS_OPEN_MAX_COUNT None,
      num_open_files = 0, is_disk_mounted = False,
      heap = Map.empty, next_addr = 0, junk = j, stdout = [],
      dev = \<lparr>disk = disk_init, host = h\<rparr>\<rparr>"

section \<open>Memory\<close>

text \<open>\<open>malloc\<close> may return NULL: it takes its outcome from the host's schedule of failures.\<close>

definition malloc :: "fs \<Rightarrow> bool \<times> fs" where
  "malloc s =
     (case host_call (host (dev s)) of (failed, h) \<Rightarrow>
       (\<not> failed, s\<lparr>dev := (dev s)\<lparr>host := h\<rparr>\<rparr>))"

text \<open>The \<open>n\<close> bytes of an uninitialised array on the stack.\<close>

definition stack_buffer :: "nat \<Rightarrow> fs \<Rightarrow> byte list" where
  "stack_buffer n s = map (junk s) [0..<n]"

lemma length_stack_buffer [simp]: "length (stack_buffer n s) = n"
  by (simp add: stack_buffer_def)

definition file_at :: "addr option \<Rightarrow> fs \<Rightarrow> (addr \<times> File) res" where
  "file_at p s =
     (case p of
       None \<Rightarrow> Inl Null_deref
     | Some a \<Rightarrow> (case heap s a of None \<Rightarrow> Inl Use_after_free | Some f \<Rightarrow> Inr (a, f)))"

definition set_file :: "addr \<Rightarrow> File \<Rightarrow> fs \<Rightarrow> fs" where
  "set_file a f s = s\<lparr>heap := (heap s)(a \<mapsto> f)\<rparr>"

text \<open>\<open>root[i]\<close>, \<open>*open_files[fd]\<close> and \<open>*open_files[fd]->file\<close>.\<close>

definition root_entry :: "nat \<Rightarrow> fs \<Rightarrow> (addr \<times> File) res" where
  "root_entry i s = bnd (fetch (root s) i) (\<lambda>p. file_at p s)"

definition fd_entry :: "nat \<Rightarrow> fs \<Rightarrow> FileDescriptor res" where
  "fd_entry fd s =
     bnd (fetch (open_files s) fd)
       (\<lambda>e. case e of None \<Rightarrow> Inl Null_deref | Some d \<Rightarrow> Inr d)"

definition opened_file :: "nat \<Rightarrow> fs \<Rightarrow> (addr \<times> File) res" where
  "opened_file fd s = bnd (fd_entry fd s) (\<lambda>d. file_at (fd_file d) s)"

definition set_fd_entry :: "nat \<Rightarrow> FileDescriptor option \<Rightarrow> fs \<Rightarrow> fs" where
  "set_fd_entry fd e s = s\<lparr>open_files := (open_files s)[fd := e]\<rparr>"

lemma set_file_simps [simp]:
  "heap (set_file a f s) = (heap s)(a \<mapsto> f)"
  "sb (set_file a f s) = sb s"
  "fat (set_file a f s) = fat s"
  "root (set_file a f s) = root s"
  "open_files (set_file a f s) = open_files s"
  "num_open_files (set_file a f s) = num_open_files s"
  "is_disk_mounted (set_file a f s) = is_disk_mounted s"
  "junk (set_file a f s) = junk s"
  "stdout (set_file a f s) = stdout s"
  "dev (set_file a f s) = dev s"
  by (simp_all add: set_file_def)

lemma set_fd_entry_simps [simp]:
  "heap (set_fd_entry fd e s) = heap s"
  "sb (set_fd_entry fd e s) = sb s"
  "fat (set_fd_entry fd e s) = fat s"
  "root (set_fd_entry fd e s) = root s"
  "open_files (set_fd_entry fd e s) = (open_files s)[fd := e]"
  "num_open_files (set_fd_entry fd e s) = num_open_files s"
  "is_disk_mounted (set_fd_entry fd e s) = is_disk_mounted s"
  "junk (set_fd_entry fd e s) = junk s"
  "stdout (set_fd_entry fd e s) = stdout s"
  "dev (set_fd_entry fd e s) = dev s"
  by (simp_all add: set_fd_entry_def)

section \<open>Well-formed tables\<close>

text \<open>
  \<open>files_ok\<close>: every root slot holds a live \<open>struct File\<close> of its own, with arrays of the declared
  lengths. \<open>slots_ok\<close>: the descriptor table has its declared size and every open descriptor points to
  one of those files.
\<close>

definition file_ok :: "File \<Rightarrow> bool" where
  "file_ok f \<longleftrightarrow> length (filename f) = FS_FILENAME_LEN \<and> length (file_padding f) = ROOT_PAD_LEN"

definition files_ok :: "fs \<Rightarrow> bool" where
  "files_ok s \<longleftrightarrow>
     length (root s) = FS_FILE_MAX_COUNT \<and> distinct (root s) \<and>
     (\<forall>p \<in> set (root s). \<exists>a f. p = Some a \<and> heap s a = Some f \<and> file_ok f)"

definition slots_ok :: "fs \<Rightarrow> bool" where
  "slots_ok s \<longleftrightarrow>
     length (open_files s) = FS_OPEN_MAX_COUNT \<and>
     (\<forall>d. Some d \<in> set (open_files s) \<longrightarrow> fd_file d \<in> set (root s))"

text \<open>The address and the contents of root slot \<open>i\<close> in a state with \<open>files_ok\<close>.\<close>

definition slot_addr :: "fs \<Rightarrow> nat \<Rightarrow> addr" where
  "slot_addr s i = the (root s ! i)"

definition slot_file :: "fs \<Rightarrow> nat \<Rightarrow> File" where
  "slot_file s i = the (heap s (slot_addr s i))"

lemma files_ok_slot:
  assumes "files_ok s" and "i < FS_FILE_MAX_COUNT"
  shows "root s ! i = Some (slot_addr s i)"
    and "heap s (slot_addr s i) = Some (slot_file s i)"
    and "file_ok (slot_file s i)"
proof -
  have "root s ! i \<in> set (root s)"
    using assms by (simp add: files_ok_def)
  with assms(1) obtain a f where "root s ! i = Some a" "heap s a = Some f" "file_ok f"
    unfolding files_ok_def by blast
  then show "root s ! i = Some (slot_addr s i)"
    and "heap s (slot_addr s i) = Some (slot_file s i)" and "file_ok (slot_file s i)"
    by (simp_all add: slot_addr_def slot_file_def)
qed

lemma slot_addr_inject:
  assumes "files_ok s" and "i < FS_FILE_MAX_COUNT" and "j < FS_FILE_MAX_COUNT"
  shows "slot_addr s i = slot_addr s j \<longleftrightarrow> i = j"
proof
  assume "slot_addr s i = slot_addr s j"
  then have "root s ! i = root s ! j" using assms by (simp add: files_ok_slot(1))
  then show "i = j"
    using assms by (simp add: files_ok_def nth_eq_iff_index_eq)
qed simp

lemma root_entry_ok:
  "files_ok s \<Longrightarrow> i < FS_FILE_MAX_COUNT \<Longrightarrow>
    root_entry i s = Inr (slot_addr s i, slot_file s i)"
  by (simp add: root_entry_def fetch_def file_at_def files_ok_slot) (simp add: files_ok_def)

lemma slots_ok_entry:
  assumes "files_ok s" and "slots_ok s" and "fd < FS_OPEN_MAX_COUNT"
    and "open_files s ! fd = Some d"
  obtains i where "i < FS_FILE_MAX_COUNT" and "fd_file d = Some (slot_addr s i)"
    and "fd_entry fd s = Inr d" and "opened_file fd s = Inr (slot_addr s i, slot_file s i)"
proof -
  have "Some d \<in> set (open_files s)"
    using assms by (metis nth_mem slots_ok_def)
  with assms(2) have "fd_file d \<in> set (root s)" by (simp add: slots_ok_def)
  then obtain i where i: "i < FS_FILE_MAX_COUNT" "root s ! i = fd_file d"
    using assms(1) unfolding in_set_conv_nth by (auto simp: files_ok_def)
  with assms have "fd_file d = Some (slot_addr s i)"
    using files_ok_slot(1) by force
  moreover have "fd_entry fd s = Inr d"
    using assms by (simp add: fd_entry_def fetch_def slots_ok_def)
  ultimately show ?thesis
    using i assms files_ok_slot(2) [OF assms(1)] that [of i]
    by (simp add: opened_file_def file_at_def)
qed

lemma slot_file_set_file:
  assumes "files_ok s" and "i < FS_FILE_MAX_COUNT" and "j < FS_FILE_MAX_COUNT"
  shows "slot_file (set_file (slot_addr s i) f s) j = (if j = i then f else slot_file s j)"
    and "slot_addr (set_file a f s) j = slot_addr s j"
  using assms by (auto simp: slot_file_def slot_addr_def slot_addr_inject [OF assms(1), unfolded slot_addr_def])

lemma files_ok_set_file:
  assumes "files_ok s" and "file_ok f"
  shows "files_ok (set_file a f s)"
  using assms by (fastforce simp: files_ok_def)

lemma slots_ok_set_file [simp]: "slots_ok (set_file a f s) \<longleftrightarrow> slots_ok s"
  by (simp add: slots_ok_def)

end
