(* ===== verification/Names.thy ===== *)
theory Names
  imports Fs_State
begin

text \<open>
  File names: the C strings callers pass, the comparison \<open>streq\<close> of \<open>fs.c\<close> and the \<open>strcmp\<close> of the
  library, the check \<open>is_filename_invalid\<close> and the two searches of the root directory. The two ways
  \<open>fs.c\<close> compares names are shown to agree on the names it lets through.
\<close>

section \<open>C strings\<close>

text \<open>
  A \<open>const char *\<close> argument: NULL, or a pointer to the given bytes followed by a terminating zero.
  The string proper ends at the first zero.
\<close>

type_synonym c_str = "byte list option"

definition c_mem :: "byte list \<Rightarrow> byte list" where
  "c_mem name = name @ [0]"

definition c_text :: "byte list \<Rightarrow> byte list" where
  "c_text mem = takeWhile (\<lambda>b. b \<noteq> 0) mem"

definition strlen :: "byte list \<Rightarrow> nat" where
  "strlen name = length (c_text (c_mem name))"

text \<open>\<open>strcmp(a, b) == 0\<close>, reading both arrays until they differ or end.\<close>

fun strcmp_eq :: "byte list \<Rightarrow> byte list \<Rightarrow> bool res" where
  "strcmp_eq (a # as) (b # bs) =
     (if a \<noteq> b then Inr False else if a = 0 then Inr True else strcmp_eq as bs)"
| "strcmp_eq _ _ = Inl Out_of_bounds"

section \<open>The functions of fs.c\<close>

function streq_from :: "nat \<Rightarrow> byte list \<Rightarrow> byte list \<Rightarrow> int res" where
  "streq_from i str1 str2 =
     (if i < FS_FILENAME_LEN
      then bnd (fetch str1 i) (\<lambda>a. bnd (fetch str2 i) (\<lambda>b.
             if a = 0 \<and> b = 0 then Inr 0
             else if a \<noteq> b then Inr (-1)
             else streq_from (Suc i) str1 str2))
      else Inr (-1))"
  by pat_completeness auto
termination
  by (relation "measure (\<lambda>(i, str1, str2). FS_FILENAME_LEN - i)") auto

declare streq_from.simps [simp del]

definition streq :: "byte list \<Rightarrow> byte list \<Rightarrow> int res" where
  "streq str1 str2 = streq_from 0 str1 str2"

definition is_filename_invalid :: "c_str \<Rightarrow> bool" where
  "is_filename_invalid name =
     (case name of
       None \<Rightarrow> True
     | Some n \<Rightarrow> c_mem n ! 0 = 0 \<or> strlen n + 1 > FS_FILENAME_LEN)"

definition index_result :: "nat option \<Rightarrow> int" where
  "index_result r = (case r of None \<Rightarrow> -1 | Some i \<Rightarrow> int i)"

definition find_empty_root_entry :: "fs \<Rightarrow> int res" where
  "find_empty_root_entry s =
     bnd (find_first 0 FS_FILE_MAX_COUNT
            (\<lambda>i. bnd (root_entry i s) (\<lambda>(a, f). bnd (fetch (filename f) 0) (\<lambda>c. Inr (c = 0)))))
       (\<lambda>r. Inr (index_result r))"

definition find_matching_filename :: "byte list \<Rightarrow> fs \<Rightarrow> int res" where
  "find_matching_filename name s =
     bnd (find_first 0 FS_FILE_MAX_COUNT
            (\<lambda>i. bnd (root_entry i s) (\<lambda>(a, f). strcmp_eq (c_mem name) (filename f))))
       (\<lambda>r. Inr (index_result r))"

section \<open>Names as texts\<close>

text \<open>
  A name the check lets through (\<open>valid_name\<close>) is a nonempty text of at most 15 characters. The text of
  a directory entry is what its array holds before the first zero.
\<close>

definition valid_name :: "byte list \<Rightarrow> bool" where
  "valid_name name \<longleftrightarrow> \<not> is_filename_invalid (Some name)"

lemma c_text_c_mem: "c_text (c_mem name) = c_text name"
  by (simp add: c_text_def c_mem_def takeWhile_tail)

lemma strlen_eq: "strlen name = length (c_text name)"
  by (simp add: strlen_def c_text_c_mem)

lemma c_text_no_zero: "0 \<notin> set (c_text mem)"
  by (auto simp: c_text_def dest: set_takeWhileD)

lemma c_text_Cons: "c_text (b # bs) = (if b = 0 then [] else b # c_text bs)"
  by (simp add: c_text_def)

lemma c_mem_text:
  obtains rest where "c_mem name = c_text name @ 0 # rest"
proof -
  have "\<exists>rest. c_mem name = c_text name @ 0 # rest"
    unfolding c_mem_def
  proof (induction name)
    case Nil
    then show ?case by (simp add: c_text_def)
  next
    case (Cons b bs)
    then show ?case by (cases "b = 0") (auto simp: c_text_Cons)
  qed
  then show ?thesis using that by blast
qed

lemma valid_name_iff:
  "valid_name name \<longleftrightarrow> c_text name \<noteq> [] \<and> length (c_text name) < FS_FILENAME_LEN"
proof -
  obtain rest where "c_mem name = c_text name @ 0 # rest" by (rule c_mem_text)
  moreover have "c_text name ! 0 \<noteq> 0" if "c_text name \<noteq> []"
    using c_text_no_zero [of name] that by (cases "c_text name") auto
  ultimately show ?thesis
    by (auto simp: valid_name_def is_filename_invalid_def strlen_eq nth_append)
qed

text \<open>Both comparisons decide equality of the texts, without reading outside the 16-byte array.\<close>

lemma strcmp_eq_texts:
  assumes "0 \<notin> set t" and "length t < length arr"
  shows "strcmp_eq (t @ 0 # rest) arr = Inr (c_text arr = t)"
  using assms
proof (induction t arbitrary: arr)
  case Nil
  then show ?case by (cases arr) (auto simp: c_text_Cons)
next
  case (Cons b bs)
  then show ?case by (cases arr) (auto simp: c_text_Cons)
qed

lemma strcmp_eq_valid:
  assumes "valid_name name" and "length arr = FS_FILENAME_LEN"
  shows "strcmp_eq (c_mem name) arr = Inr (c_text arr = c_text name)"
proof -
  obtain rest where "c_mem name = c_text name @ 0 # rest" by (rule c_mem_text)
  with assms strcmp_eq_texts [OF c_text_no_zero, of name arr rest] show ?thesis
    by (simp add: valid_name_iff)
qed

lemma streq_from_texts:
  assumes "0 \<notin> set t" and "length t < FS_FILENAME_LEN - i" and "length arr = FS_FILENAME_LEN"
    and "drop i mem = t @ 0 # rest" and "i < FS_FILENAME_LEN"
  shows "streq_from i arr mem = Inr (if c_text (drop i arr) = t then 0 else -1)"
  using assms
proof (induction t arbitrary: i)
  case Nil
  then have arr: "drop i arr = arr ! i # drop (Suc i) arr" by (simp add: Cons_nth_drop_Suc)
  from Nil have "i < length mem" by (metis drop_eq_Nil2 append_Nil list.distinct(1) not_le)
  moreover with Nil have "mem ! i = 0" by (metis append_Nil hd_drop_conv_nth list.sel(1))
  ultimately show ?case
    using Nil arr by (simp add: streq_from.simps [of i] fetch_def c_text_Cons)
next
  case (Cons b bs)
  then have arr: "drop i arr = arr ! i # drop (Suc i) arr" by (simp add: Cons_nth_drop_Suc)
  from Cons.prems have len: "i < length mem"
    by (metis append_Cons drop_eq_Nil2 list.distinct(1) not_le)
  with Cons.prems have mem: "mem ! i = b" "drop (Suc i) mem = bs @ 0 # rest"
    by (metis append_Cons hd_drop_conv_nth list.sel(1), metis append_Cons drop_Suc list.sel(3) tl_drop)
  have "streq_from (Suc i) arr mem = Inr (if c_text (drop (Suc i) arr) = bs then 0 else -1)"
    using Cons.prems mem by (intro Cons.IH) auto
  with Cons.prems arr len mem show ?case
    by (auto simp: streq_from.simps [of i] fetch_def c_text_Cons)
qed

lemma streq_valid:
  assumes "valid_name name" and "length arr = FS_FILENAME_LEN"
  shows "streq arr (c_mem name) = Inr (if c_text arr = c_text name then 0 else -1)"
proof -
  obtain rest where "c_mem name = c_text name @ 0 # rest" by (rule c_mem_text)
  with assms streq_from_texts [OF c_text_no_zero, of name 0 arr "c_mem name" rest] show ?thesis
    by (simp add: streq_def valid_name_iff)
qed

section \<open>The searches\<close>

definition slot_name :: "fs \<Rightarrow> nat \<Rightarrow> byte list" where
  "slot_name s i = c_text (filename (slot_file s i))"

lemma slot_name_Nil_iff:
  assumes "files_ok s" and "i < FS_FILE_MAX_COUNT"
  shows "slot_name s i = [] \<longleftrightarrow> filename (slot_file s i) ! 0 = 0"
  using files_ok_slot(3) [OF assms]
  by (cases "filename (slot_file s i)")
    (auto simp: slot_name_def c_text_Cons file_ok_def FS_FILENAME_LEN_def)

lemma file_ok_filename: "file_ok f \<Longrightarrow> filename f \<noteq> []"
  by (auto simp: file_ok_def FS_FILENAME_LEN_def)

lemma find_matching_filename_eq:
  assumes "files_ok s" and "valid_name name"
  shows "find_matching_filename name s =
    Inr (index_result (List.find (\<lambda>i. slot_name s i = c_text name) [0..<FS_FILE_MAX_COUNT]))"
proof -
  have "find_first 0 FS_FILE_MAX_COUNT
          (\<lambda>i. bnd (root_entry i s) (\<lambda>(a, f). strcmp_eq (c_mem name) (filename f))) =
        Inr (List.find (\<lambda>i. slot_name s i = c_text name) [0..<FS_FILE_MAX_COUNT])"
    by (rule find_first_pure)
      (use assms files_ok_slot(3) [OF assms(1)] in
        \<open>simp add: root_entry_ok slot_name_def file_ok_def strcmp_eq_valid\<close>)
  then show ?thesis by (simp add: find_matching_filename_def)
qed

lemma find_empty_root_entry_eq:
  assumes "files_ok s"
  shows "find_empty_root_entry s =
    Inr (index_result (List.find (\<lambda>i. slot_name s i = []) [0..<FS_FILE_MAX_COUNT]))"
proof -
  have "find_first 0 FS_FILE_MAX_COUNT
          (\<lambda>i. bnd (root_entry i s) (\<lambda>(a, f). bnd (fetch (filename f) 0) (\<lambda>c. Inr (c = 0)))) =
        Inr (List.find (\<lambda>i. slot_name s i = []) [0..<FS_FILE_MAX_COUNT])"
    by (rule find_first_pure)
      (use assms files_ok_slot(3) [OF assms] in
        \<open>simp add: root_entry_ok slot_name_Nil_iff file_ok_filename fetch_def\<close>)
  then show ?thesis by (simp add: find_empty_root_entry_def)
qed

lemma index_result_simps [simp]:
  "index_result None = -1"
  "index_result (Some i) = int i"
  by (simp_all add: index_result_def)

lemma index_result_eq_iff [simp]:
  "index_result r = -1 \<longleftrightarrow> r = None"
  "index_result r = int i \<longleftrightarrow> r = Some i"
  by (cases r; auto)+

end
