(* ===== verification/Chains.thy ===== *)
theory Chains
  imports Fs_State
begin

text \<open>
  The abstract file allocation table: chains of block numbers linked through a table of 16-bit
  entries, the list of its free entries, and the two ways a chain may grow. Nothing here is code; it
  is the vocabulary in which the routines of theory \<open>Fat\<close> are specified.
\<close>

section \<open>Chains\<close>

text \<open>
  \<open>chain F b xs\<close>: starting from block \<open>b\<close>, the table \<open>F\<close> links exactly the blocks \<open>xs\<close>. Block 0 is
  reserved and belongs to no chain.
\<close>

fun chain :: "u16 list \<Rightarrow> u16 \<Rightarrow> u16 list \<Rightarrow> bool" where
  "chain F b [] \<longleftrightarrow> b = FAT_EOC"
| "chain F b (x # xs) \<longleftrightarrow>
     b = x \<and> b \<noteq> FAT_EOC \<and> b \<noteq> 0 \<and> unat b < length F \<and> chain F (F ! unat b) xs"

text \<open>The blocks met from \<open>b\<close>, at most \<open>n\<close> of them, and the chain they form if there is one.\<close>

fun follow :: "nat \<Rightarrow> u16 list \<Rightarrow> u16 \<Rightarrow> u16 list" where
  "follow 0 F b = []"
| "follow (Suc n) F b =
     (if b = FAT_EOC \<or> length F \<le> unat b then [] else b # follow n F (F ! unat b))"

definition chain_of :: "u16 list \<Rightarrow> u16 \<Rightarrow> u16 list" where
  "chain_of F b = follow (length F) F b"

definition free_entries :: "u16 list \<Rightarrow> nat list" where
  "free_entries F = filter (\<lambda>i. F ! i = 0) [1..<length F]"

lemma chain_unique: "chain F b xs \<Longrightarrow> chain F b ys \<Longrightarrow> xs = ys"
proof (induction F b xs arbitrary: ys rule: chain.induct)
  case (1 F b)
  then show ?case by (cases ys) auto
next
  case (2 F b x xs)
  then show ?case by (cases ys) auto
qed

lemma chain_drop: "chain F b xs \<Longrightarrow> i < length xs \<Longrightarrow> chain F (xs ! i) (drop i xs)"
  by (induction xs arbitrary: b i) (auto simp: nth_Cons split: nat.splits)

lemma chain_hd: "chain F b xs \<Longrightarrow> b = (case xs of [] \<Rightarrow> FAT_EOC | x # _ \<Rightarrow> x)"
  by (cases xs) auto

lemma chain_members:
  "chain F b xs \<Longrightarrow> x \<in> set xs \<Longrightarrow> x \<noteq> FAT_EOC \<and> x \<noteq> 0 \<and> unat x < length F"
  by (induction xs arbitrary: b) auto

lemma chain_next:
  assumes "chain F b xs" and "i < length xs"
  shows "F ! unat (xs ! i) = (if Suc i < length xs then xs ! Suc i else FAT_EOC)"
proof -
  have "chain F (xs ! i) (xs ! i # drop (Suc i) xs)"
    using chain_drop [OF assms] assms(2) by (simp add: Cons_nth_drop_Suc)
  then have "chain F (F ! unat (xs ! i)) (drop (Suc i) xs)" by simp
  from chain_hd [OF this] show ?thesis
    by (auto simp: Cons_nth_drop_Suc [symmetric] split: list.splits)
qed

lemma chain_distinct: "chain F b xs \<Longrightarrow> distinct xs"
proof (rule ccontr)
  assume c: "chain F b xs" and "\<not> distinct xs"
  then obtain i j where ij: "i < j" "j < length xs" "xs ! i = xs ! j"
    by (metis distinct_conv_nth linorder_neqE_nat)
  then have "drop i xs = drop j xs"
    using chain_drop [OF c, of i] chain_drop [OF c, of j] by (auto intro: chain_unique)
  then have "length xs - i = length xs - j" by (metis length_drop)
  with ij show False by simp
qed

lemma chain_entry_nonzero:
  assumes "chain F b xs" and "x \<in> set xs"
  shows "F ! unat x \<noteq> 0"
proof -
  from assms(2) obtain i where i: "i < length xs" "x = xs ! i" by (auto simp: in_set_conv_nth)
  show ?thesis
  proof (cases "Suc i < length xs")
    case True
    then have "xs ! Suc i \<in> set xs" by simp
    with True show ?thesis
      using chain_next [OF assms(1) i(1)] chain_members [OF assms(1)] i(2) by auto
  next
    case False
    then show ?thesis
      using chain_next [OF assms(1) i(1)] i(2) by (simp add: FAT_EOC_def)
  qed
qed

lemma distinct_unat: "distinct xs \<Longrightarrow> distinct (map unat (xs :: 'a::len word list))"
  by (simp add: distinct_map inj_on_def unsigned_word_eqI)

lemma chain_length:
  assumes "chain F b xs"
  shows "length xs < length F \<or> xs = []"
proof -
  have "set (map unat xs) \<subseteq> {1..<length F}"
  proof
    fix k assume "k \<in> set (map unat xs)"
    then obtain x where "x \<in> set xs" "k = unat x" by auto
    with chain_members [OF assms] show "k \<in> {1..<length F}"
      by (simp add: Suc_leI unat_gt_0)
  qed
  from card_mono [OF _ this] have "card (set (map unat xs)) \<le> length F - 1" by simp
  then have "length xs \<le> length F - 1"
    using distinct_card [OF distinct_unat [OF chain_distinct [OF assms]]] by simp
  moreover have "0 < length F" if "xs \<noteq> []"
    using that assms by (cases xs) auto
  ultimately show ?thesis by linarith
qed

lemma follow_chain: "chain F b xs \<Longrightarrow> length xs \<le> n \<Longrightarrow> follow n F b = xs"
proof (induction xs arbitrary: b n)
  case Nil
  then show ?case by (cases n) auto
next
  case (Cons x xs)
  then show ?case by (cases n) auto
qed

lemma chain_of_eq: "chain F b xs \<Longrightarrow> chain_of F b = xs"
  using chain_length [of F b xs] by (auto simp: chain_of_def intro!: follow_chain)

section \<open>Changing the table\<close>

text \<open>A chain is a matter of its own entries only.\<close>

lemma chain_frame:
  assumes "chain F b xs" and "length F' = length F"
    and "\<And>x. x \<in> set xs \<Longrightarrow> F' ! unat x = F ! unat x"
  shows "chain F' b xs"
  using assms(1,3)
proof (induction xs arbitrary: b)
  case Nil
  then show ?case by simp
next
  case (Cons x xs)
  then show ?case using assms(2) by auto
qed

lemma chain_update_other:
  assumes "chain F b xs" and "\<And>x. x \<in> set xs \<Longrightarrow> unat x \<noteq> i"
  shows "chain (F[i := v]) b xs"
proof (rule chain_frame [OF assms(1)])
  fix x assume "x \<in> set xs"
  then have "i \<noteq> unat x" using assms(2) by blast
  then show "F[i := v] ! unat x = F ! unat x" by simp
qed simp

text \<open>The last entry of a nonempty chain is the one that holds \<open>FAT_EOC\<close>.\<close>

lemma chain_last:
  assumes "chain F b xs" and "xs \<noteq> []"
  shows "F ! unat (last xs) = FAT_EOC" and "unat (last xs) < length F"
  using chain_next [OF assms(1), of "length xs - 1"] chain_members [OF assms(1), of "last xs"] assms(2)
  by (auto simp: last_conv_nth)

lemma chain_snocI:
  assumes "chain F b xs" and "xs \<noteq> []" and "y \<noteq> FAT_EOC" and "y \<noteq> 0" and "unat y < length F"
    and "y \<notin> set xs"
  shows "chain (F[unat (last xs) := y, unat y := FAT_EOC]) b (xs @ [y])"
  using assms
proof (induction xs arbitrary: b)
  case Nil
  then show ?case by simp
next
  case (Cons x xs)
  let ?F = "F[unat (last (x # xs)) := y, unat y := FAT_EOC]"
  from Cons.prems have x: "b = x" "x \<noteq> FAT_EOC" "x \<noteq> 0" "unat x < length F" "unat x \<noteq> unat y"
    by (auto dest: unsigned_word_eqI)
  show ?case
  proof (cases "xs = []")
    case True
    with Cons.prems x show ?thesis by (simp add: nth_list_update)
  next
    case False
    from Cons.prems have c: "chain F (F ! unat x) xs" by auto
    with False Cons.prems have "chain ?F (F ! unat x) (xs @ [y])" by (simp add: Cons.IH)
    moreover have "last xs \<noteq> x"
      using chain_distinct [OF Cons.prems(1)] last_in_set [OF False] by auto
    then have "unat x \<noteq> unat (last xs)" by (auto dest: unsigned_word_eqI)
    then have "?F ! unat x = F ! unat x" using False x by simp
    ultimately show ?thesis using x by simp
  qed
qed

lemma free_entriesD:
  "i \<in> set (free_entries F) \<Longrightarrow> 0 < i \<and> i < length F \<and> F ! i = 0"
  by (auto simp: free_entries_def)

lemma distinct_free_entries [simp]: "distinct (free_entries F)"
  by (simp add: free_entries_def)

lemma free_not_in_chain:
  assumes "chain F b xs" and "i \<in> set (free_entries F)" and "x \<in> set xs"
  shows "unat x \<noteq> i"
  using chain_entry_nonzero [OF assms(1,3)] free_entriesD [OF assms(2)] by auto

lemma find_free_entries:
  "List.find (\<lambda>i. F ! i = 0) [1..<length F] =
    (case free_entries F of [] \<Rightarrow> None | i # _ \<Rightarrow> Some i)"
proof -
  have "List.find P xs = (case filter P xs of [] \<Rightarrow> None | x # _ \<Rightarrow> Some x)" for P :: "nat \<Rightarrow> bool" and xs
    by (induction xs) auto
  then show ?thesis by (simp add: free_entries_def)
qed

text \<open>Using up the first free entry removes it from the list of free entries and no other.\<close>

lemma free_entries_use:
  assumes "free_entries F = i # is" and "length F' = length F" and "F' ! i \<noteq> 0"
    and "\<And>k. k < length F \<Longrightarrow> k \<noteq> i \<Longrightarrow> F' ! k = 0 \<longleftrightarrow> F ! k = 0"
  shows "free_entries F' = is"
proof -
  have "free_entries F' = filter (\<lambda>k. k \<noteq> i) (free_entries F)"
    unfolding free_entries_def filter_filter assms(2)
    by (rule filter_cong) (use assms(3,4) in auto)
  also have "\<dots> = is"
    using assms(1) distinct_free_entries [of F] by (auto intro: filter_True)
  finally show ?thesis .
qed

lemma length_free_entries_card: "length (free_entries F) = card {k. 0 < k \<and> k < length F \<and> F ! k = 0}"
proof -
  have "card (set (free_entries F)) = length (free_entries F)" by (rule distinct_card) simp
  moreover have "set (free_entries F) = {k. 0 < k \<and> k < length F \<and> F ! k = 0}"
    by (auto simp: free_entries_def)
  ultimately show ?thesis by simp
qed

lemma length_free_entries_release:
  assumes "0 < k" and "k < length F" and "F ! k \<noteq> 0"
  shows "length (free_entries (F[k := 0])) = Suc (length (free_entries F))"
proof -
  define A where "A = {j. 0 < j \<and> j < length F \<and> F[k := 0] ! j = 0}"
  define B where "B = {j. 0 < j \<and> j < length F \<and> F ! j = 0}"
  have "A = insert k B" using assms(1,2) by (auto simp: A_def B_def nth_list_update)
  moreover have "k \<notin> B" "finite B" using assms(3) by (simp_all add: B_def)
  ultimately have "card A = Suc (card B)" by simp
  then show ?thesis by (simp add: length_free_entries_card A_def B_def)
qed

end
