(* ===== verification/Fat.thy ===== *)
theory Fat
  imports Names Chains
begin

text \<open>
  The file allocation table: the three routines of \<open>fs.c\<close> that follow, extend and release the chain of
  a file (\<open>find_data_block\<close>, \<open>allocate_blocks_in_fat\<close> and the release loop of \<open>fs_delete\<close>), and their
  abstract reading: a chain is a list of distinct block numbers linked through the table and ended by
  \<open>FAT_EOC\<close>; an entry 0 is a free block.
\<close>

section \<open>The functions of fs.c\<close>

definition fat_get :: "nat \<Rightarrow> fs \<Rightarrow> u16 res" where
  "fat_get i s = bnd (deref (fat s)) (\<lambda>F. fetch F i)"

definition fat_set :: "nat \<Rightarrow> u16 \<Rightarrow> fs \<Rightarrow> fs res" where
  "fat_set i v s =
     bnd (deref (fat s)) (\<lambda>F. bnd (store F i v) (\<lambda>F'. Inr (s\<lparr>fat := Ptr F'\<rparr>)))"

text \<open>The search for an empty entry, from index 1 on.\<close>

definition find_free_entry :: "fs \<Rightarrow> nat option res" where
  "find_free_entry s =
     bnd (deref (sb s)) (\<lambda>b.
       find_first 1 (unat (num_data_blocks b)) (\<lambda>i. bnd (fat_get i s) (\<lambda>e. Inr (e = 0))))"

text \<open>
  The loop that follows the chain to its last block, counting blocks in the \<open>int\<close> variable
  \<open>num_data_blocks\<close> (\<open>n_blocks\<close> here); on a chain without
  end the counter overflows.
\<close>

function chain_end :: "fs \<Rightarrow> u16 \<Rightarrow> int \<Rightarrow> (u16 \<times> int) res" where
  "chain_end s block_index n_blocks =
     bnd (fat_get (unat block_index) s) (\<lambda>e.
       if e \<noteq> FAT_EOC
       then bnd (c_int (n_blocks + 1)) (\<lambda>n. chain_end s e n)
       else Inr (block_index, n_blocks))"
  by pat_completeness auto
termination
  by (relation "measure (\<lambda>(s, b, n). nat (INT_MAX + 1 - n))")
    (auto simp: c_int_def split: if_splits)

declare chain_end.simps [simp del]

text \<open>The loop that extends the chain from its last block \<open>block_index\<close> to the wanted length.\<close>

function extend_chain :: "u16 \<Rightarrow> int \<Rightarrow> int \<Rightarrow> fs \<Rightarrow> (int \<times> fs) res" where
  "extend_chain block_index n_blocks num_target_blocks s =
     (if n_blocks < num_target_blocks
      then bnd (find_free_entry s) (\<lambda>r.
             case r of
               None \<Rightarrow> Inr (-1, s)
             | Some i \<Rightarrow>
                 bnd (fat_set (unat block_index) (of_nat i) s) (\<lambda>s.
                 bnd (fat_set i FAT_EOC s) (\<lambda>s.
                   extend_chain (of_nat i) (n_blocks + 1) num_target_blocks s)))
      else Inr (0, s))"
  by pat_completeness auto
termination
  by (relation "measure (\<lambda>(b, n, target, s). nat (target - n))") auto

declare extend_chain.simps [simp del]

text \<open>The first block of a file that has none.\<close>

definition allocate_first_block :: "addr \<Rightarrow> File \<Rightarrow> fs \<Rightarrow> (bool \<times> fs) res" where
  "allocate_first_block a f s =
     bnd (find_free_entry s) (\<lambda>r.
       case r of
         None \<Rightarrow> Inr (False, s)
       | Some i \<Rightarrow>
           bnd (fat_set i FAT_EOC s) (\<lambda>s.
             Inr (True, set_file a (f\<lparr>first_index := of_nat i\<rparr>) s)))"

definition allocate_blocks_in_fat :: "nat \<Rightarrow> int \<Rightarrow> fs \<Rightarrow> (int \<times> fs) res" where
  "allocate_blocks_in_fat fd num_target_blocks s =
     (if num_target_blocks \<le> 0 then Inr (0, s)
      else bnd (opened_file fd s) (\<lambda>(a, f).
           bnd (if first_index f = FAT_EOC then allocate_first_block a f s else Inr (True, s))
             (\<lambda>(found, s).
                if \<not> found then Inr (-1, s)
                else bnd (opened_file fd s) (\<lambda>(a, f).
                     bnd (chain_end s (first_index f) 1) (\<lambda>(block_index, n_blocks).
                       extend_chain block_index n_blocks num_target_blocks s)))))"

fun walk_chain :: "nat \<Rightarrow> u16 \<Rightarrow> fs \<Rightarrow> u16 res" where
  "walk_chain 0 block_index s = Inr block_index"
| "walk_chain (Suc n) block_index s =
     (if block_index = FAT_EOC then Inr FAT_EOC
      else bnd (fat_get (unat block_index) s) (\<lambda>e. walk_chain n e s))"

definition find_data_block :: "nat \<Rightarrow> int \<Rightarrow> fs \<Rightarrow> u16 res" where
  "find_data_block fd block_num s =
     bnd (opened_file fd s) (\<lambda>(a, f).
       if block_num = 0 then Inr (first_index f)
       else walk_chain (nat block_num) (first_index f) s)"

text \<open>
  The release loop of \<open>fs_delete\<close>: it clears the entry it stands on and then reads its successor from
  the entry it has just cleared.
\<close>

partial_function (option) free_chain_loop :: "u16 \<Rightarrow> fs \<Rightarrow> (u16 \<times> fs) res option" where
  "free_chain_loop block_index s =
     (case fat_get (unat block_index) s of
        Inl x \<Rightarrow> Some (Inl x)
      | Inr e \<Rightarrow>
          if e \<noteq> FAT_EOC
          then (case fat_set (unat block_index) 0 s of
                  Inl x \<Rightarrow> Some (Inl x)
                | Inr s' \<Rightarrow>
                    (case fat_get (unat block_index) s' of
                       Inl x \<Rightarrow> Some (Inl x)
                     | Inr next_index \<Rightarrow> free_chain_loop next_index s'))
          else Some (Inr (block_index, s)))"

definition free_file_blocks :: "u16 \<Rightarrow> fs \<Rightarrow> fs res" where
  "free_file_blocks block_index s =
     (if block_index \<noteq> FAT_EOC
      then bnd (returns (free_chain_loop block_index s)) (\<lambda>(b, s). fat_set (unat b) 0 s)
      else Inr s)"

section \<open>A loaded table\<close>

definition the_sb :: "fs \<Rightarrow> SuperBlock" where
  "the_sb s = (case sb s of Ptr b \<Rightarrow> b | _ \<Rightarrow> undefined)"

definition the_fat :: "fs \<Rightarrow> u16 list" where
  "the_fat s = (case fat s of Ptr F \<Rightarrow> F | _ \<Rightarrow> [])"

definition fat_ok :: "fs \<Rightarrow> bool" where
  "fat_ok s \<longleftrightarrow>
     (case (sb s, fat s) of
       (Ptr b, Ptr F) \<Rightarrow> length F = unat (num_data_blocks b)
     | _ \<Rightarrow> False)"

abbreviation with_fat :: "u16 list \<Rightarrow> fs \<Rightarrow> fs" where
  "with_fat F s \<equiv> s\<lparr>fat := Ptr F\<rparr>"

lemma fat_okD:
  assumes "fat_ok s"
  shows "sb s = Ptr (the_sb s)" and "fat s = Ptr (the_fat s)"
    and "length (the_fat s) = unat (num_data_blocks (the_sb s))"
  using assms by (auto simp: fat_ok_def the_sb_def the_fat_def split: ptr.splits)

lemma the_fat_with_fat [simp]: "the_fat (with_fat F s) = F"
  by (simp add: the_fat_def)

lemma the_sb_with_fat [simp]: "the_sb (with_fat F s) = the_sb s"
  by (simp add: the_sb_def)

lemma the_set_file [simp]:
  "the_fat (set_file a f s) = the_fat s"
  "the_sb (set_file a f s) = the_sb s"
  "fat_ok (set_file a f s) \<longleftrightarrow> fat_ok s"
  by (simp_all add: the_fat_def the_sb_def fat_ok_def)

lemma the_set_fd_entry [simp]:
  "the_fat (set_fd_entry fd e s) = the_fat s"
  "the_sb (set_fd_entry fd e s) = the_sb s"
  "fat_ok (set_fd_entry fd e s) \<longleftrightarrow> fat_ok s"
  by (simp_all add: the_fat_def the_sb_def fat_ok_def)

lemma fat_ok_with_fat: "fat_ok s \<Longrightarrow> length F = length (the_fat s) \<Longrightarrow> fat_ok (with_fat F s)"
  by (auto simp: fat_ok_def the_fat_def split: ptr.splits)

lemma with_fat_same: "fat_ok s \<Longrightarrow> with_fat (the_fat s) s = s"
  by (simp add: fat_okD(2) [symmetric])

lemma fat_length_bound: "fat_ok s \<Longrightarrow> length (the_fat s) < 65536"
  by (simp add: fat_okD(3) unat_u16_bound)

lemma fat_get_ok: "fat_ok s \<Longrightarrow> i < length (the_fat s) \<Longrightarrow> fat_get i s = Inr (the_fat s ! i)"
  by (simp add: fat_get_def fat_okD(2) fetch_def)

lemma fat_set_ok:
  "fat_ok s \<Longrightarrow> i < length (the_fat s) \<Longrightarrow> fat_set i v s = Inr (with_fat ((the_fat s)[i := v]) s)"
  by (simp add: fat_set_def fat_okD(2) store_def)

lemma find_free_entry_ok:
  assumes "fat_ok s"
  shows "find_free_entry s =
    Inr (case free_entries (the_fat s) of [] \<Rightarrow> None | i # _ \<Rightarrow> Some i)"
proof -
  have "find_first 1 (length (the_fat s)) (\<lambda>i. bnd (fat_get i s) (\<lambda>e. Inr (e = 0))) =
      Inr (List.find (\<lambda>i. the_fat s ! i = 0) [1..<length (the_fat s)])"
    by (rule find_first_pure) (simp add: fat_get_ok assms)
  then show ?thesis
    using find_free_entries [of "the_fat s"]
    by (simp add: find_free_entry_def fat_okD(1,3) [OF assms])
qed

text \<open>A free entry, as a block number.\<close>

lemma free_block:
  assumes "fat_ok s" and "i \<in> set (free_entries (the_fat s))"
  shows "unat (of_nat i :: u16) = i" and "(of_nat i :: u16) \<noteq> 0" and "(of_nat i :: u16) \<noteq> FAT_EOC"
    and "i < length (the_fat s)"
proof -
  from free_entriesD [OF assms(2)] have i: "0 < i" "i < length (the_fat s)" by auto
  then show "i < length (the_fat s)" by simp
  from i fat_length_bound [OF assms(1)] show u: "unat (of_nat i :: u16) = i"
    by (simp add: unat_of_nat)
  with i show "(of_nat i :: u16) \<noteq> 0" by auto
  have "unat FAT_EOC = 65535" by (simp add: FAT_EOC_def)
  with u i fat_length_bound [OF assms(1)] show "(of_nat i :: u16) \<noteq> FAT_EOC" by auto
qed

section \<open>Following a chain\<close>

lemma walk_chain_EOC [simp]: "walk_chain n FAT_EOC s = Inr FAT_EOC"
  by (cases n) auto

lemma walk_chain_ok:
  assumes "fat_ok s" and "chain (the_fat s) b xs"
  shows "walk_chain n b s = Inr (if n < length xs then xs ! n else FAT_EOC)"
  using assms(2)
proof (induction n arbitrary: b xs)
  case 0
  then show ?case by (cases xs) auto
next
  case (Suc n)
  show ?case
  proof (cases xs)
    case Nil
    with Suc.prems show ?thesis by simp
  next
    case (Cons x ys)
    with Suc.prems have "chain (the_fat s) (the_fat s ! unat x) ys" by auto
    from Suc.IH [OF this] Cons Suc.prems assms(1) show ?thesis
      by (auto simp: fat_get_ok)
  qed
qed

lemma find_data_block_ok:
  assumes "fat_ok s" and "opened_file fd s = Inr (a, f)" and "chain (the_fat s) (first_index f) xs"
  shows "find_data_block fd (int n) s = Inr (if n < length xs then xs ! n else FAT_EOC)"
proof (cases "n = 0")
  case True
  then show ?thesis using assms(2,3) chain_hd [OF assms(3)]
    by (cases xs) (auto simp: find_data_block_def)
next
  case False
  then show ?thesis using assms by (simp add: find_data_block_def walk_chain_ok)
qed

lemma chain_end_ok:
  assumes "fat_ok s" and "chain (the_fat s) b xs" and "xs \<noteq> []"
    and "0 \<le> n" and "n + int (length xs) - 1 \<le> INT_MAX"
  shows "chain_end s b n = Inr (last xs, n + int (length xs) - 1)"
  using assms(2-)
proof (induction xs arbitrary: b n)
  case Nil
  then show ?case by simp
next
  case (Cons x xs)
  from Cons.prems have b: "b = x" "unat x < length (the_fat s)"
    and c: "chain (the_fat s) (the_fat s ! unat x) xs" by auto
  show ?case
  proof (cases "xs = []")
    case True
    with b c assms(1) show ?thesis by (simp add: chain_end.simps [of s x] fat_get_ok)
  next
    case False
    with Cons.IH [OF c, of "n + 1"] Cons.prems
    have "chain_end s (the_fat s ! unat x) (n + 1) = Inr (last xs, n + int (length xs))"
      by simp
    moreover have "the_fat s ! unat x \<noteq> FAT_EOC" using False c by (cases xs) auto
    moreover have "c_int (n + 1) = Inr (n + 1)"
      using False Cons.prems by (cases xs) (auto intro!: c_int_ok)
    ultimately show ?thesis
      using False b assms(1) by (simp add: chain_end.simps [of s x] fat_get_ok)
  qed
qed

section \<open>Extending a chain\<close>

text \<open>
  \<open>fresh_blocks F n\<close>: the blocks the first-fit search takes for \<open>n\<close> more blocks; fewer than \<open>n\<close> when
  the table is full. \<open>grown F F' b xs\<close>: \<open>F'\<close> links \<open>xs\<close> from \<open>b\<close> and agrees with \<open>F\<close> outside of \<open>xs\<close>.
\<close>

definition fresh_blocks :: "u16 list \<Rightarrow> nat \<Rightarrow> u16 list" where
  "fresh_blocks F n = map of_nat (take n (free_entries F))"

definition grown :: "u16 list \<Rightarrow> u16 list \<Rightarrow> u16 \<Rightarrow> u16 list \<Rightarrow> bool" where
  "grown F F' b xs \<longleftrightarrow>
     length F' = length F \<and> chain F' b xs \<and>
     (\<forall>k < length F. k \<notin> unat ` set xs \<longrightarrow> F' ! k = F ! k)"

lemma length_fresh_blocks: "length (fresh_blocks F n) = min n (length (free_entries F))"
  by (simp add: fresh_blocks_def min.commute)

lemma fresh_blocks_0 [simp]: "fresh_blocks F 0 = []"
  by (simp add: fresh_blocks_def)

lemma fresh_blocks_Suc:
  "free_entries F = i # is \<Longrightarrow> fresh_blocks F (Suc n) = of_nat i # map of_nat (take n is)"
  by (simp add: fresh_blocks_def)

text \<open>Linking in the first free block, after the last block of a nonempty chain.\<close>

lemma link_first_free:
  assumes "fat_ok s" and "chain (the_fat s) b xs" and "xs \<noteq> []"
    and "free_entries (the_fat s) = i # is"
  defines "F' \<equiv> (the_fat s)[unat (last xs) := of_nat i, i := FAT_EOC]"
  shows "chain F' b (xs @ [of_nat i])" and "free_entries F' = is"
    and "grown (the_fat s) F' b (xs @ [of_nat i])"
proof -
  have i: "i \<in> set (free_entries (the_fat s))" by (simp add: assms(4))
  note fb = free_block [OF assms(1) i]
  have last: "unat (last xs) \<noteq> i"
    using free_not_in_chain [OF assms(2) i, of "last xs"] assms(3) by simp
  have "of_nat i \<notin> set xs"
    using free_not_in_chain [OF assms(2) i] fb(1) by auto
  then show c: "chain F' b (xs @ [of_nat i])"
    using chain_snocI [OF assms(2,3), of "of_nat i"] fb by (simp add: F'_def)
  then show "grown (the_fat s) F' b (xs @ [of_nat i])"
    using assms(3) fb(1) by (auto simp: grown_def F'_def) (metis image_eqI last_in_set nth_list_update_neq)
  show "free_entries F' = is"
  proof (rule free_entries_use [OF assms(4)])
    show "F' ! i \<noteq> 0" using fb by (simp add: F'_def FAT_EOC_def)
    fix k assume "k < length (the_fat s)" and "k \<noteq> i"
    then show "F' ! k = 0 \<longleftrightarrow> the_fat s ! k = 0"
      using chain_last [OF assms(2,3)] fb(2) last
      by (cases "k = unat (last xs)") (auto simp: F'_def FAT_EOC_def)
  qed (simp add: F'_def)
qed

lemma grown_trans:
  assumes "grown F F' b xs" and "grown F' F'' b (xs @ ys)"
  shows "grown F F'' b (xs @ ys)"
  using assms by (auto simp: grown_def)

text \<open>One step: the first free entry becomes the last block of the chain.\<close>

lemma extend_chain_step:
  assumes "fat_ok s" and "chain (the_fat s) b xs" and "xs \<noteq> []" and "free_entries (the_fat s) = i # rest"
    and "length xs < target"
  defines "F1 \<equiv> (the_fat s)[unat (last xs) := of_nat i, i := FAT_EOC]"
  shows "extend_chain (last xs) (int (length xs)) (int target) s =
      extend_chain (last (xs @ [of_nat i])) (int (length (xs @ [of_nat i :: u16]))) (int target) (with_fat F1 s)"
    and "fat_ok (with_fat F1 s)" and "the_fat (with_fat F1 s) = F1"
proof -
  have i: "i \<in> set (free_entries (the_fat s))" by (simp add: assms(4))
  show "fat_ok (with_fat F1 s)" "the_fat (with_fat F1 s) = F1"
    using assms(1) by (auto simp: F1_def intro!: fat_ok_with_fat)
  show "extend_chain (last xs) (int (length xs)) (int target) s =
      extend_chain (last (xs @ [of_nat i])) (int (length (xs @ [of_nat i :: u16]))) (int target) (with_fat F1 s)"
    using assms(1,4,5) free_block(4) [OF assms(1) i] chain_last(2) [OF assms(2,3)] fat_ok_with_fat [OF assms(1)]
    by (subst extend_chain.simps) (simp add: find_free_entry_ok fat_set_ok F1_def add.commute)
qed

lemma extend_chain_ok:
  assumes "fat_ok s" and "chain (the_fat s) b xs" and "xs \<noteq> []"
  shows "\<exists>F'. extend_chain (last xs) (int (length xs)) (int target) s =
      Inr (if target \<le> length xs + length (free_entries (the_fat s)) then 0 else -1, with_fat F' s)
    \<and> grown (the_fat s) F' b (xs @ fresh_blocks (the_fat s) (target - length xs))"
  using assms
proof (induction "target - length xs" arbitrary: s xs)
  case 0
  then have "extend_chain (last xs) (int (length xs)) (int target) s = Inr (0, s)"
    by (simp add: extend_chain.simps)
  moreover have "grown (the_fat s) (the_fat s) b xs" using 0 by (simp add: grown_def)
  ultimately show ?case using 0 by (intro exI [of _ "the_fat s"]) (simp add: with_fat_same)
next
  case (Suc n)
  show ?case
  proof (cases "free_entries (the_fat s)")
    case Nil
    then have "extend_chain (last xs) (int (length xs)) (int target) s = Inr (-1, s)"
      using Suc by (simp add: extend_chain.simps find_free_entry_ok)
    moreover have "grown (the_fat s) (the_fat s) b xs" using Suc by (simp add: grown_def)
    ultimately show ?thesis using Suc Nil
      by (intro exI [of _ "the_fat s"]) (simp add: with_fat_same fresh_blocks_def)
  next
    case (Cons i rest)
    define F1 where "F1 = (the_fat s)[unat (last xs) := of_nat i, i := FAT_EOC]"
    note link = link_first_free [OF Suc.prems Cons, folded F1_def]
    have "length xs < target" and n: "n = target - length (xs @ [of_nat i :: u16])" using Suc.hyps(2) by simp_all
    from extend_chain_step [OF Suc.prems Cons this(1), folded F1_def] Suc.hyps(1) [OF n, of "with_fat F1 s"] link(1,2)
    obtain F' where F': "extend_chain (last xs) (int (length xs)) (int target) s =
        Inr (if target \<le> length (xs @ [of_nat i :: u16]) + length rest then 0 else -1, with_fat F' (with_fat F1 s))"
      "grown F1 F' b ((xs @ [of_nat i]) @ fresh_blocks F1 (target - length (xs @ [of_nat i :: u16])))"
      by fastforce
    have "xs @ fresh_blocks (the_fat s) (target - length xs) =
        (xs @ [of_nat i]) @ fresh_blocks F1 (target - length (xs @ [of_nat i :: u16]))"
      using Suc.hyps(2) [symmetric] Cons link(2) n
      by (simp add: fresh_blocks_Suc) (simp add: fresh_blocks_def)
    with F' Cons grown_trans [OF link(3) F'(2)] show ?thesis by (intro exI [of _ F']) simp
  qed
qed

text \<open>
  \<open>allocate_blocks_in_fat\<close>: the chain of the open file is extended by first-fit blocks to the wanted
  length, or as far as the table has room; the result tells which.
\<close>

definition first_of :: "u16 list \<Rightarrow> u16" where
  "first_of xs = (case xs of [] \<Rightarrow> FAT_EOC | x # _ \<Rightarrow> x)"

lemma chain_first_of: "chain F b xs \<Longrightarrow> b = first_of xs"
  by (cases xs) (auto simp: first_of_def)

lemma opened_file_set_file:
  "opened_file fd s = Inr (a, f) \<Longrightarrow> opened_file fd (set_file a f' s) = Inr (a, f')"
  by (auto simp: opened_file_def fd_entry_def file_at_def bnd_eq_Inr_iff
      split: option.splits)

lemma file_at_with_fat [simp]: "file_at p (with_fat F s) = file_at p s"
  by (simp add: file_at_def split: option.split)

lemma opened_file_with_fat [simp]: "opened_file fd (with_fat F s) = opened_file fd s"
  by (simp add: opened_file_def fd_entry_def)

lemma set_file_with_fat: "set_file a f (with_fat F s) = with_fat F (set_file a f s)"
  by (simp add: set_file_def)

lemma set_file_same: "opened_file fd s = Inr (a, f) \<Longrightarrow> set_file a f s = s"
  by (auto simp: opened_file_def file_at_def set_file_def bnd_eq_Inr_iff fun_upd_idem
      split: option.splits)

text \<open>A first block for an empty file.\<close>

lemma link_first_block:
  assumes "fat_ok s" and "free_entries (the_fat s) = i # rest"
  defines "F' \<equiv> (the_fat s)[i := FAT_EOC]"
  shows "grown (the_fat s) F' (of_nat i) [of_nat i]" and "free_entries F' = rest"
proof -
  have i: "i \<in> set (free_entries (the_fat s))" by (simp add: assms(2))
  note fb = free_block [OF assms(1) i]
  show "grown (the_fat s) F' (of_nat i) [of_nat i]"
    using fb by (auto simp: grown_def F'_def)
  show "free_entries F' = rest"
    by (rule free_entries_use [OF assms(2)]) (use fb in \<open>auto simp: F'_def FAT_EOC_def\<close>)
qed

lemma allocate_existing:
  assumes "fat_ok s" and "opened_file fd s = Inr (a, f)"
    and "chain (the_fat s) (first_index f) xs" and "xs \<noteq> []" and "0 < target"
  shows "\<exists>F'. allocate_blocks_in_fat fd (int target) s =
      Inr (if target \<le> length xs + length (free_entries (the_fat s)) then 0 else -1, with_fat F' s)
    \<and> grown (the_fat s) F' (first_index f) (xs @ fresh_blocks (the_fat s) (target - length xs))"
proof -
  have "first_index f \<noteq> FAT_EOC" using assms(3,4) by (cases xs) auto
  moreover have "length xs < 65536"
    using chain_length [OF assms(3)] fat_length_bound [OF assms(1)] by auto
  then have "chain_end s (first_index f) 1 = Inr (last xs, int (length xs))"
    using chain_end_ok [OF assms(1,3,4), of 1] by (simp add: INT_MAX_def)
  ultimately have "allocate_blocks_in_fat fd (int target) s =
      extend_chain (last xs) (int (length xs)) (int target) s"
    using assms by (simp add: allocate_blocks_in_fat_def)
  with extend_chain_ok [OF assms(1,3,4)] show ?thesis by metis
qed

lemma allocate_first_block_ok:
  assumes "fat_ok s" and "opened_file fd s = Inr (a, f)" and "first_index f = FAT_EOC" and "0 < target"
    and "free_entries (the_fat s) = i # rest"
  defines "f1 \<equiv> f\<lparr>first_index := of_nat i\<rparr>"
  defines "s1 \<equiv> with_fat ((the_fat s)[i := FAT_EOC]) (set_file a f1 s)"
  shows "allocate_blocks_in_fat fd (int target) s = allocate_blocks_in_fat fd (int target) s1"
    and "fat_ok s1" and "the_fat s1 = (the_fat s)[i := FAT_EOC]" and "opened_file fd s1 = Inr (a, f1)"
proof -
  have i: "i \<in> set (free_entries (the_fat s))" by (simp add: assms(5))
  show "fat_ok s1" "the_fat s1 = (the_fat s)[i := FAT_EOC]"
    using assms(1) by (auto simp: s1_def intro!: fat_ok_with_fat)
  show f1: "opened_file fd s1 = Inr (a, f1)" by (simp add: s1_def opened_file_set_file [OF assms(2)])
  have "allocate_first_block a f s = Inr (True, s1)"
    using assms(1,5) free_block(4) [OF assms(1) i]
    by (simp add: allocate_first_block_def find_free_entry_ok fat_set_ok s1_def f1_def set_file_with_fat)
  then show "allocate_blocks_in_fat fd (int target) s = allocate_blocks_in_fat fd (int target) s1"
    using assms(2-4) f1 free_block(3) [OF assms(1) i] by (simp add: allocate_blocks_in_fat_def f1_def)
qed

lemma allocate_blocks_in_fat_ok:
  assumes "fat_ok s" and "opened_file fd s = Inr (a, f)"
    and "chain (the_fat s) (first_index f) xs" and "0 < target"
  defines "xs' \<equiv> xs @ fresh_blocks (the_fat s) (target - length xs)"
  shows "\<exists>F'. allocate_blocks_in_fat fd (int target) s =
      Inr (if target \<le> length xs + length (free_entries (the_fat s)) then 0 else -1,
           with_fat F' (set_file a (f\<lparr>first_index := first_of xs'\<rparr>) s))
    \<and> grown (the_fat s) F' (first_of xs') xs'"
proof (cases "xs = []")
  case False
  then have "first_of xs' = first_index f"
    using chain_first_of [OF assms(3)] by (cases xs) (auto simp: xs'_def first_of_def)
  with allocate_existing [OF assms(1,2,3) False assms(4)] show ?thesis
    by (simp add: xs'_def set_file_same [OF assms(2)])
next
  case True
  then have EOC: "first_index f = FAT_EOC" using assms(3) by simp
  show ?thesis
  proof (cases "free_entries (the_fat s)")
    case Nil
    with EOC have "allocate_blocks_in_fat fd (int target) s = Inr (-1, s)"
      using assms by (simp add: allocate_blocks_in_fat_def allocate_first_block_def
          find_free_entry_ok)
    moreover have "xs' = []" using True Nil by (simp add: xs'_def fresh_blocks_def)
    moreover have "f\<lparr>first_index := FAT_EOC\<rparr> = f" using EOC by simp
    ultimately show ?thesis
      using assms(4) Nil True by (intro exI [of _ "the_fat s"])
        (simp add: first_of_def set_file_same [OF assms(2)] with_fat_same assms(1) grown_def)
  next
    case (Cons i rest)
    define f1 where "f1 = f\<lparr>first_index := of_nat i\<rparr>"
    define s1 where "s1 = with_fat ((the_fat s)[i := FAT_EOC]) (set_file a f1 s)"
    note link = link_first_block [OF assms(1) Cons]
    note al = allocate_first_block_ok [OF assms(1,2) EOC assms(4) Cons, folded f1_def, folded s1_def]
    have "chain (the_fat s1) (first_index f1) [of_nat i]"
      using link(1) al(3) by (simp add: grown_def f1_def)
    from allocate_existing [OF al(2,4) this _ assms(4)] al(1,3) link(2)
    obtain F' where F': "allocate_blocks_in_fat fd (int target) s =
        Inr (if target \<le> Suc (length rest) then 0 else -1, with_fat F' s1)"
      "grown (the_fat s1) F' (of_nat i) (of_nat i # fresh_blocks (the_fat s1) (target - 1))"
      by (auto simp: f1_def)
    have xs': "xs' = of_nat i # fresh_blocks (the_fat s1) (target - 1)"
      using True Cons assms(4) link(2) al(3)
      by (cases target) (auto simp: xs'_def fresh_blocks_Suc, simp add: fresh_blocks_def)
    have "grown (the_fat s) F' (of_nat i) xs'"
      using F'(2) link(1) al(3) xs'
      by (auto intro: grown_trans [of _ _ _ "[of_nat i]", simplified])
    with F' xs' Cons True show ?thesis
      by (intro exI [of _ F']) (simp add: first_of_def s1_def f1_def)
  qed
qed

section \<open>Releasing a chain\<close>

text \<open>
  The loop reads the successor of a block after clearing its entry, so it continues at block 0: a
  chain of one block is released, of a longer chain only the first block is, and entry 0 is cleared
  with it. When entry 0 is no longer \<open>FAT_EOC\<close> the loop never ends.
\<close>

lemma free_chain_loop_last:
  assumes "fat_ok s" and "unat b < length (the_fat s)" and "the_fat s ! unat b = FAT_EOC"
  shows "free_chain_loop b s = Some (Inr (b, s))"
  using assms by (simp add: free_chain_loop.simps fat_get_ok)

lemma free_chain_loop_step:
  assumes "fat_ok s" and "unat b < length (the_fat s)" and "the_fat s ! unat b \<noteq> FAT_EOC"
  shows "free_chain_loop b s = free_chain_loop 0 (with_fat ((the_fat s)[unat b := 0]) s)"
proof -
  have "fat_ok (with_fat ((the_fat s)[unat b := 0]) s)"
    using assms(1) by (simp add: fat_ok_with_fat)
  with assms show ?thesis
    by (simp add: free_chain_loop.simps [of b s] fat_get_ok fat_set_ok)
qed

lemma free_chain_loop_diverges:
  assumes "fat_ok s" and "0 < length (the_fat s)" and "the_fat s ! 0 \<noteq> FAT_EOC"
  shows "free_chain_loop 0 s = None"
proof (rule ccontr)
  assume "free_chain_loop 0 s \<noteq> None"
  then obtain r where r: "free_chain_loop 0 s = Some r" by auto
  have "0 = (0 :: u16) \<longrightarrow> fat_ok s \<longrightarrow> 0 < length (the_fat s) \<longrightarrow> the_fat s ! 0 \<noteq> FAT_EOC \<longrightarrow> False"
  proof (rule free_chain_loop.raw_induct [where P = "\<lambda>b s r. b = 0 \<longrightarrow> fat_ok s \<longrightarrow>
      0 < length (the_fat s) \<longrightarrow> the_fat s ! 0 \<noteq> FAT_EOC \<longrightarrow> False", OF _ r], intro impI)
    fix loop :: "u16 \<Rightarrow> fs \<Rightarrow> (u16 \<times> fs) res option" and b s r
    assume IH: "\<And>b s r. loop b s = Some r \<Longrightarrow> b = 0 \<longrightarrow> fat_ok s \<longrightarrow>
        0 < length (the_fat s) \<longrightarrow> the_fat s ! 0 \<noteq> FAT_EOC \<longrightarrow> False"
      and eq: "(case fat_get (unat b) s of
          Inl x \<Rightarrow> Some (Inl x)
        | Inr e \<Rightarrow>
            if e \<noteq> FAT_EOC
            then (case fat_set (unat b) 0 s of
                    Inl x \<Rightarrow> Some (Inl x)
                  | Inr s' \<Rightarrow>
                      (case fat_get (unat b) s' of
                         Inl x \<Rightarrow> Some (Inl x)
                       | Inr next_index \<Rightarrow> loop next_index s'))
            else Some (Inr (b, s))) = Some r"
      and s: "b = 0" "fat_ok s" "0 < length (the_fat s)" "the_fat s ! 0 \<noteq> FAT_EOC"
    have s': "fat_ok (with_fat ((the_fat s)[0 := 0]) s)"
      using s(2) by (simp add: fat_ok_with_fat)
    with eq s have "loop 0 (with_fat ((the_fat s)[0 := 0]) s) = Some r"
      by (simp add: fat_get_ok fat_set_ok)
    from IH [OF this] s' s(3) show False by (simp add: FAT_EOC_def)
  qed
  with assms show False by simp
qed

lemma free_file_blocks_none [simp]: "free_file_blocks FAT_EOC s = Inr s"
  by (simp add: free_file_blocks_def)

lemma free_file_blocks_single:
  assumes "fat_ok s" and "chain (the_fat s) b [x]"
  shows "free_file_blocks b s = Inr (with_fat ((the_fat s)[unat b := 0]) s)"
  using assms by (auto simp: free_file_blocks_def free_chain_loop_last fat_set_ok)

lemma free_file_blocks_longer:
  assumes "fat_ok s" and "chain (the_fat s) b (x # y # ys)" and "the_fat s ! 0 = FAT_EOC"
  shows "free_file_blocks b s = Inr (with_fat ((the_fat s)[unat b := 0, 0 := 0]) s)"
proof -
  define s1 where "s1 = with_fat ((the_fat s)[unat b := 0]) s"
  from assms(2) have b: "b \<noteq> FAT_EOC" "b \<noteq> 0" "unat b < length (the_fat s)"
    "the_fat s ! unat b \<noteq> FAT_EOC" by auto
  have s1: "fat_ok s1" "the_fat s1 = (the_fat s)[unat b := 0]"
    using assms(1) by (auto simp: s1_def intro!: fat_ok_with_fat)
  have "0 < unat b" using b(2) by (simp add: unat_gt_0)
  with s1 b assms(3) have "free_chain_loop 0 s1 = Some (Inr (0, s1))"
    by (intro free_chain_loop_last) auto
  moreover have "free_chain_loop b s = free_chain_loop 0 s1"
    using b assms(1) by (simp add: s1_def free_chain_loop_step)
  ultimately have "free_chain_loop b s = Some (Inr (0, s1))" by simp
  moreover have "0 < length (the_fat s1)" using b(3) s1(2) by auto
  then have "fat_set 0 0 s1 = Inr (with_fat ((the_fat s)[unat b := 0, 0 := 0]) s)"
    using fat_set_ok [OF s1(1), of 0 0] s1(2) by (simp add: s1_def)
  ultimately show ?thesis using b(1) by (simp add: free_file_blocks_def)
qed

lemma free_file_blocks_diverges:
  assumes "fat_ok s" and "chain (the_fat s) b (x # y # ys)" and "the_fat s ! 0 \<noteq> FAT_EOC"
  shows "free_file_blocks b s = Inl Diverges"
proof -
  from assms(2) have b: "b \<noteq> FAT_EOC" "b \<noteq> 0" "unat b < length (the_fat s)"
    "the_fat s ! unat b \<noteq> FAT_EOC" by auto
  have "0 < unat b" using b(2) by (simp add: unat_gt_0)
  with b assms have "free_chain_loop b s = None"
    by (auto simp: free_chain_loop_step fat_ok_with_fat intro!: free_chain_loop_diverges)
  with b show ?thesis by (simp add: free_file_blocks_def)
qed

text \<open>Growing a chain uses up the entries it takes.\<close>

lemma length_free_entries_grown:
  assumes "fat_ok s" and "chain (the_fat s) b xs"
    and "grown (the_fat s) F c (xs @ fresh_blocks (the_fat s) m)"
  shows "length (free_entries F) = length (free_entries (the_fat s)) - length (fresh_blocks (the_fat s) m)"
proof -
  let ?T = "take m (free_entries (the_fat s))" and ?ys = "xs @ fresh_blocks (the_fat s) m"
  define A where "A = {j. 0 < j \<and> j < length F \<and> F ! j = 0}"
  define B where "B = {j. 0 < j \<and> j < length (the_fat s) \<and> the_fat s ! j = 0}"
  from assms(3) have g: "length F = length (the_fat s)" "chain F c ?ys"
    "\<And>k. k < length (the_fat s) \<Longrightarrow> k \<notin> unat ` set ?ys \<Longrightarrow> F ! k = the_fat s ! k"
    by (auto simp: grown_def)
  have B: "set (free_entries (the_fat s)) = B" by (auto simp: free_entries_def B_def)
  have T: "unat ` set (fresh_blocks (the_fat s) m) = set ?T"
  proof -
    have "(\<lambda>k. unat (of_nat k :: u16)) ` set ?T = (\<lambda>k. k) ` set ?T"
      by (rule image_cong) (use free_block(1) [OF assms(1)] in \<open>auto dest: in_set_takeD\<close>)
    then show ?thesis by (simp add: fresh_blocks_def image_image)
  qed
  have "k \<notin> unat ` set ?ys" if "k \<in> A" for k
    using that chain_entry_nonzero [OF g(2)] by (fastforce simp only: A_def mem_Collect_eq)
  moreover have nx: "k \<notin> unat ` set xs" if "k \<in> B" for k
    using that chain_entry_nonzero [OF assms(2)] by (fastforce simp only: B_def mem_Collect_eq)
  moreover have "unat ` set ?ys = unat ` set xs \<union> set ?T" by (simp add: image_Un T)
  ultimately have nys: "k \<in> A \<Longrightarrow> k \<notin> set ?T \<and> k \<notin> unat ` set xs"
    "k \<in> B \<Longrightarrow> k \<notin> set ?T \<Longrightarrow> k \<notin> unat ` set ?ys" for k by blast+
  have "A = B - set ?T"
  proof (intro set_eqI iffI)
    fix k assume k: "k \<in> A"
    then have "F ! k = the_fat s ! k"
      using nys(1) [OF k] by (intro g(3)) (simp_all add: A_def g(1) image_Un T)
    with k nys(1) [OF k] show "k \<in> B - set ?T" by (simp add: A_def B_def g(1))
  next
    fix k assume "k \<in> B - set ?T"
    with nys(2) [of k] g(1,3) show "k \<in> A" by (simp add: A_def B_def)
  qed
  moreover have "set ?T \<subseteq> B" using set_take_subset [of m "free_entries (the_fat s)"] B by simp
  ultimately have "card A = card B - card (set ?T)" by (simp add: card_Diff_subset)
  then show ?thesis
    by (simp add: length_free_entries_card A_def [symmetric] B_def [symmetric] length_fresh_blocks distinct_card min.commute)
qed

end
