(* ===== verification/Mount.thy ===== *)
theory Mount
  imports Fat
begin

text \<open>
  Loading and saving the file system: \<open>load_disk\<close>, \<open>load_superblock\<close>, \<open>load_fat\<close>,
  \<open>load_root_directory\<close>, \<open>fs_mount\<close> and \<open>fs_umount\<close>.
\<close>

section \<open>load\_disk and load\_superblock\<close>

definition load_disk :: "string option \<Rightarrow> fs \<Rightarrow> int \<times> fs" where
  "load_disk diskname s =
     (if is_disk_mounted s then (-1, s)
      else case block_disk_open diskname (dev s) of (open_disk_success, d) \<Rightarrow>
        if open_disk_success \<noteq> 0 then (-1, s\<lparr>dev := d\<rparr>)
        else (0, s\<lparr>dev := d, is_disk_mounted := True\<rparr>))"

text \<open>A \<open>struct SuperBlock\<close> fresh from \<open>malloc\<close>.\<close>

definition raw_super_block :: "(nat \<Rightarrow> byte) \<Rightarrow> SuperBlock" where
  "raw_super_block j =
     \<lparr>signature = map j [0..<SUPERBLOCK_SIG_LEN],
      num_blocks = concatenate_two_bytes (j 8) (j 9),
      root_index = concatenate_two_bytes (j 10) (j 11),
      data_start_index = concatenate_two_bytes (j 12) (j 13),
      num_data_blocks = concatenate_two_bytes (j 14) (j 15),
      num_fat_blocks = j 16,
      sb_padding = map j [17..<17 + SUPERBLOCK_PAD_LEN]\<rparr>"

text \<open>The loop over the padding, which stops at the first byte that is not zero.\<close>

function load_sb_padding :: "nat \<Rightarrow> byte list \<Rightarrow> SuperBlock \<Rightarrow> int \<times> SuperBlock" where
  "load_sb_padding i ptr b =
     (if i < SUPERBLOCK_PAD_LEN
      then (let b = b\<lparr>sb_padding := (sb_padding b)[i := ptr ! i]\<rparr>
            in if ptr ! i \<noteq> 0 then (-1, b) else load_sb_padding (Suc i) ptr b)
      else (0, b))"
  by pat_completeness auto
termination
  by (relation "measure (\<lambda>(i, ptr, b). SUPERBLOCK_PAD_LEN - i)") auto

declare load_sb_padding.simps [simp del]

text \<open>
  The fields are read from the block at increasing offsets; each check that fails returns with the
  fields loaded so far.
\<close>

definition load_superblock :: "byte list option \<Rightarrow> fs \<Rightarrow> int \<times> fs" where
  "load_superblock superblock_ptr s =
     (case superblock_ptr of
       None \<Rightarrow> (-1, s)
     | Some ptr \<Rightarrow>
     case malloc s of (allocated, s) \<Rightarrow>
     if \<not> allocated then (-1, s\<lparr>sb := Null\<rparr>)
     else
     let b = (raw_super_block (junk s))\<lparr>signature := take SUPERBLOCK_SIG_LEN ptr\<rparr>;
         ptr = drop SUPERBLOCK_SIG_LEN ptr;
         b = b\<lparr>num_blocks := concatenate_two_bytes (ptr ! 0) (ptr ! 1)\<rparr>;
         ptr = drop 2 ptr
     in if uint (num_blocks b) \<noteq> block_disk_count (dev s) then (-1, s\<lparr>sb := Ptr b\<rparr>)
     else
     let b = b\<lparr>root_index := concatenate_two_bytes (ptr ! 0) (ptr ! 1)\<rparr>;
         ptr = drop 2 ptr
     in if root_index b \<le> 0 then (-1, s\<lparr>sb := Ptr b\<rparr>)
     else
     let b = b\<lparr>data_start_index := concatenate_two_bytes (ptr ! 0) (ptr ! 1)\<rparr>;
         ptr = drop 2 ptr
     in if data_start_index b = 0 then (-1, s\<lparr>sb := Ptr b\<rparr>)
     else if data_start_index b = root_index b then (-1, s\<lparr>sb := Ptr b\<rparr>)
     else
     let b = b\<lparr>num_data_blocks := concatenate_two_bytes (ptr ! 0) (ptr ! 1)\<rparr>;
         ptr = drop 2 ptr
     in if num_data_blocks b \<ge> num_blocks b then (-1, s\<lparr>sb := Ptr b\<rparr>)
     else
     let b = b\<lparr>num_fat_blocks := ptr ! 0\<rparr>;
         ptr = drop 1 ptr
     in if ucast (num_fat_blocks b) \<ge> num_blocks b then (-1, s\<lparr>sb := Ptr b\<rparr>)
     else
     case load_sb_padding 0 ptr b of (r, b) \<Rightarrow> (r, s\<lparr>sb := Ptr b\<rparr>))"

section \<open>load\_fat\<close>

text \<open>
  The blocks are read into an array of \<open>buf_size\<close> 16-bit entries; block \<open>i\<close> goes to entry
  \<open>BLOCK_SIZE * i\<close>, that is, to byte \<open>2 * BLOCK_SIZE * i\<close> of the array.
\<close>

function read_fat_blocks :: "nat \<Rightarrow> nat \<Rightarrow> byte list \<Rightarrow> fs \<Rightarrow> (int \<times> byte list \<times> fs) res" where
  "read_fat_blocks i n buffer s =
     (if i < n
      then (case block_read (of_nat (i + 1)) (dev s) of (read_success, data, d) \<Rightarrow>
             bnd (store_bytes buffer (2 * (BLOCK_SIZE * i)) data) (\<lambda>buffer.
               if read_success = -1 then Inr (-1, buffer, s\<lparr>dev := d\<rparr>)
               else read_fat_blocks (Suc i) n buffer (s\<lparr>dev := d\<rparr>)))
      else Inr (0, buffer, s))"
  by pat_completeness auto
termination
  by (relation "measure (\<lambda>(i, n, buffer, s). n - i)") auto

declare read_fat_blocks.simps [simp del]

definition fat_buf_size :: "u16 \<Rightarrow> u16" where
  "fat_buf_size ndb =
     (if unat ndb * 2 > BLOCK_SIZE then of_nat (unat ndb * 2) else of_nat BLOCK_SIZE)"

definition load_fat :: "fs \<Rightarrow> (int \<times> fs) res" where
  "load_fat s =
     bnd (deref (sb s)) (\<lambda>b.
     case malloc s of (allocated, s) \<Rightarrow>
     if \<not> allocated then Inr (-1, s\<lparr>fat := Null\<rparr>)
     else
     let ndb = unat (num_data_blocks b);
         s = s\<lparr>fat := Ptr (u16s_of_mem (stack_buffer (2 * ndb) s))\<rparr>;
         buffer = stack_buffer (2 * unat (fat_buf_size (num_data_blocks b))) s
     in bnd (read_fat_blocks 0 (unat (num_fat_blocks b)) buffer s) (\<lambda>(r, buffer, s).
        if r = -1 then Inr (-1, s)
        else
        bnd (load_bytes (u16s_of_mem buffer) 0 ndb) (\<lambda>F.
        let s = s\<lparr>fat := Ptr F\<rparr>
        in bnd (fetch F 0) (\<lambda>e. if e \<noteq> FAT_EOC then Inr (-1, s) else Inr (0, s)))))"

section \<open>load\_root\_directory\<close>

text \<open>One entry of 32 bytes, as it is read and as \<open>fs_umount\<close> writes it.\<close>

definition decode_file :: "byte list \<Rightarrow> File" where
  "decode_file ptr =
     \<lparr>filename = take FS_FILENAME_LEN ptr,
      file_size = u32_of_bytes (drop FS_FILENAME_LEN ptr),
      first_index = u16_of_bytes (drop (FS_FILENAME_LEN + 4) ptr),
      file_padding = take ROOT_PAD_LEN (drop (FS_FILENAME_LEN + 6) ptr)\<rparr>"

definition encode_file :: "File \<Rightarrow> byte list" where
  "encode_file f =
     filename f @ u32_bytes (file_size f) @ u16_bytes (first_index f) @ file_padding f"

function load_root_from :: "nat \<Rightarrow> byte list \<Rightarrow> fs \<Rightarrow> int \<times> fs" where
  "load_root_from f root_ptr s =
     (if f < FS_FILE_MAX_COUNT
      then (case malloc s of (allocated, s) \<Rightarrow>
             if \<not> allocated then (-1, s)
             else
             let file = decode_file root_ptr
             in if \<exists>b \<in> set (file_padding file). b \<noteq> 0 then (-1, s)
                else load_root_from (Suc f) (drop ROOT_ENTRY_LEN root_ptr)
                       (s\<lparr>heap := (heap s)(next_addr s \<mapsto> file),
                          root := (root s)[f := Some (next_addr s)],
                          next_addr := Suc (next_addr s)\<rparr>))
      else (0, s))"
  by pat_completeness auto
termination
  by (relation "measure (\<lambda>(f, root_ptr, s). FS_FILE_MAX_COUNT - f)") auto

declare load_root_from.simps [simp del]

definition load_root_directory :: "byte list \<Rightarrow> fs \<Rightarrow> int \<times> fs" where
  "load_root_directory root_ptr s = load_root_from 0 root_ptr s"

section \<open>fs\_mount\<close>

definition fs_mount :: "string option \<Rightarrow> fs \<Rightarrow> (int \<times> fs) res" where
  "fs_mount diskname s =
     (case load_disk diskname s of (r, s) \<Rightarrow>
      if r \<noteq> 0 then Inr (-1, s)
      else
      case block_read 0 (dev s) of (read_success, data, d) \<Rightarrow>
      bnd (store_bytes (stack_buffer BLOCK_SIZE s) 0 data) (\<lambda>buffer.
      let s = s\<lparr>dev := d\<rparr>
      in if read_success \<noteq> 0 then Inr (-1, s)
      else
      case load_superblock (Some buffer) s of (r, s) \<Rightarrow>
      if r \<noteq> 0 then Inr (-1, s)
      else
      bnd (load_fat s) (\<lambda>(r, s).
      if r \<noteq> 0 then Inr (-1, s)
      else
      bnd (deref (sb s)) (\<lambda>b.
      case block_read (ucast (num_fat_blocks b) + 1) (dev s) of (read_success, data, d) \<Rightarrow>
      bnd (store_bytes buffer 0 data) (\<lambda>buffer.
      case load_root_directory buffer (s\<lparr>dev := d\<rparr>) of (r, s) \<Rightarrow>
      if r \<noteq> 0 then Inr (-1, s)
      else Inr (0, s\<lparr>open_files := map (\<lambda>_. None) (open_files s)\<rparr>))))))"

section \<open>fs\_umount\<close>

text \<open>
  \<open>block_write(i+1, fat+BLOCK_SIZE*i)\<close>: 4096 bytes from entry \<open>BLOCK_SIZE * i\<close> of the table. The
  table has \<open>num_data_blocks\<close> entries; \<open>write\<close> copies whatever the heap holds after them (the disk
  image in \<open>src/apps/disk.fs\<close> shows such heap bytes in its FAT block), which is \<open>junk\<close> here.
\<close>

definition fat_block_mem :: "u16 list \<Rightarrow> (nat \<Rightarrow> byte) \<Rightarrow> nat \<Rightarrow> byte list" where
  "fat_block_mem F j i =
     (let mem = mem_of_u16s F; start = 2 * (BLOCK_SIZE * i)
      in map (\<lambda>p. if p < length mem then mem ! p else j p) [start..<start + BLOCK_SIZE])"

function write_fat_blocks :: "nat \<Rightarrow> nat \<Rightarrow> fs \<Rightarrow> fs res" where
  "write_fat_blocks i n s =
     (if i < n
      then bnd (deref (fat s)) (\<lambda>F.
             case block_write (of_nat (i + 1)) (fat_block_mem F (junk s) i) (dev s) of (r, d) \<Rightarrow>
               write_fat_blocks (Suc i) n (s\<lparr>dev := d\<rparr>))
      else Inr s)"
  by pat_completeness auto
termination
  by (relation "measure (\<lambda>(i, n, s). n - i)") auto

declare write_fat_blocks.simps [simp del]

text \<open>The loop that lays the directory out as a flat array.\<close>

function encode_root :: "nat \<Rightarrow> fs \<Rightarrow> byte list res" where
  "encode_root i s =
     (if i < FS_FILE_MAX_COUNT
      then bnd (root_entry i s) (\<lambda>(a, f).
             bnd (encode_root (Suc i) s) (\<lambda>rest. Inr (encode_file f @ rest)))
      else Inr [])"
  by pat_completeness auto
termination
  by (relation "measure (\<lambda>(i, s). FS_FILE_MAX_COUNT - i)") auto

declare encode_root.simps [simp del]

text \<open>\<open>free(root[i])\<close> for every slot; freeing twice is a fault, freeing NULL does nothing.\<close>

fun free_files :: "addr option list \<Rightarrow> fs \<Rightarrow> fs res" where
  "free_files [] s = Inr s"
| "free_files (p # ps) s =
     (case p of
       None \<Rightarrow> free_files ps s
     | Some a \<Rightarrow>
         if heap s a = None then Inl Use_after_free
         else free_files ps (s\<lparr>heap := (heap s)(a := None)\<rparr>))"

fun freed :: "'a ptr \<Rightarrow> 'a ptr res" where
  "freed Null = Inr Null"
| "freed (Ptr x) = Inr Dangling"
| "freed Dangling = Inl Use_after_free"

definition fs_umount :: "fs \<Rightarrow> (int \<times> fs) res" where
  "fs_umount s =
     (if \<not> is_disk_mounted s then Inr (-1, s)
      else
      bnd (deref (sb s)) (\<lambda>b.
      bnd (write_fat_blocks 0 (unat (num_fat_blocks b)) s) (\<lambda>s.
      bnd (encode_root 0 s) (\<lambda>root_array.
      case block_write (ucast (root_index b)) root_array (dev s) of (r, d) \<Rightarrow>
      bnd (free_files (root s) (s\<lparr>dev := d\<rparr>)) (\<lambda>s.
      bnd (freed (fat s)) (\<lambda>fat'.
      bnd (freed (sb s)) (\<lambda>sb'.
      case block_disk_close (dev s) of (r, d) \<Rightarrow>
      Inr (0, s\<lparr>fat := fat', sb := sb', dev := d, is_disk_mounted := False\<rparr>))))))))"

section \<open>What loading computes\<close>

text \<open>
  The superblock in the first block of a disk, and the checks \<open>load_superblock\<close> makes on it. The
  signature is not one of them.
\<close>

definition parse_super_block :: "byte list \<Rightarrow> SuperBlock" where
  "parse_super_block p =
     \<lparr>signature = take SUPERBLOCK_SIG_LEN p,
      num_blocks = concatenate_two_bytes (p ! 8) (p ! 9),
      root_index = concatenate_two_bytes (p ! 10) (p ! 11),
      data_start_index = concatenate_two_bytes (p ! 12) (p ! 13),
      num_data_blocks = concatenate_two_bytes (p ! 14) (p ! 15),
      num_fat_blocks = p ! 16,
      sb_padding = take SUPERBLOCK_PAD_LEN (drop 17 p)\<rparr>"

definition super_block_ok :: "SuperBlock \<Rightarrow> int \<Rightarrow> bool" where
  "super_block_ok b count \<longleftrightarrow>
     uint (num_blocks b) = count \<and> root_index b \<noteq> 0 \<and> data_start_index b \<noteq> 0 \<and>
     data_start_index b \<noteq> root_index b \<and> num_data_blocks b < num_blocks b \<and>
     ucast (num_fat_blocks b) < num_blocks b \<and> (\<forall>x \<in> set (sb_padding b). x = 0)"

lemma malloc_calm [simp]: "calm (dev s) \<Longrightarrow> malloc s = (True, s)"
  by (simp add: malloc_def calm_def)

lemma load_sb_padding_eq:
  assumes "length ptr = SUPERBLOCK_PAD_LEN" and "length (sb_padding b) = SUPERBLOCK_PAD_LEN"
    and "i \<le> SUPERBLOCK_PAD_LEN"
  shows "fst (load_sb_padding i ptr b) = (if \<forall>x \<in> set (drop i ptr). x = 0 then 0 else -1)"
    and "\<forall>x \<in> set (drop i ptr). x = 0 \<Longrightarrow>
      snd (load_sb_padding i ptr b) = b\<lparr>sb_padding := take i (sb_padding b) @ drop i ptr\<rparr>"
  using assms
proof (induction i ptr b rule: load_sb_padding.induct)
  case (1 i ptr b)
  let ?b = "b\<lparr>sb_padding := (sb_padding b)[i := ptr ! i]\<rparr>"
  {
    case 1
    show ?case
    proof (cases "i < SUPERBLOCK_PAD_LEN")
      case True
      with "1.prems" have d: "drop i ptr = ptr ! i # drop (Suc i) ptr"
        by (simp add: Cons_nth_drop_Suc)
      show ?thesis
        using "1.IH"(1) [OF True refl] "1.prems" True
        by (cases "ptr ! i = 0") (simp_all add: d load_sb_padding.simps [of i])
    next
      case False
      with "1.prems" show ?thesis by (subst load_sb_padding.simps) simp
    qed
  next
    case 2
    show ?case
    proof (cases "i < SUPERBLOCK_PAD_LEN")
      case True
      with "2.prems" have d: "drop i ptr = ptr ! i # drop (Suc i) ptr"
        by (simp add: Cons_nth_drop_Suc)
      have t: "take (Suc i) ((sb_padding b)[i := ptr ! i]) = take i (sb_padding b) @ [ptr ! i]"
        using True "2.prems" by (simp add: take_Suc_conv_app_nth)
      show ?thesis
        using "1.IH"(2) [OF True refl] "2.prems" True t
        by (simp add: d load_sb_padding.simps [of i])
    next
      case False
      with "2.prems" show ?thesis by (subst load_sb_padding.simps) simp
    qed
  }
qed

text \<open>In the following two lemmas the host may go on failing later.\<close>

lemma load_superblock_run:
  assumes "length p = BLOCK_SIZE" and "malloc s0 = (True, s)"
  shows "fst (load_superblock (Some p) s0) =
      (if super_block_ok (parse_super_block p) (block_disk_count (dev s)) then 0 else -1)"
    and "super_block_ok (parse_super_block p) (block_disk_count (dev s)) \<Longrightarrow>
      load_superblock (Some p) s0 = (0, s\<lparr>sb := Ptr (parse_super_block p)\<rparr>)"
proof -
  define q where "q = drop 17 p"
  define b where "b = (parse_super_block p)\<lparr>sb_padding := sb_padding (raw_super_block (junk s))\<rparr>"
  have q: "length q = SUPERBLOCK_PAD_LEN" "take SUPERBLOCK_PAD_LEN q = q"
    using assms(1) by (simp_all add: q_def BLOCK_SIZE_def SUPERBLOCK_PAD_LEN_def)
  have b: "length (sb_padding b) = SUPERBLOCK_PAD_LEN"
    by (simp add: b_def raw_super_block_def)
  note pad = load_sb_padding_eq [OF q(1) b, of 0, simplified]
  have eq: "load_superblock (Some p) s0 =
     (if uint (num_blocks b) \<noteq> block_disk_count (dev s) then (-1, snd (load_superblock (Some p) s0))
      else if root_index b = 0 then (-1, snd (load_superblock (Some p) s0))
      else if data_start_index b = 0 then (-1, snd (load_superblock (Some p) s0))
      else if data_start_index b = root_index b then (-1, snd (load_superblock (Some p) s0))
      else if num_blocks b \<le> num_data_blocks b then (-1, snd (load_superblock (Some p) s0))
      else if num_blocks b \<le> ucast (num_fat_blocks b) then (-1, snd (load_superblock (Some p) s0))
      else case load_sb_padding 0 q b of (r, b) \<Rightarrow> (r, s\<lparr>sb := Ptr b\<rparr>))"
    using assms
    by (simp add: load_superblock_def b_def parse_super_block_def raw_super_block_def q_def
        SUPERBLOCK_SIG_LEN_def Let_def BLOCK_SIZE_def)
  show "fst (load_superblock (Some p) s0) =
      (if super_block_ok (parse_super_block p) (block_disk_count (dev s)) then 0 else -1)"
    using pad(1)
    by (subst eq)
      (auto simp: super_block_ok_def b_def parse_super_block_def q_def [symmetric] q not_le
        split: prod.split)
  assume "super_block_ok (parse_super_block p) (block_disk_count (dev s))"
  then show "load_superblock (Some p) s0 = (0, s\<lparr>sb := Ptr (parse_super_block p)\<rparr>)"
    using pad
    by (subst eq)
      (auto simp: super_block_ok_def b_def parse_super_block_def q_def [symmetric] q not_le
        split: prod.split)
qed

lemma load_superblock_result:
  assumes "length p = BLOCK_SIZE" and "calm (dev s)"
  shows "fst (load_superblock (Some p) s) =
      (if super_block_ok (parse_super_block p) (block_disk_count (dev s)) then 0 else -1)"
    and "super_block_ok (parse_super_block p) (block_disk_count (dev s)) \<Longrightarrow>
      load_superblock (Some p) s = (0, s\<lparr>sb := Ptr (parse_super_block p)\<rparr>)"
  using load_superblock_run [OF assms(1) malloc_calm [OF assms(2)]] by simp_all

lemma nth_u16s_of_mem:
  "i < length bs div 2 \<Longrightarrow> u16s_of_mem bs ! i = u16_of_bytes (take 2 (drop (2 * i) bs))"
  by (simp add: u16s_of_mem_def nth_chunks)

text \<open>Reading a whole block into the front of a buffer determines its first entries.\<close>

lemma u16s_of_overwrite:
  assumes "length data = 2 * m" and "length data \<le> length buf" and "n \<le> m"
  shows "take n (u16s_of_mem (overwrite buf 0 data)) = take n (u16s_of_mem data)"
proof (rule nth_equalityI)
  have l: "length (overwrite buf 0 data) = length buf" using assms by simp
  then show "length (take n (u16s_of_mem (overwrite buf 0 data))) = length (take n (u16s_of_mem data))"
    using assms by simp
  fix i assume "i < length (take n (u16s_of_mem (overwrite buf 0 data)))"
  then have i: "i < n" "i < m" using assms by auto
  have "take 2 (drop (2 * i) (overwrite buf 0 data)) = take 2 (drop (2 * i) data)"
    using assms i by (simp add: overwrite_def)
  then show "take n (u16s_of_mem (overwrite buf 0 data)) ! i = take n (u16s_of_mem data) ! i"
    using i assms l by (simp add: nth_u16s_of_mem)
qed

definition fat_of_block :: "nat \<Rightarrow> byte list \<Rightarrow> u16 list" where
  "fat_of_block ndb p = take ndb (u16s_of_mem p)"

lemma unat_fat_buf_size_small: "2 * unat ndb \<le> BLOCK_SIZE \<Longrightarrow> unat (fat_buf_size ndb) = BLOCK_SIZE"
  by (simp add: fat_buf_size_def BLOCK_SIZE_def unat_of_nat)

text \<open>
  With one FAT block, and so at most 2048 data blocks, \<open>load_fat\<close> loads the entries of block 1 and
  checks that the first of them is \<open>FAT_EOC\<close>.
\<close>

lemma load_fat_run:
  assumes "sb s = Ptr b" and "num_fat_blocks b = 1" and "2 * unat (num_data_blocks b) \<le> BLOCK_SIZE"
    and "0 < num_data_blocks b" and "malloc s = (True, s1)" and "block_read 1 (dev s1) = (0, p, d)"
    and "length p = BLOCK_SIZE"
  defines "F \<equiv> fat_of_block (unat (num_data_blocks b)) p"
  shows "load_fat s = Inr (if F ! 0 = FAT_EOC then 0 else -1, with_fat F (s1\<lparr>dev := d\<rparr>))"
proof -
  let ?ndb = "unat (num_data_blocks b)"
  let ?s = "s1\<lparr>fat := Ptr (u16s_of_mem (stack_buffer (2 * ?ndb) s1))\<rparr>"
  let ?buf = "stack_buffer (2 * unat (fat_buf_size (num_data_blocks b))) ?s"
  note n = unat_fat_buf_size_small [OF assms(3)]
  have r: "read_fat_blocks 0 1 ?buf ?s = Inr (0, overwrite ?buf 0 p, ?s\<lparr>dev := d\<rparr>)"
    using assms(6,7) n
    by (subst read_fat_blocks.simps) (simp add: store_bytes_ok read_fat_blocks.simps)
  have l: "load_bytes (u16s_of_mem (overwrite ?buf 0 p)) 0 ?ndb = Inr F"
    using assms(3,7) n u16s_of_overwrite [of p 2048 ?buf ?ndb]
    by (simp add: load_bytes_def F_def fat_of_block_def BLOCK_SIZE_def)
  have "0 < length F"
    using assms(3,4,7) by (simp add: F_def fat_of_block_def BLOCK_SIZE_def word_less_nat_alt)
  with assms r l show ?thesis
    by (simp add: load_fat_def Let_def fetch_def)
qed

lemma load_fat_one_block:
  assumes "sb s = Ptr b" and "num_fat_blocks b = 1" and "2 * unat (num_data_blocks b) \<le> BLOCK_SIZE"
    and "0 < num_data_blocks b" and "disk_ok (dev s)" and "calm (dev s)" and "1 < blocks (dev s)"
  defines "F \<equiv> fat_of_block (unat (num_data_blocks b)) (block_at (dev s) 1)"
  shows "load_fat s = Inr (if F ! 0 = FAT_EOC then 0 else -1, with_fat F s)"
  using load_fat_run [OF assms(1-4) malloc_calm [OF assms(6)], of "block_at (dev s) 1" "dev s"]
    block_read_ok [OF assms(5,6), of 1] length_block_at [OF assms(5,7)] assms(7)
  by (simp add: F_def)

text \<open>The directory in a block.\<close>

definition dir_entry :: "byte list \<Rightarrow> nat \<Rightarrow> File" where
  "dir_entry p f = decode_file (drop (ROOT_ENTRY_LEN * f) p)"

definition dir_ok :: "byte list \<Rightarrow> bool" where
  "dir_ok p \<longleftrightarrow> (\<forall>f < FS_FILE_MAX_COUNT. \<forall>x \<in> set (file_padding (dir_entry p f)). x = 0)"

text \<open>The state after the entries \<open>f, f + 1, \<dots>\<close> have been read from \<open>ptr\<close>, \<open>m\<close> of them.\<close>

definition with_root :: "nat \<Rightarrow> nat \<Rightarrow> byte list \<Rightarrow> fs \<Rightarrow> fs" where
  "with_root f m ptr s =
     s\<lparr>heap := (\<lambda>a. if next_addr s \<le> a \<and> a < next_addr s + m
                    then Some (dir_entry ptr (a - next_addr s)) else heap s a),
       root := take f (root s) @ map Some [next_addr s..<next_addr s + m],
       next_addr := next_addr s + m\<rparr>"

lemma load_root_from_eq:
  assumes "calm (dev s)" and "length (root s) = FS_FILE_MAX_COUNT" and "f + m = FS_FILE_MAX_COUNT"
    and "\<And>k. k < m \<Longrightarrow> \<forall>x \<in> set (file_padding (dir_entry ptr k)). x = 0"
  shows "load_root_from f ptr s = (0, with_root f m ptr s)"
  using assms
proof (induction m arbitrary: f ptr s)
  case 0
  then show ?case
    by (subst load_root_from.simps) (auto simp: with_root_def intro!: fs.equality ext)
next
  case (Suc m)
  define s1 where "s1 = s\<lparr>heap := (heap s)(next_addr s \<mapsto> decode_file ptr),
    root := (root s)[f := Some (next_addr s)], next_addr := Suc (next_addr s)\<rparr>"
  have e: "dir_entry (drop ROOT_ENTRY_LEN ptr) k = dir_entry ptr (Suc k)" for k
    by (simp add: dir_entry_def add.commute)
  have z: "\<not> (\<exists>b \<in> set (file_padding (decode_file ptr)). b \<noteq> 0)"
    using Suc.prems(4) [of 0] by (simp add: dir_entry_def)
  have "load_root_from f ptr s = load_root_from (Suc f) (drop ROOT_ENTRY_LEN ptr) s1"
    using Suc.prems z by (simp add: load_root_from.simps [of f] s1_def Let_def)
  also have "\<dots> = (0, with_root (Suc f) m (drop ROOT_ENTRY_LEN ptr) s1)"
    by (rule Suc.IH) (use Suc.prems(1-3) Suc.prems(4) [of "Suc _"] in \<open>simp_all add: s1_def e\<close>)
  also have "with_root (Suc f) m (drop ROOT_ENTRY_LEN ptr) s1 = with_root f (Suc m) ptr s"
  proof -
    have s1: "next_addr s1 = Suc (next_addr s)" "heap s1 = (heap s)(next_addr s \<mapsto> decode_file ptr)"
      by (simp_all add: s1_def)
    have h: "(\<lambda>a. if next_addr s1 \<le> a \<and> a < next_addr s1 + m
          then Some (dir_entry (drop ROOT_ENTRY_LEN ptr) (a - next_addr s1)) else heap s1 a) =
        (\<lambda>a. if next_addr s \<le> a \<and> a < next_addr s + Suc m
          then Some (dir_entry ptr (a - next_addr s)) else heap s a)"
    proof
      fix a
      show "(if next_addr s1 \<le> a \<and> a < next_addr s1 + m
          then Some (dir_entry (drop ROOT_ENTRY_LEN ptr) (a - next_addr s1)) else heap s1 a) =
        (if next_addr s \<le> a \<and> a < next_addr s + Suc m
          then Some (dir_entry ptr (a - next_addr s)) else heap s a)"
        by (cases "a = next_addr s") (auto simp: s1 e Suc_diff_Suc dir_entry_def [of ptr 0])
    qed
    have r: "take (Suc f) ((root s)[f := Some (next_addr s)]) = take f (root s) @ [Some (next_addr s)]"
      using Suc.prems(2,3) by (simp add: take_Suc_conv_app_nth)
    have u: "[next_addr s..<Suc (next_addr s + m)] = next_addr s # [Suc (next_addr s)..<Suc (next_addr s + m)]"
      by (rule upt_conv_Cons) simp
    show ?thesis
      unfolding with_root_def h using r u by (simp add: s1_def del: upt_Suc)
  qed
  finally show ?case .
qed

lemma load_root_directory_ok:
  assumes "calm (dev s)" and "length (root s) = FS_FILE_MAX_COUNT" and "dir_ok p"
  shows "load_root_directory p s = (0, with_root 0 FS_FILE_MAX_COUNT p s)"
  using load_root_from_eq [OF assms(1,2), of 0 FS_FILE_MAX_COUNT p] assms(3)
  by (simp add: load_root_directory_def dir_ok_def)

text \<open>An entry whose padding is not zero stops the loop.\<close>

lemma load_root_from_rejects:
  assumes "calm (dev s)" and "f + k < FS_FILE_MAX_COUNT" and "\<exists>x \<in> set (file_padding (dir_entry ptr k)). x \<noteq> 0"
  shows "fst (load_root_from f ptr s) = -1"
  using assms
proof (induction k arbitrary: f ptr s)
  case 0
  then show ?case by (subst load_root_from.simps) (simp add: Let_def dir_entry_def)
next
  case (Suc k)
  define s1 where "s1 = s\<lparr>heap := (heap s)(next_addr s \<mapsto> decode_file ptr),
    root := (root s)[f := Some (next_addr s)], next_addr := Suc (next_addr s)\<rparr>"
  have "dir_entry (drop ROOT_ENTRY_LEN ptr) k = dir_entry ptr (Suc k)" by (simp add: dir_entry_def add.commute)
  then have "fst (load_root_from (Suc f) (drop ROOT_ENTRY_LEN ptr) s1) = -1"
    using Suc.prems by (intro Suc.IH) (simp_all add: s1_def)
  then show ?case using Suc.prems(1,2) by (simp add: load_root_from.simps [of f] s1_def Let_def)
qed

lemma load_root_directory_rejects:
  "calm (dev s) \<Longrightarrow> \<not> dir_ok p \<Longrightarrow> fst (load_root_directory p s) = -1"
  using load_root_from_rejects [of s 0 _ p] by (auto simp: load_root_directory_def dir_ok_def)

lemma with_root_slots:
  assumes "i < FS_FILE_MAX_COUNT"
  shows "slot_addr (with_root 0 FS_FILE_MAX_COUNT p s) i = next_addr s + i"
    and "slot_file (with_root 0 FS_FILE_MAX_COUNT p s) i = dir_entry p i"
  using assms by (simp_all add: with_root_def slot_addr_def slot_file_def)

lemma dir_entry_ok:
  assumes "length p = BLOCK_SIZE" and "i < FS_FILE_MAX_COUNT"
  shows "file_ok (dir_entry p i)"
  using assms
  by (simp add: file_ok_def dir_entry_def decode_file_def fs_sizes BLOCK_SIZE_def)

lemma with_root_files_ok:
  assumes "length p = BLOCK_SIZE"
  shows "files_ok (with_root 0 FS_FILE_MAX_COUNT p s)"
  using dir_entry_ok [OF assms]
  by (auto simp: files_ok_def with_root_def distinct_map inj_on_def)

section \<open>What saving writes\<close>

lemma encode_root_from:
  assumes "files_ok s" and "i + k = FS_FILE_MAX_COUNT"
  shows "encode_root i s = Inr (concat (map encode_file (map (slot_file s) [i..<FS_FILE_MAX_COUNT])))"
  using assms(2)
proof (induction k arbitrary: i)
  case 0
  then show ?case by (subst encode_root.simps) simp
next
  case (Suc k)
  then have i: "i < FS_FILE_MAX_COUNT" by simp
  with Suc.IH [of "Suc i"] Suc.prems assms(1) show ?case
    by (subst encode_root.simps) (simp add: root_entry_ok upt_conv_Cons)
qed

definition dir_image :: "fs \<Rightarrow> byte list" where
  "dir_image s = concat (map encode_file (map (slot_file s) [0..<FS_FILE_MAX_COUNT]))"

lemma encode_root_ok: "files_ok s \<Longrightarrow> encode_root 0 s = Inr (dir_image s)"
  using encode_root_from [of s 0 FS_FILE_MAX_COUNT] by (simp add: dir_image_def)

text \<open>A directory entry is a fixed-width codec on the entries whose arrays have the declared lengths.\<close>

lemma decode_encode_file:
  assumes "file_ok f"
  shows "decode_file (encode_file f @ rest) = f"
  using assms u32_of_bytes_u32_bytes [of "file_size f"] u16_of_bytes_u16_bytes [of "first_index f"]
  by (simp add: decode_file_def encode_file_def file_ok_def fs_sizes u32_of_bytes_def u16_of_bytes_def
      u32_bytes_def u16_bytes_def)

interpretation filec: fixed_codec encode_file decode_file file_ok ROOT_ENTRY_LEN
proof unfold_locales
  fix f :: File
  assume "file_ok f"
  then show "length (encode_file f) = ROOT_ENTRY_LEN"
    by (simp add: encode_file_def file_ok_def fs_sizes)
  show "decode_file (encode_file f) = f"
    using decode_encode_file [OF \<open>file_ok f\<close>, of "[]"] by simp
qed

lemma all_slots_file_ok:
  "files_ok s \<Longrightarrow> f \<in> set (map (slot_file s) [0..<FS_FILE_MAX_COUNT]) \<Longrightarrow> file_ok f"
  using files_ok_slot(3) by auto

lemma dir_image_entry:
  assumes "files_ok s" and "i < FS_FILE_MAX_COUNT"
  shows "dir_entry (dir_image s) i = slot_file s i"
proof -
  let ?fs = "map (slot_file s) [0..<FS_FILE_MAX_COUNT]"
  let ?d = "drop (ROOT_ENTRY_LEN * i) (dir_image s)"
  have "take ROOT_ENTRY_LEN (drop (ROOT_ENTRY_LEN * i) (concat (map encode_file ?fs) @ [])) =
      encode_file (?fs ! i)"
    by (rule filec.enc_nth [OF all_slots_file_ok [OF assms(1)]]) (use assms(2) in simp_all)
  then have "?d = encode_file (slot_file s i) @ drop ROOT_ENTRY_LEN ?d"
    using append_take_drop_id [of ROOT_ENTRY_LEN ?d] assms(2) by (simp add: dir_image_def)
  then show ?thesis
    using decode_encode_file [OF files_ok_slot(3) [OF assms]] unfolding dir_entry_def by metis
qed

lemma length_dir_image:
  assumes "files_ok s"
  shows "length (dir_image s) = BLOCK_SIZE"
proof -
  have "length (dir_image s) = ROOT_ENTRY_LEN * FS_FILE_MAX_COUNT"
    unfolding dir_image_def
    by (subst filec.length_enc_array) (use all_slots_file_ok [OF assms] in simp_all)
  then show ?thesis by (simp add: fs_sizes BLOCK_SIZE_def)
qed

text \<open>The FAT blocks, and the whole of the disk after \<open>fs_umount\<close> has written to it.\<close>

definition put_fat_blocks :: "nat \<Rightarrow> nat \<Rightarrow> u16 list \<Rightarrow> (nat \<Rightarrow> byte) \<Rightarrow> dev \<Rightarrow> dev" where
  "put_fat_blocks i n F j d =
     fold (\<lambda>k d. put_block (Suc k) (fat_block_mem F j k) d) [i..<n] d"

lemma length_fat_block_mem [simp]: "length (fat_block_mem F j i) = BLOCK_SIZE"
  by (simp add: fat_block_mem_def Let_def)

lemma put_fat_blocks_ok:
  assumes "disk_ok d" and "n < blocks d"
  shows "disk_ok (put_fat_blocks i n F j d)" and "blocks (put_fat_blocks i n F j d) = blocks d"
    and "calm (put_fat_blocks i n F j d) \<longleftrightarrow> calm d"
proof -
  have "disk_ok (put_fat_blocks i n F j d) \<and> blocks (put_fat_blocks i n F j d) = blocks d \<and>
    (calm (put_fat_blocks i n F j d) \<longleftrightarrow> calm d)"
    using assms
  proof (induction "n - i" arbitrary: i d)
    case 0
    then show ?case by (simp add: put_fat_blocks_def)
  next
    case (Suc m)
    then have "put_fat_blocks i n F j d =
        put_fat_blocks (Suc i) n F j (put_block (Suc i) (fat_block_mem F j i) d)"
      by (simp add: put_fat_blocks_def upt_conv_Cons)
    with Suc show ?case by (simp add: put_block_disk_ok)
  qed
  then show "disk_ok (put_fat_blocks i n F j d)" and "blocks (put_fat_blocks i n F j d) = blocks d"
    and "calm (put_fat_blocks i n F j d) \<longleftrightarrow> calm d" by auto
qed

lemma write_fat_blocks_ok:
  assumes "fat s = Ptr F" and "disk_ok (dev s)" and "calm (dev s)" and "n < blocks (dev s)"
    and "n < 2 ^ 32"
  shows "write_fat_blocks i n s = Inr (s\<lparr>dev := put_fat_blocks i n F (junk s) (dev s)\<rparr>)"
  using assms
proof (induction "n - i" arbitrary: i s)
  case 0
  then show ?case by (simp add: write_fat_blocks.simps put_fat_blocks_def)
next
  case (Suc m)
  let ?s = "s\<lparr>dev := put_block (Suc i) (fat_block_mem F (junk s) i) (dev s)\<rparr>"
  from Suc have i: "i < n" "unat (1 + of_nat i :: u64) = Suc i"
    by (simp_all add: unat_word_ariths unat_of_nat)
  have "write_fat_blocks i n s = write_fat_blocks (Suc i) n ?s"
    using Suc i by (subst write_fat_blocks.simps) (simp add: block_write_ok)
  also have "\<dots> = Inr (?s\<lparr>dev := put_fat_blocks (Suc i) n F (junk s) (dev ?s)\<rparr>)"
    using Suc i by (subst Suc.hyps(1)) (auto simp: put_block_disk_ok)
  also have "put_fat_blocks (Suc i) n F (junk s) (dev ?s) = put_fat_blocks i n F (junk s) (dev s)"
    using i by (simp add: put_fat_blocks_def upt_conv_Cons)
  finally show ?case by simp
qed

text \<open>Freeing the files, each of which is live and in one slot only.\<close>

lemma free_files_ok:
  assumes "distinct ps" and "\<And>p. p \<in> set ps \<Longrightarrow> \<exists>a. p = Some a \<and> heap s a \<noteq> None"
  shows "free_files ps s = Inr (s\<lparr>heap := (\<lambda>a. if Some a \<in> set ps then None else heap s a)\<rparr>)"
  using assms
proof (induction ps arbitrary: s)
  case Nil
  then show ?case by simp
next
  case (Cons p ps)
  from Cons.prems(2) [of p] obtain a where a: "p = Some a" "heap s a \<noteq> None" by auto
  let ?s = "s\<lparr>heap := (heap s)(a := None)\<rparr>"
  have "free_files ps ?s = Inr (?s\<lparr>heap := (\<lambda>x. if Some x \<in> set ps then None else heap ?s x)\<rparr>)"
    using Cons.prems a(1) by (intro Cons.IH) fastforce+
  moreover have "(\<lambda>x. if Some x \<in> set ps then None else heap ?s x) =
      (\<lambda>x. if Some x \<in> set (p # ps) then None else heap s x)"
    using a by auto
  ultimately show ?case using a by (simp del: fun_upd_apply)
qed

section \<open>Mounting and unmounting\<close>

text \<open>
  A disk file of the shape \<open>fs_make\<close> produces for at most 2048 data blocks: superblock, one FAT block,
  the root directory in block 2.
\<close>

definition content_block :: "byte list \<Rightarrow> nat \<Rightarrow> byte list" where
  "content_block c b = take BLOCK_SIZE (drop (BLOCK_SIZE * b) c)"

definition mountable :: "byte list \<Rightarrow> bool" where
  "mountable c \<longleftrightarrow>
     (let b = parse_super_block (content_block c 0); ndb = unat (num_data_blocks b) in
       length c mod BLOCK_SIZE = 0 \<and>
       super_block_ok b (int (length c div BLOCK_SIZE)) \<and>
       num_fat_blocks b = 1 \<and> 0 < ndb \<and> 2 * ndb \<le> BLOCK_SIZE \<and> 2 < num_blocks b \<and>
       fat_of_block ndb (content_block c 1) ! 0 = FAT_EOC \<and>
       dir_ok (content_block c 2))"

lemma block_at_content: "block_at d b = content_block (disk_image d) b"
  by (simp add: block_at_def content_block_def)

lemma mountable_blocks:
  assumes "mountable c"
  shows "length c div BLOCK_SIZE < 65536" and "2 < length c div BLOCK_SIZE"
    and "length c = BLOCK_SIZE * (length c div BLOCK_SIZE)" and "length c < 2 ^ 63"
proof -
  let ?b = "parse_super_block (content_block c 0)"
  from assms have n: "uint (num_blocks ?b) = int (length c div BLOCK_SIZE)" "2 < num_blocks ?b"
    "length c mod BLOCK_SIZE = 0"
    by (auto simp: mountable_def super_block_ok_def Let_def)
  from n(1) have n': "unat (num_blocks ?b) = length c div BLOCK_SIZE" by (simp add: uint_eq_int_iff)
  then show l: "length c div BLOCK_SIZE < 65536" using unat_u16_bound [of "num_blocks ?b"] by simp
  show "2 < length c div BLOCK_SIZE" using n(2) n' by (simp add: word_less_nat_alt)
  show "length c = BLOCK_SIZE * (length c div BLOCK_SIZE)"
    using n(3) by (metis add.right_neutral mult_div_mod_eq)
  with l show "length c < 2 ^ 63" by (simp add: BLOCK_SIZE_def)
qed

definition all_closed :: "fs \<Rightarrow> bool" where
  "all_closed s \<longleftrightarrow> open_files s = replicate FS_OPEN_MAX_COUNT None"

text \<open>The run of a mount in which no step fails that is checked.\<close>

lemma fs_mount_run:
  assumes "load_disk path s = (0, s1)" and "block_read 0 (dev s1) = (0, p0, d1)" and "length p0 = BLOCK_SIZE"
    and "load_superblock (Some p0) (s1\<lparr>dev := d1\<rparr>) = (0, s2)" and "load_fat s2 = Inr (0, s3)"
    and "sb s3 = Ptr b" and "block_read (ucast (num_fat_blocks b) + 1) (dev s3) = (r, p, d3)"
    and "length p \<le> BLOCK_SIZE" and "load_root_directory (overwrite p0 0 p) (s3\<lparr>dev := d3\<rparr>) = (q, s4)"
  shows "fs_mount path s = Inr (if q \<noteq> 0 then (-1, s4) else (0, s4\<lparr>open_files := map (\<lambda>_. None) (open_files s4)\<rparr>))"
  using assms by (simp add: fs_mount_def store_bytes_ok overwrite_all Let_def)

text \<open>A disk file that was opened, and the state after a mount: the tables loaded from its blocks.\<close>

definition holds_disk :: "string \<Rightarrow> byte list \<Rightarrow> dev \<Rightarrow> bool" where
  "holds_disk path c d \<longleftrightarrow>
     disk_ok d \<and> calm d \<and> disk_image d = c \<and> blocks d = length c div BLOCK_SIZE \<and> 0 \<le> host_next (host d) \<and>
     host_fds (host d) (disk_fd (disk d)) = Some path"

definition holds_image :: "string \<Rightarrow> byte list \<Rightarrow> fs \<Rightarrow> bool" where
  "holds_image path c s \<longleftrightarrow>
     is_disk_mounted s \<and> sb s = Ptr (parse_super_block (content_block c 0)) \<and>
     fat s = Ptr (fat_of_block (unat (num_data_blocks (the_sb s))) (content_block c 1)) \<and>
     files_ok s \<and> (\<forall>i < FS_FILE_MAX_COUNT. slot_file s i = dir_entry (content_block c 2) i) \<and>
     all_closed s \<and> holds_disk path c (dev s)"

lemma load_disk_ok:
  assumes "\<not> is_disk_mounted s" and "disk_fd (disk (dev s)) = INVALID_FD" and "calm (dev s)"
    and "0 \<le> host_next (host (dev s))" and "host_files (host (dev s)) path = Some c"
    and "length c mod BLOCK_SIZE = 0" and "length c < 2 ^ 63"
  obtains d where "load_disk (Some path) s = (0, s\<lparr>dev := d, is_disk_mounted := True\<rparr>)" and "holds_disk path c d"
  by (rule block_disk_open_ok [OF assms(2-7)]) (use assms(1) that in \<open>simp add: load_disk_def holds_disk_def\<close>)

lemma holds_disk_block:
  assumes "holds_disk path c d" and "k < length c div BLOCK_SIZE"
  shows "block_read (of_nat k) d = (0, content_block c k, d)" and "length (content_block c k) = BLOCK_SIZE"
proof -
  from assms have d: "disk_ok d" "calm d" "disk_image d = c" "k < blocks d" by (simp_all add: holds_disk_def)
  have "unat (bcount (disk d)) < 2 ^ 64" using unsigned_less [of "bcount (disk d)"] by simp
  with d(4) have "k < 2 ^ 64" by (simp add: blocks_def)
  with d block_read_ok [OF d(1,2), of "of_nat k"] length_block_at [OF d(1,4)]
  show "block_read (of_nat k) d = (0, content_block c k, d)" and "length (content_block c k) = BLOCK_SIZE"
    by (simp_all add: block_at_content unat_of_nat)
qed

text \<open>
  \<open>fs_mount\<close> of a disk file of one FAT block whose superblock and table are accepted: what it returns is
  decided by the directory.
\<close>

lemma fs_mount_directory:
  assumes "\<not> is_disk_mounted s" and "disk_fd (disk (dev s)) = INVALID_FD" and "calm (dev s)"
    and "0 \<le> host_next (host (dev s))" and "host_files (host (dev s)) path = Some c"
    and "length c mod BLOCK_SIZE = 0" and "2 < length c div BLOCK_SIZE" and "length c div BLOCK_SIZE < 65536"
  defines "b \<equiv> parse_super_block (content_block c 0)"
  defines "F \<equiv> fat_of_block (unat (num_data_blocks b)) (content_block c 1)"
  assumes "super_block_ok b (int (length c div BLOCK_SIZE))" and "num_fat_blocks b = 1" and "0 < num_data_blocks b"
    and "2 * unat (num_data_blocks b) \<le> BLOCK_SIZE" and "F ! 0 = FAT_EOC"
  obtains d where "holds_disk path c d" and "fs_mount (Some path) s =
    (case load_root_directory (content_block c 2) (with_fat F (s\<lparr>dev := d, is_disk_mounted := True, sb := Ptr b\<rparr>)) of
      (r, s) \<Rightarrow> Inr (if r \<noteq> 0 then (-1, s) else (0, s\<lparr>open_files := map (\<lambda>_. None) (open_files s)\<rparr>)))"
proof -
  have "length c < 2 ^ 63" using assms(6,8) by (auto simp: BLOCK_SIZE_def elim!: dvdE)
  then obtain d where ld: "load_disk (Some path) s = (0, s\<lparr>dev := d, is_disk_mounted := True\<rparr>)" and hd: "holds_disk path c d"
    by (rule load_disk_ok [OF assms(1-6)])
  then have d: "disk_ok d" "calm d" "disk_image d = c" "blocks d = length c div BLOCK_SIZE" by (simp_all add: holds_disk_def)
  define s1 where "s1 = s\<lparr>dev := d, is_disk_mounted := True\<rparr>"
  define s2 where "s2 = with_fat F (s1\<lparr>sb := Ptr b\<rparr>)"
  note blk = holds_disk_block [OF hd]
  have len: "length (content_block c 0) = BLOCK_SIZE" "length (content_block c 2) = BLOCK_SIZE"
    using blk(2) [of 0] blk(2) [of 2] assms(7) by simp_all
  have ls: "load_superblock (Some (content_block c 0)) s1 = (0, s1\<lparr>sb := Ptr b\<rparr>)"
    using assms(11) d block_disk_count_ok [OF d(1)] assms(8) len(1) unfolding b_def
    by (intro load_superblock_result(2)) (simp_all add: s1_def)
  have lf: "load_fat (s1\<lparr>sb := Ptr b\<rparr>) = Inr (0, s2)"
    using load_fat_one_block [of "s1\<lparr>sb := Ptr b\<rparr>" b] assms(7,12-15) d
    by (simp add: s1_def s2_def F_def block_at_content)
  have dv: "dev s1 = d" "s1\<lparr>dev := d\<rparr> = s1" "dev s2 = d" "s2\<lparr>dev := d\<rparr> = s2" "sb s2 = Ptr b"
    by (simp_all add: s1_def s2_def)
  obtain q s4 where lr: "load_root_directory (content_block c 2) s2 = (q, s4)" by fastforce
  have "fs_mount (Some path) s = Inr (if q \<noteq> 0 then (-1, s4) else (0, s4\<lparr>open_files := map (\<lambda>_. None) (open_files s4)\<rparr>))"
    using fs_mount_run [of "Some path" s s1 "content_block c 0" d "s1\<lparr>sb := Ptr b\<rparr>" s2 b 0 "content_block c 2" d q s4]
      ld [folded s1_def] blk(1) [of 0] blk(1) [of 2] assms(7,12) ls lf lr dv len by (simp add: overwrite_all)
  with lr show ?thesis by (intro that [OF hd]) (simp add: s1_def s2_def)
qed

lemma fs_mount_ok:
  assumes "\<not> is_disk_mounted s" and "disk_fd (disk (dev s)) = INVALID_FD" and "calm (dev s)"
    and "0 \<le> host_next (host (dev s))" and "host_files (host (dev s)) path = Some c"
    and "mountable c" and "length (root s) = FS_FILE_MAX_COUNT"
    and "length (open_files s) = FS_OPEN_MAX_COUNT"
  obtains s' where "fs_mount (Some path) s = Inr (0, s')" and "holds_image path c s'"
    and "num_open_files s' = num_open_files s"
proof -
  let ?b = "parse_super_block (content_block c 0)"
  let ?F = "fat_of_block (unat (num_data_blocks ?b)) (content_block c 1)"
  note mb = mountable_blocks [OF assms(6)]
  from assms(6) have m: "super_block_ok ?b (int (length c div BLOCK_SIZE))" "num_fat_blocks ?b = 1"
    "0 < num_data_blocks ?b" "2 * unat (num_data_blocks ?b) \<le> BLOCK_SIZE"
    "?F ! 0 = FAT_EOC" "dir_ok (content_block c 2)" "length c mod BLOCK_SIZE = 0"
    by (auto simp: mountable_def Let_def word_less_nat_alt)
  obtain d where hd: "holds_disk path c d" and mnt: "fs_mount (Some path) s =
      (case load_root_directory (content_block c 2) (with_fat ?F (s\<lparr>dev := d, is_disk_mounted := True, sb := Ptr ?b\<rparr>)) of
        (r, s) \<Rightarrow> Inr (if r \<noteq> 0 then (-1, s) else (0, s\<lparr>open_files := map (\<lambda>_. None) (open_files s)\<rparr>)))"
    by (rule fs_mount_directory [OF assms(1-5) m(7) mb(2,1) m(1-5)])
  define s2 where "s2 = with_fat ?F (s\<lparr>dev := d, is_disk_mounted := True, sb := Ptr ?b\<rparr>)"
  define s3 where "s3 = with_root 0 FS_FILE_MAX_COUNT (content_block c 2) s2"
  have len: "length (content_block c 2) = BLOCK_SIZE" using holds_disk_block(2) [OF hd mb(2)] .
  have "calm d" using hd by (simp add: holds_disk_def)
  then have "load_root_directory (content_block c 2) s2 = (0, s3)"
    using load_root_directory_ok [of s2 "content_block c 2"] m(6) assms(7) by (simp add: s3_def s2_def)
  with mnt have r: "fs_mount (Some path) s = Inr (0, s3\<lparr>open_files := map (\<lambda>_. None) (open_files s3)\<rparr>)"
    by (simp add: s2_def)
  show ?thesis
    by (rule that [OF r])
      (use hd assms(8) with_root_files_ok [OF len, of s2] with_root_slots(2) in
        \<open>simp_all add: holds_image_def s3_def s2_def with_root_def files_ok_def slot_file_def slot_addr_def
          all_closed_def the_sb_def map_replicate_const\<close>)
qed

text \<open>What \<open>fs_umount\<close> leaves on the host: the FAT blocks, then the directory at \<open>root_index\<close>.\<close>

definition umount_dev :: "fs \<Rightarrow> dev" where
  "umount_dev s =
     put_block (unat (root_index (the_sb s))) (dir_image s)
       (put_fat_blocks 0 (unat (num_fat_blocks (the_sb s))) (the_fat s) (junk s) (dev s))"

text \<open>The run of \<open>fs_umount\<close>, whatever its transfers return.\<close>

lemma free_root:
  assumes "files_ok s" and "root t = root s" and "heap t = heap s"
  shows "free_files (root s) t = Inr (t\<lparr>heap := (\<lambda>a. if Some a \<in> set (root s) then None else heap s a)\<rparr>)"
proof -
  have "free_files (root s) t = Inr (t\<lparr>heap := (\<lambda>a. if Some a \<in> set (root s) then None else heap t a)\<rparr>)"
  proof (rule free_files_ok)
    show "distinct (root s)" using assms(1) by (simp add: files_ok_def)
    fix p assume "p \<in> set (root s)"
    then obtain a f where "p = Some a" "heap s a = Some f" using assms(1) unfolding files_ok_def by blast
    then show "\<exists>a. p = Some a \<and> heap t a \<noteq> None" by (simp add: assms(3))
  qed
  then show ?thesis by (simp only: assms(3))
qed

lemma fs_umount_run:
  assumes "is_disk_mounted s" and "fat_ok s" and "files_ok s"
    and "write_fat_blocks 0 (unat (num_fat_blocks (the_sb s))) s = Inr (s\<lparr>dev := d1\<rparr>)"
    and "block_write (ucast (root_index (the_sb s))) (dir_image s) d1 = (r, d2)"
    and "disk_fd (disk d2) \<noteq> INVALID_FD"
  obtains s' where "fs_umount s = Inr (0, s')" and "\<not> is_disk_mounted s'"
    and "disk_fd (disk (dev s')) = INVALID_FD" and "host (dev s') = host_close (disk_fd (disk d2)) (host d2)"
    and "root s' = root s" and "open_files s' = open_files s" and "num_open_files s' = num_open_files s"
    and "\<And>p. p \<in> set (root s) \<Longrightarrow> file_at p s' = Inl Use_after_free"
proof -
  define s1 where "s1 = s\<lparr>dev := d1\<rparr>"
  have f1: "files_ok s1" using assms(3) by (simp add: s1_def files_ok_def)
  have "dir_image s1 = dir_image s"
    by (simp add: dir_image_def slot_file_def slot_addr_def s1_def comp_def)
  then have e: "encode_root 0 s1 = Inr (dir_image s)" using encode_root_ok [OF f1] by simp
  define h where "h = (\<lambda>a. if Some a \<in> set (root s) then None else heap s a)"
  define s2 where "s2 = s1\<lparr>dev := d2, heap := h\<rparr>"
  have fr: "free_files (root s1) (s1\<lparr>dev := d2\<rparr>) = Inr s2"
    using free_root [OF assms(3), of "s1\<lparr>dev := d2\<rparr>"] by (simp add: s1_def s2_def h_def)
  define d where "d = d2\<lparr>disk := (disk d2)\<lparr>disk_fd := INVALID_FD\<rparr>, host := host_close (disk_fd (disk d2)) (host d2)\<rparr>"
  have d: "block_disk_close d2 = (0, d)" using assms(6) by (simp add: block_disk_close_def d_def)
  define s' where "s' = s2\<lparr>fat := Dangling, sb := Dangling, dev := d, is_disk_mounted := False\<rparr>"
  have f: "sb s = Ptr (the_sb s)" "sb s2 = Ptr (the_sb s)" "fat s2 = Ptr (the_fat s)" "dev s2 = d2" "dev s1 = d1"
    using fat_okD [OF assms(2)] by (simp_all add: s2_def s1_def)
  have u: "fs_umount s = Inr (0, s')"
    by (simp add: fs_umount_def assms(1) f assms(4,5) s1_def [symmetric] e fr d s'_def)
  have fa: "file_at p s' = Inl Use_after_free" if "p \<in> set (root s)" for p
  proof -
    from that assms(3) obtain a where "p = Some a" unfolding files_ok_def by blast
    with that show ?thesis by (simp add: file_at_def s'_def s2_def h_def)
  qed
  show ?thesis
    by (rule that [OF u _ _ _ _ _ _ fa]) (simp_all add: s'_def s2_def s1_def d_def)
qed

lemma fs_umount_ok:
  assumes "is_disk_mounted s" and "fat_ok s" and "files_ok s" and "disk_ok (dev s)" and "calm (dev s)"
    and "unat (num_fat_blocks (the_sb s)) < blocks (dev s)"
    and "unat (root_index (the_sb s)) < blocks (dev s)"
  obtains s' where "fs_umount s = Inr (0, s')" and "\<not> is_disk_mounted s'"
    and "disk_fd (disk (dev s')) = INVALID_FD" and "calm (dev s')"
    and "host_files (host (dev s')) = host_files (host (umount_dev s))"
    and "host_next (host (dev s')) = host_next (host (umount_dev s))"
    and "root s' = root s" and "open_files s' = open_files s"
    and "num_open_files s' = num_open_files s"
    and "\<And>p. p \<in> set (root s) \<Longrightarrow> file_at p s' = Inl Use_after_free"
proof -
  let ?n = "unat (num_fat_blocks (the_sb s))"
  let ?d1 = "put_fat_blocks 0 ?n (the_fat s) (junk s) (dev s)"
  note d1 = put_fat_blocks_ok [OF assms(4,6), of 0 "the_fat s" "junk s"]
  have "?n < 2 ^ 32" using unat_byte_bound [of "num_fat_blocks (the_sb s)"] by simp
  then have w: "write_fat_blocks 0 ?n s = Inr (s\<lparr>dev := ?d1\<rparr>)"
    using assms write_fat_blocks_ok [OF fat_okD(2), of s ?n 0] by simp
  have u: "unat (ucast (root_index (the_sb s)) :: u64) = unat (root_index (the_sb s))"
    using unat_u16_bound [of "root_index (the_sb s)"]
    by (simp add: unsigned_ucast_eq take_bit_nat_eq_self)
  have b: "block_write (ucast (root_index (the_sb s))) (dir_image s) ?d1 = (0, umount_dev s)"
    using d1 assms(5,7) u by (subst block_write_ok) (simp_all add: umount_dev_def)
  have ud: "disk_ok (umount_dev s)" "calm (umount_dev s)"
    using d1 assms(5,7) length_dir_image [OF assms(3)]
    by (simp_all add: umount_dev_def put_block_disk_ok)
  from fs_umount_run [OF assms(1-3) w b] ud(1) obtain s' where "fs_umount s = Inr (0, s')"
    "\<not> is_disk_mounted s'" "disk_fd (disk (dev s')) = INVALID_FD"
    "host (dev s') = host_close (disk_fd (disk (umount_dev s))) (host (umount_dev s))"
    "root s' = root s" "open_files s' = open_files s" "num_open_files s' = num_open_files s"
    "\<And>p. p \<in> set (root s) \<Longrightarrow> file_at p s' = Inl Use_after_free"
    by (auto simp: disk_ok_def)
  with ud(2) that [of s'] show ?thesis by (simp add: calm_def host_close_def)
qed

section \<open>Unmounting and mounting again\<close>

text \<open>
  \<open>mounted_on path s\<close>: a disk file formatted with one FAT block and the root directory behind it is
  mounted, and the superblock in memory is the one on the disk.
\<close>

definition mounted_on :: "string \<Rightarrow> fs \<Rightarrow> bool" where
  "mounted_on path s \<longleftrightarrow>
     is_disk_mounted s \<and> fat_ok s \<and> files_ok s \<and>
     length (open_files s) = FS_OPEN_MAX_COUNT \<and>
     disk_ok (dev s) \<and> calm (dev s) \<and> 0 \<le> host_next (host (dev s)) \<and>
     host_fds (host (dev s)) (disk_fd (disk (dev s))) = Some path \<and>
     parse_super_block (block_at (dev s) 0) = the_sb s \<and>
     super_block_ok (the_sb s) (int (blocks (dev s))) \<and>
     num_fat_blocks (the_sb s) = 1 \<and> root_index (the_sb s) = 2 \<and> 2 < blocks (dev s) \<and>
     0 < length (the_fat s) \<and> 2 * length (the_fat s) \<le> BLOCK_SIZE \<and>
     the_fat s ! 0 = FAT_EOC \<and>
     (\<forall>i < FS_FILE_MAX_COUNT. \<forall>x \<in> set (file_padding (slot_file s i)). x = 0)"

lemma put_block_fds [simp]: "host_fds (host (put_block b buf d)) = host_fds (host d)"
  by (simp add: put_block_def split: option.split)

lemma put_block_next [simp]: "host_next (host (put_block b buf d)) = host_next (host d)"
  by (simp add: put_block_def split: option.split)

lemma fat_of_fat_block_mem:
  assumes "2 * length F \<le> BLOCK_SIZE"
  shows "fat_of_block (length F) (fat_block_mem F j 0) = F"
proof -
  let ?m = "mem_of_u16s F" and ?j = "map j [0..<BLOCK_SIZE]"
  have "fat_block_mem F j 0 = overwrite ?j 0 ?m"
    by (rule nth_equalityI) (use assms in \<open>auto simp: fat_block_mem_def nth_overwrite Let_def\<close>)
  moreover have "take (length F) (u16s_of_mem (overwrite ?j 0 ?m)) = take (length F) (u16s_of_mem ?m)"
    by (rule u16s_of_overwrite [of _ "length F"]) (use assms in simp_all)
  ultimately show ?thesis by (simp add: fat_of_block_def)
qed

lemma umount_dev_written:
  assumes "disk_ok (dev s)" and "2 < blocks (dev s)" and "files_ok s"
    and "num_fat_blocks (the_sb s) = 1" and "root_index (the_sb s) = 2"
    and "host_fds (host (dev s)) (disk_fd (disk (dev s))) = Some path"
  shows "disk_ok (umount_dev s)" and "blocks (umount_dev s) = blocks (dev s)"
    and "block_at (umount_dev s) 1 = fat_block_mem (the_fat s) (junk s) 0"
    and "block_at (umount_dev s) 2 = dir_image s"
    and "\<And>b. b \<noteq> 1 \<Longrightarrow> b \<noteq> 2 \<Longrightarrow> block_at (umount_dev s) b = block_at (dev s) b"
    and "host_files (host (umount_dev s)) path = Some (disk_image (umount_dev s))"
    and "host_next (host (umount_dev s)) = host_next (host (dev s))"
proof -
  let ?d1 = "put_block 1 (fat_block_mem (the_fat s) (junk s) 0) (dev s)"
  note m = assms
  have u: "umount_dev s = put_block 2 (dir_image s) ?d1"
    using m(4,5) by (simp add: umount_dev_def put_fat_blocks_def)
  have d1: "disk_ok ?d1" using m(1,2) by (simp add: put_block_disk_ok)
  note l = length_dir_image [OF m(3)]
  show ok: "disk_ok (umount_dev s)" using d1 m(2) l by (simp add: u put_block_disk_ok)
  show "blocks (umount_dev s) = blocks (dev s)" by (simp add: u)
  show "block_at (umount_dev s) 1 = fat_block_mem (the_fat s) (junk s) 0"
    using d1 m(1,2) l by (simp add: u block_at_put_other block_at_put_same)
  show "block_at (umount_dev s) 2 = dir_image s"
    using d1 m(1,2) l by (simp add: u block_at_put_same)
  show "block_at (umount_dev s) b = block_at (dev s) b" if "b \<noteq> 1" "b \<noteq> 2" for b
    using d1 m(1,2) l that by (simp add: u block_at_put_other)
  show "host_files (host (umount_dev s)) path = Some (disk_image (umount_dev s))"
    using ok m(6) by (elim disk_okE) (simp add: u)
  show "host_next (host (umount_dev s)) = host_next (host (dev s))" by (simp add: u)
qed

lemma umount_dev_blocks:
  assumes "mounted_on path s"
  shows "disk_ok (umount_dev s)" and "blocks (umount_dev s) = blocks (dev s)"
    and "block_at (umount_dev s) 1 = fat_block_mem (the_fat s) (junk s) 0"
    and "block_at (umount_dev s) 2 = dir_image s"
    and "\<And>b. b \<noteq> 1 \<Longrightarrow> b \<noteq> 2 \<Longrightarrow> block_at (umount_dev s) b = block_at (dev s) b"
    and "host_files (host (umount_dev s)) path = Some (disk_image (umount_dev s))"
    and "host_next (host (umount_dev s)) = host_next (host (dev s))"
proof -
  from assms have m: "disk_ok (dev s)" "2 < blocks (dev s)" "files_ok s"
    "num_fat_blocks (the_sb s) = 1" "root_index (the_sb s) = 2"
    "host_fds (host (dev s)) (disk_fd (disk (dev s))) = Some path"
    by (auto simp: mounted_on_def)
  note u = umount_dev_written [OF m]
  show "disk_ok (umount_dev s)" by (rule u(1))
  show "blocks (umount_dev s) = blocks (dev s)" by (rule u(2))
  show "block_at (umount_dev s) 1 = fat_block_mem (the_fat s) (junk s) 0" by (rule u(3))
  show "block_at (umount_dev s) 2 = dir_image s" by (rule u(4))
  show "block_at (umount_dev s) b = block_at (dev s) b" if "b \<noteq> 1" "b \<noteq> 2" for b by (rule u(5) [OF that])
  show "host_files (host (umount_dev s)) path = Some (disk_image (umount_dev s))" by (rule u(6))
  show "host_next (host (umount_dev s)) = host_next (host (dev s))" by (rule u(7))
qed

lemma umount_dev_mountable:
  assumes "mounted_on path s"
  shows "mountable (disk_image (umount_dev s))"
proof -
  note ub = umount_dev_blocks [OF assms]
  from assms have m: "parse_super_block (block_at (dev s) 0) = the_sb s"
    "super_block_ok (the_sb s) (int (blocks (dev s)))" "num_fat_blocks (the_sb s) = 1"
    "2 < blocks (dev s)" "0 < length (the_fat s)" "2 * length (the_fat s) \<le> BLOCK_SIZE"
    "the_fat s ! 0 = FAT_EOC" "files_ok s" "fat_ok s"
    "\<forall>i < FS_FILE_MAX_COUNT. \<forall>x \<in> set (file_padding (slot_file s i)). x = 0"
    by (simp_all add: mounted_on_def)
  have len: "length (disk_image (umount_dev s)) = BLOCK_SIZE * blocks (dev s)"
    using ub(1,2) by (simp add: disk_ok_def)
  have b0: "parse_super_block (content_block (disk_image (umount_dev s)) 0) = the_sb s"
    using ub(5) [of 0] m(1) by (simp add: block_at_content)
  have dir: "dir_ok (dir_image s)"
    using m(8,10) by (simp add: dir_ok_def dir_image_entry)
  have "uint (num_blocks (the_sb s)) = int (blocks (dev s))"
    using m(2) by (simp add: super_block_ok_def)
  then have "2 < num_blocks (the_sb s)"
    using m(4) by (simp add: word_less_nat_alt uint_eq_int_iff)
  then show ?thesis
    unfolding mountable_def Let_def b0
    using len m ub(3,4) dir fat_okD(3) [OF m(9)] fat_of_fat_block_mem [OF m(6), of "junk s"]
    by (simp add: block_at_content)
qed

lemma umount_mount:
  assumes "mounted_on path s"
  obtains s1 s2 where "fs_umount s = Inr (0, s1)" and "fs_mount (Some path) s1 = Inr (0, s2)"
    and "mounted_on path s2" and "sb s2 = sb s" and "fat s2 = fat s"
    and "\<And>i. i < FS_FILE_MAX_COUNT \<Longrightarrow> slot_file s2 i = slot_file s i"
    and "\<And>b. b \<noteq> 1 \<Longrightarrow> b \<noteq> 2 \<Longrightarrow> block_at (dev s2) b = block_at (dev s) b"
    and "all_closed s2" and "num_open_files s2 = num_open_files s"
proof -
  note ub = umount_dev_blocks [OF assms]
  from assms have m: "is_disk_mounted s" "fat_ok s" "files_ok s" "disk_ok (dev s)" "calm (dev s)"
    "num_fat_blocks (the_sb s) = 1" "root_index (the_sb s) = 2" "2 < blocks (dev s)"
    "length (open_files s) = FS_OPEN_MAX_COUNT" "0 \<le> host_next (host (dev s))"
    "parse_super_block (block_at (dev s) 0) = the_sb s"
    "2 * length (the_fat s) \<le> BLOCK_SIZE"
    by (simp_all add: mounted_on_def)
  have "length (root s) = FS_FILE_MAX_COUNT" using m(3) by (simp add: files_ok_def)
  from fs_umount_ok [OF m(1-5)] m(6-8) obtain s1 where s1: "fs_umount s = Inr (0, s1)"
    "\<not> is_disk_mounted s1" "disk_fd (disk (dev s1)) = INVALID_FD" "calm (dev s1)"
    "host_files (host (dev s1)) = host_files (host (umount_dev s))"
    "host_next (host (dev s1)) = host_next (host (umount_dev s))"
    "root s1 = root s" "open_files s1 = open_files s" "num_open_files s1 = num_open_files s"
    by auto
  let ?c = "disk_image (umount_dev s)"
  have mt: "mountable ?c" by (rule umount_dev_mountable [OF assms])
  have pre: "0 \<le> host_next (host (dev s1))" "host_files (host (dev s1)) path = Some ?c"
    "length (root s1) = FS_FILE_MAX_COUNT" "length (open_files s1) = FS_OPEN_MAX_COUNT"
    using s1 ub(6,7) m(9,10) \<open>length (root s) = _\<close> by simp_all
  from fs_mount_ok [OF s1(2-4) pre(1,2) mt pre(3,4)] obtain s2 where
    s2: "fs_mount (Some path) s1 = Inr (0, s2)" "holds_image path ?c s2" "num_open_files s2 = num_open_files s1" .
  from s2(2) have im: "is_disk_mounted s2" "sb s2 = Ptr (parse_super_block (content_block ?c 0))"
    "fat s2 = Ptr (fat_of_block (unat (num_data_blocks (the_sb s2))) (content_block ?c 1))"
    "files_ok s2" "\<And>i. i < FS_FILE_MAX_COUNT \<Longrightarrow> slot_file s2 i = dir_entry (content_block ?c 2) i"
    "all_closed s2" and hd: "holds_disk path ?c (dev s2)"
    by (simp_all add: holds_image_def)
  have sb: "sb s2 = sb s"
    using im(2) ub(5) [of 0] m(11) fat_okD(1) [OF m(2)] by (simp add: block_at_content)
  then have the_sb: "the_sb s2 = the_sb s" by (simp add: the_sb_def)
  have fat: "fat s2 = fat s"
    using im(3) ub(3) fat_of_fat_block_mem [OF m(12), of "junk s"] fat_okD(2,3) [OF m(2)] the_sb
    by (simp add: block_at_content)
  then have the_fat: "the_fat s2 = the_fat s" by (simp add: the_fat_def)
  have slots: "slot_file s2 i = slot_file s i" if "i < FS_FILE_MAX_COUNT" for i
    using im(5) [OF that] ub(4) dir_image_entry [OF m(3) that] by (simp add: block_at_content)
  have bl: "block_at (dev s2) b = block_at (umount_dev s) b" for b
    using hd by (simp add: block_at_content holds_disk_def)
  have n: "blocks (dev s2) = blocks (dev s)"
    using hd ub(1,2) by (simp add: holds_disk_def disk_ok_def)
  have mo: "mounted_on path s2"
    using assms hd im(1,4,6) sb fat the_sb the_fat slots bl ub(5) n
    by (simp add: mounted_on_def holds_disk_def fat_ok_def all_closed_def)
  show ?thesis
    by (rule that [OF s1(1) s2(1) mo sb fat slots _ im(6)]) (simp_all add: bl ub(5) s2(3) s1(9))
qed

section \<open>Mounts that fail\<close>

lemma fs_mount_mounted: "is_disk_mounted s \<Longrightarrow> fs_mount path s = Inr (-1, s)"
  by (simp add: fs_mount_def load_disk_def)

text \<open>
  After the disk has been opened the outcome is decided by the superblock and the table; in both
  failures the disk stays open and marked as mounted.
\<close>

lemma fs_mount_rejects:
  assumes "\<not> is_disk_mounted s" and "disk_fd (disk (dev s)) = INVALID_FD" and "calm (dev s)"
    and "0 \<le> host_next (host (dev s))" and "host_files (host (dev s)) path = Some c"
    and "length c mod BLOCK_SIZE = 0" and "BLOCK_SIZE < length c" and "length c div BLOCK_SIZE < 65536"
  defines "b \<equiv> parse_super_block (content_block c 0)"
  assumes "\<not> super_block_ok b (int (length c div BLOCK_SIZE)) \<or>
      num_fat_blocks b = 1 \<and> 0 < num_data_blocks b \<and> 2 * unat (num_data_blocks b) \<le> BLOCK_SIZE \<and>
      fat_of_block (unat (num_data_blocks b)) (content_block c 1) ! 0 \<noteq> FAT_EOC"
  shows "\<exists>s'. fs_mount (Some path) s = Inr (-1, s') \<and> is_disk_mounted s' \<and>
    disk_fd (disk (dev s')) \<noteq> INVALID_FD"
proof -
  have len: "length c = BLOCK_SIZE * (length c div BLOCK_SIZE)"
    using assms(6) by (metis add.right_neutral mult_div_mod_eq)
  then have "length c < 2 ^ 63" using assms(8) by (simp add: BLOCK_SIZE_def)
  from load_disk_ok [OF assms(1-6) this]
  obtain d where ld0: "load_disk (Some path) s = (0, s\<lparr>dev := d, is_disk_mounted := True\<rparr>)" and hd: "holds_disk path c d" .
  then have d: "disk_ok d" "calm d" "disk_image d = c" "blocks d = length c div BLOCK_SIZE" by (simp_all add: holds_disk_def)
  have nb: "1 < blocks d" using assms(7) len d(4) by (metis mult.right_neutral mult_less_cancel1)
  define s1 where "s1 = s\<lparr>dev := d, is_disk_mounted := True\<rparr>"
  have s1: "dev s1 = d" "is_disk_mounted s1" "s1\<lparr>dev := d\<rparr> = s1" "junk s1 = junk s" by (simp_all add: s1_def)
  have b0: "block_read 0 d = (0, content_block c 0, d)" "length (content_block c 0) = BLOCK_SIZE"
    using holds_disk_block [OF hd, of 0] nb d(4) by simp_all
  have count: "block_disk_count d = int (length c div BLOCK_SIZE)"
    using block_disk_count_ok [OF d(1)] d(4) assms(8) by simp
  have ov: "store_bytes (stack_buffer BLOCK_SIZE s1) 0 (content_block c 0) = Inr (content_block c 0)"
    using b0(2) by (simp add: store_bytes_ok overwrite_all)
  note ld = ld0 [folded s1_def]
  have ic: "calm (dev s1)" by (simp add: s1 d(2))
  note ls = load_superblock_result [OF b0(2) ic, unfolded s1(1) count, folded b_def]
  obtain r s2 where ls2: "load_superblock (Some (content_block c 0)) s1 = (r, s2)" by fastforce
  have s2: "dev s2 = d" "is_disk_mounted s2"
    using ls2 s1 ic unfolding load_superblock_def
    by (auto simp: Let_def split: if_splits prod.splits)
  show ?thesis
  proof (cases "super_block_ok b (int (length c div BLOCK_SIZE))")
    case False
    with ls(1) ls2 have "fs_mount (Some path) s = Inr (-1, s2)"
      by (simp add: fs_mount_def ld s1 b0(1) ov Let_def)
    with s2 d(1) show ?thesis by (simp add: disk_ok_def)
  next
    case True
    with assms(10) have t: "num_fat_blocks b = 1" "0 < num_data_blocks b"
      "2 * unat (num_data_blocks b) \<le> BLOCK_SIZE"
      "fat_of_block (unat (num_data_blocks b)) (content_block c 1) ! 0 \<noteq> FAT_EOC" by auto
    from ls(2) [OF True] ls2 have s2': "s2 = s1\<lparr>sb := Ptr b\<rparr>" "r = 0" by simp_all
    have lf: "load_fat s2 = Inr (-1, with_fat (fat_of_block (unat (num_data_blocks b)) (content_block c 1)) s2)"
      using load_fat_one_block [of s2 b] t d nb s2' s1 by (simp add: block_at_content)
    have "fs_mount (Some path) s = Inr (-1, with_fat (fat_of_block (unat (num_data_blocks b)) (content_block c 1)) s2)"
      by (simp add: fs_mount_def ld s1 b0(1) ov Let_def ls2 s2'(2) lf)
    with s2 d(1) show ?thesis by (simp add: disk_ok_def)
  qed
qed

text \<open>A disk file of one FAT block that is not \<open>mountable\<close> is rejected.\<close>

lemma fs_mount_unmountable:
  assumes "\<not> is_disk_mounted s" and "disk_fd (disk (dev s)) = INVALID_FD" and "calm (dev s)"
    and "0 \<le> host_next (host (dev s))" and "host_files (host (dev s)) path = Some c"
    and "length c mod BLOCK_SIZE = 0" and "2 < length c div BLOCK_SIZE" and "length c div BLOCK_SIZE < 65536"
  defines "b \<equiv> parse_super_block (content_block c 0)"
  assumes "num_fat_blocks b = 1" and "0 < num_data_blocks b" and "2 * unat (num_data_blocks b) \<le> BLOCK_SIZE"
    and "\<not> mountable c"
  shows "\<exists>s'. fs_mount (Some path) s = Inr (-1, s')"
proof -
  let ?F = "fat_of_block (unat (num_data_blocks b)) (content_block c 1)"
  have l: "BLOCK_SIZE < length c" using assms(7) by (simp add: BLOCK_SIZE_def)
  show ?thesis
  proof (cases "super_block_ok b (int (length c div BLOCK_SIZE)) \<and> ?F ! 0 = FAT_EOC")
    case False
    with fs_mount_rejects [OF assms(1-6) l assms(8)] assms(10-12) show ?thesis unfolding b_def by blast
  next
    case True
    then have "2 < num_blocks b" using assms(7) by (simp add: super_block_ok_def word_less_def)
    with True assms(6,10-13) have d: "\<not> dir_ok (content_block c 2)"
      by (auto simp: mountable_def b_def Let_def word_less_nat_alt)
    note sb = conjunct1 [OF True, unfolded b_def] and fat = conjunct2 [OF True, unfolded b_def]
    obtain d where hd: "holds_disk path c d" and mnt: "fs_mount (Some path) s =
        (case load_root_directory (content_block c 2) (with_fat ?F (s\<lparr>dev := d, is_disk_mounted := True, sb := Ptr b\<rparr>)) of
          (r, s) \<Rightarrow> Inr (if r \<noteq> 0 then (-1, s) else (0, s\<lparr>open_files := map (\<lambda>_. None) (open_files s)\<rparr>)))"
      by (rule fs_mount_directory [OF assms(1-8) sb assms(10-12) [unfolded b_def] fat, folded b_def])
    have "calm d" using hd by (simp add: holds_disk_def)
    then have "fst (load_root_directory (content_block c 2) (with_fat ?F (s\<lparr>dev := d, is_disk_mounted := True, sb := Ptr b\<rparr>))) = -1"
      by (intro load_root_directory_rejects d) simp
    with mnt show ?thesis by (auto split: prod.splits)
  qed
qed

text \<open>
  With two FAT blocks (2049 to 4096 data blocks) the second one is read at byte 8192 of the array; for
  fewer than 3072 data blocks the array ends before the block does.
\<close>

lemma load_fat_overflow:
  assumes "sb s = Ptr b" and "num_fat_blocks b = 2" and "2048 < unat (num_data_blocks b)"
    and "unat (num_data_blocks b) < 3072" and "disk_ok (dev s)" and "calm (dev s)" and "2 < blocks (dev s)"
  shows "load_fat s = Inl Out_of_bounds"
proof -
  let ?ndb = "unat (num_data_blocks b)"
  let ?s = "s\<lparr>fat := Ptr (u16s_of_mem (stack_buffer (2 * ?ndb) s))\<rparr>"
  let ?buf = "stack_buffer (2 * unat (fat_buf_size (num_data_blocks b))) ?s"
  have n: "length ?buf = 4 * ?ndb"
    using assms(3,4) by (simp add: fat_buf_size_def BLOCK_SIZE_def unat_of_nat unat_word_ariths)
  have d: "length (block_at (dev s) k) = BLOCK_SIZE" if "k < 3" for k
    by (rule length_block_at) (use assms that in auto)
  have st: "store_bytes ?buf 0 (block_at (dev s) (Suc 0)) = Inr (overwrite ?buf 0 (block_at (dev s) (Suc 0)))"
    using n d [of 1] assms(3) by (subst store_bytes_ok) (simp_all add: BLOCK_SIZE_def)
  have "store_bytes (overwrite ?buf 0 (block_at (dev s) (Suc 0))) (2 * BLOCK_SIZE) (block_at (dev s) 2) =
      Inl Out_of_bounds"
    using n d [of 1] d [of 2] assms(3,4) by (simp add: store_bytes_def BLOCK_SIZE_def)
  then have "read_fat_blocks 0 2 ?buf ?s = Inl Out_of_bounds"
    using assms st block_read_ok [OF assms(5,6), of 1] block_read_ok [OF assms(5,6), of 2]
    by (simp add: read_fat_blocks.simps [of 0] read_fat_blocks.simps [of "Suc 0"])
  with assms show ?thesis by (simp add: load_fat_def Let_def)
qed

end
