(* ===== verification/Directory.thy ===== *)
theory Directory
  imports Mount
begin

text \<open>
  The operations on the root directory, \<open>fs_create\<close>, \<open>fs_delete\<close>, \<open>fs_ls\<close> and \<open>fs_info\<close>, and the
  debugging aid \<open>printblock\<close>. The directory is read as a map from names to slots (\<open>catalog\<close>), which
  \<open>fs_create\<close> extends by one name and \<open>fs_delete\<close> shrinks by one.
\<close>

section \<open>Printing\<close>

definition printf :: "string \<Rightarrow> printf_arg list \<Rightarrow> fs \<Rightarrow> fs" where
  "printf format args s = s\<lparr>stdout := stdout s @ [(format, args)]\<rparr>"

definition newline :: string where
  "newline = [CHR 0x0A]"

text \<open>A backslash in a C literal, and the three bytes of the sign printed for a zero byte.\<close>

definition escaped :: "char \<Rightarrow> string" where
  "escaped c = [CHR ''<'', CHR 0x5C, c, CHR ''>'']"

definition empty_sign :: string where
  "empty_sign = [CHR 0xE2, CHR 0x88, CHR 0x85]"

definition print_byte :: "byte \<Rightarrow> fs \<Rightarrow> fs" where
  "print_byte b s =
     (if 32 \<le> b \<and> b \<le> 126 then printf ''%c'' [Chr b] s
      else if b = 0 then printf empty_sign [] s
      else if b = 10 then printf (escaped (CHR ''n'')) [] s
      else if b = 9 then printf (escaped (CHR ''t'')) [] s
      else if b = 13 then printf (escaped (CHR ''r'')) [] s
      else printf ''<%d>'' [Dec (uint b)] s)"

function print_bytes :: "nat \<Rightarrow> byte list \<Rightarrow> fs \<Rightarrow> fs res" where
  "print_bytes i block s =
     (if i < BLOCK_SIZE
      then bnd (fetch block i) (\<lambda>b. print_bytes (Suc i) block (print_byte b s))
      else Inr s)"
  by pat_completeness auto
termination
  by (relation "measure (\<lambda>(i, block, s). BLOCK_SIZE - i)") auto

declare print_bytes.simps [simp del]

definition printblock :: "byte list \<Rightarrow> fs \<Rightarrow> fs res" where
  "printblock block s =
     bnd (print_bytes 0 block s) (\<lambda>s. Inr (printf (newline @ newline) [] s))"

text \<open>The argument of \<open>%s\<close>: the array up to its first zero, which must be there.\<close>

definition c_string :: "byte list \<Rightarrow> byte list res" where
  "c_string mem = (if 0 \<in> set mem then Inr (c_text mem) else Inl Out_of_bounds)"

section \<open>fs\_info and fs\_ls\<close>

function count_hits :: "nat \<Rightarrow> nat \<Rightarrow> (nat \<Rightarrow> bool res) \<Rightarrow> int \<Rightarrow> int res" where
  "count_hits i n p c =
     (if i < n then bnd (p i) (\<lambda>hit. count_hits (Suc i) n p (if hit then c + 1 else c))
      else Inr c)"
  by pat_completeness auto
termination
  by (relation "measure (\<lambda>(i, n, p, c). n - i)") auto

declare count_hits.simps [simp del]

definition fs_info :: "fs \<Rightarrow> (int \<times> fs) res" where
  "fs_info s =
     (if \<not> is_disk_mounted s then Inr (-1, s)
      else
      let s = printf (''FS Info:'' @ newline) [] s;
          s = printf (''total_blk_count=%d'' @ newline) [Dec (block_disk_count (dev s))] s
      in bnd (deref (sb s)) (\<lambda>b.
      let s = printf (''fat_blk_count=%d'' @ newline) [Dec (uint (num_fat_blocks b))] s;
          s = printf (''rdir_blk=%d'' @ newline) [Dec (uint (root_index b))] s;
          s = printf (''data_blk=%d'' @ newline) [Dec (uint (data_start_index b))] s;
          s = printf (''data_blk_count=%d'' @ newline) [Dec (uint (num_data_blocks b))] s
      in bnd (count_hits 0 (unat (num_data_blocks b))
               (\<lambda>i. bnd (fat_get i s) (\<lambda>e. Inr (e = 0))) 0) (\<lambda>free_fat_entries.
      let s = printf (''fat_free_ratio=%d/%d'' @ newline)
                [Dec free_fat_entries, Dec (uint (num_data_blocks b))] s
      in bnd (count_hits 0 FS_FILE_MAX_COUNT
               (\<lambda>i. bnd (root_entry i s) (\<lambda>(a, f). bnd (fetch (filename f) 0) (\<lambda>c. Inr (c = 0)))) 0)
               (\<lambda>free_root_entries.
      Inr (0, printf (''rdir_free_ratio=%d/%d'' @ newline)
                [Dec free_root_entries, Dec (int FS_FILE_MAX_COUNT)] s)))))"

text \<open>The check for an unmounted disk has an empty body.\<close>

function ls_entries :: "nat \<Rightarrow> fs \<Rightarrow> fs res" where
  "ls_entries i s =
     (if i < FS_FILE_MAX_COUNT
      then bnd (root_entry i s) (\<lambda>(a, f).
           bnd (fetch (filename f) 0) (\<lambda>c.
             if c \<noteq> 0
             then bnd (c_string (filename f)) (\<lambda>name.
                    ls_entries (Suc i)
                      (printf (''file: %s, size: %d, data_blk: %d'' @ newline)
                        [Str name, Dec (to_int (file_size f)), Dec (uint (first_index f))] s))
             else ls_entries (Suc i) s))
      else Inr s)"
  by pat_completeness auto
termination
  by (relation "measure (\<lambda>(i, s). FS_FILE_MAX_COUNT - i)") auto

declare ls_entries.simps [simp del]

definition fs_ls :: "fs \<Rightarrow> (int \<times> fs) res" where
  "fs_ls s =
     bnd (ls_entries 0 (printf (''FS Ls:'' @ newline) [] s)) (\<lambda>s. Inr (0, s))"

section \<open>fs\_create and fs\_delete\<close>

definition fs_create :: "c_str \<Rightarrow> fs \<Rightarrow> (int \<times> fs) res" where
  "fs_create name s =
     (if \<not> is_disk_mounted s then Inr (-1, s)
      else if is_filename_invalid name then Inr (-1, s)
      else
      let n = the name in
      bnd (find_matching_filename n s) (\<lambda>match.
      if match \<noteq> -1 then Inr (-1, s)
      else
      bnd (find_empty_root_entry s) (\<lambda>empty_index.
      if empty_index = -1 then Inr (-1, s)
      else
      bnd (root_entry (nat empty_index) s) (\<lambda>(a, new_file).
      bnd (store_bytes (filename new_file) 0 (take (strlen n) (c_mem n))) (\<lambda>arr.
      bnd (store arr (strlen n) 0) (\<lambda>arr.
      Inr (0, set_file a
                (new_file\<lparr>filename := arr, file_size := 0, first_index := FAT_EOC\<rparr>) s)))))))"

definition is_file_open :: "byte list \<Rightarrow> fs \<Rightarrow> nat \<Rightarrow> bool res" where
  "is_file_open n s i =
     bnd (fetch (open_files s) i) (\<lambda>e.
       case e of
         None \<Rightarrow> Inr False
       | Some d \<Rightarrow>
           bnd (file_at (fd_file d) s) (\<lambda>(a, f).
           bnd (streq (filename f) (c_mem n)) (\<lambda>r. Inr (r = 0))))"

definition fs_delete :: "c_str \<Rightarrow> fs \<Rightarrow> (int \<times> fs) res" where
  "fs_delete name s =
     (if \<not> is_disk_mounted s then Inr (-1, s)
      else if is_filename_invalid name then Inr (-1, s)
      else
      let n = the name in
      bnd (find_matching_filename n s) (\<lambda>matching_file_index.
      if matching_file_index = -1 then Inr (-1, s)
      else
      bnd (find_first 0 FS_OPEN_MAX_COUNT (is_file_open n s)) (\<lambda>opened.
      if opened \<noteq> None then Inr (-1, s)
      else
      bnd (root_entry (nat matching_file_index) s) (\<lambda>(a, old_file).
      bnd (free_file_blocks (first_index old_file) s) (\<lambda>s.
      bnd (store (filename old_file) 0 0) (\<lambda>arr.
      Inr (0, set_file a
                (old_file\<lparr>filename := arr, file_size := 0, first_index := FAT_EOC\<rparr>) s)))))))"

section \<open>The directory as a map from names to slots\<close>

text \<open>
  \<open>catalog s\<close> finds the slot of a name; \<open>free_slot s\<close> is the first empty one. In a well-formed
  directory no two slots in use have the same name.
\<close>

definition catalog :: "fs \<Rightarrow> byte list \<rightharpoonup> nat" where
  "catalog s n = (if n = [] then None else List.find (\<lambda>i. slot_name s i = n) [0..<FS_FILE_MAX_COUNT])"

definition free_slot :: "fs \<Rightarrow> nat option" where
  "free_slot s = List.find (\<lambda>i. slot_name s i = []) [0..<FS_FILE_MAX_COUNT]"

definition names_distinct :: "fs \<Rightarrow> bool" where
  "names_distinct s \<longleftrightarrow>
     (\<forall>i < FS_FILE_MAX_COUNT. \<forall>j < FS_FILE_MAX_COUNT.
       slot_name s i = slot_name s j \<longrightarrow> slot_name s i \<noteq> [] \<longrightarrow> i = j)"

lemma names_distinctD:
  "names_distinct s \<Longrightarrow> slot_name s i = slot_name s j \<Longrightarrow> slot_name s i \<noteq> [] \<Longrightarrow>
    i < FS_FILE_MAX_COUNT \<Longrightarrow> j < FS_FILE_MAX_COUNT \<Longrightarrow> i = j"
  by (simp add: names_distinct_def)

lemma catalog_SomeD:
  "catalog s n = Some i \<Longrightarrow> i < FS_FILE_MAX_COUNT \<and> slot_name s i = n \<and> n \<noteq> []"
  by (auto simp: catalog_def find_upt_Some_iff split: if_splits)

lemma catalog_None_iff:
  "catalog s n = None \<longleftrightarrow> n = [] \<or> (\<forall>i < FS_FILE_MAX_COUNT. slot_name s i \<noteq> n)"
  by (auto simp: catalog_def find_upt_None_iff)

lemma catalog_eqI:
  assumes "names_distinct s" and "i < FS_FILE_MAX_COUNT" and "slot_name s i = n" and "n \<noteq> []"
  shows "catalog s n = Some i"
proof (cases "catalog s n")
  case None
  with assms show ?thesis by (auto simp: catalog_None_iff)
next
  case (Some j)
  from catalog_SomeD [OF this] have "j = i"
    by (intro names_distinctD [OF assms(1)]) (simp_all add: assms)
  with Some show ?thesis by simp
qed

lemma catalog_cong:
  "(\<And>i. i < FS_FILE_MAX_COUNT \<Longrightarrow> slot_name s' i = slot_name s i) \<Longrightarrow> catalog s' = catalog s"
  by (auto simp: catalog_def fun_eq_iff intro!: find_cong)

lemma catalog_iff:
  assumes "names_distinct s"
  shows "catalog s n = Some i \<longleftrightarrow> i < FS_FILE_MAX_COUNT \<and> slot_name s i = n \<and> n \<noteq> []"
  using catalog_SomeD catalog_eqI [OF assms] by blast

lemma free_slot_SomeD: "free_slot s = Some i \<Longrightarrow> i < FS_FILE_MAX_COUNT \<and> slot_name s i = []"
  by (auto simp: free_slot_def find_upt_Some_iff)

lemma valid_name_text: "valid_name n \<Longrightarrow> c_text n \<noteq> []"
  by (simp add: valid_name_iff)

lemma find_matching_catalog:
  "files_ok s \<Longrightarrow> valid_name n \<Longrightarrow> find_matching_filename n s = Inr (index_result (catalog s (c_text n)))"
  by (simp add: find_matching_filename_eq catalog_def valid_name_text)

lemma find_empty_free_slot:
  "files_ok s \<Longrightarrow> find_empty_root_entry s = Inr (index_result (free_slot s))"
  by (simp add: find_empty_root_entry_eq free_slot_def)

lemma slot_name_set_file:
  assumes "files_ok s" and "i < FS_FILE_MAX_COUNT" and "j < FS_FILE_MAX_COUNT"
  shows "slot_name (set_file (slot_addr s i) f s) j =
    (if j = i then c_text (filename f) else slot_name s j)"
  using slot_file_set_file(1) [OF assms] by (simp add: slot_name_def)

text \<open>Giving slot \<open>i\<close> the name \<open>n\<close>, which no other slot has, or no name.\<close>

lemma catalog_set_name:
  assumes "files_ok s" and "names_distinct s" and "i < FS_FILE_MAX_COUNT"
    and "c_text (filename f) = n" and "\<And>j. j < FS_FILE_MAX_COUNT \<Longrightarrow> j \<noteq> i \<Longrightarrow> n \<noteq> [] \<Longrightarrow> slot_name s j \<noteq> n"
  defines "s' \<equiv> set_file (slot_addr s i) f s"
  shows "names_distinct s'"
    and "catalog s' = (if n = [] then (catalog s)(slot_name s i := None)
      else ((catalog s)(slot_name s i := None))(n \<mapsto> i))"
proof -
  have nm: "slot_name s' j = (if j = i then n else slot_name s j)" if "j < FS_FILE_MAX_COUNT" for j
    using slot_name_set_file [OF assms(1,3) that] assms(4) by (simp add: s'_def)
  show nd: "names_distinct s'"
    unfolding names_distinct_def
  proof (intro allI impI)
    fix j k assume jk: "j < FS_FILE_MAX_COUNT" "k < FS_FILE_MAX_COUNT"
      "slot_name s' j = slot_name s' k" "slot_name s' j \<noteq> []"
    show "j = k"
    proof (cases "j = i \<or> k = i")
      case True
      with jk nm assms(5) show ?thesis by (metis (full_types))
    next
      case False
      with jk nm have "slot_name s j = slot_name s k" "slot_name s j \<noteq> []" by auto
      with jk(1,2) assms(2) show ?thesis unfolding names_distinct_def by blast
    qed
  qed
  have eq: "catalog s' m = Some k \<longleftrightarrow> k < FS_FILE_MAX_COUNT \<and> (if k = i then n else slot_name s k) = m \<and> m \<noteq> []"
    for m k using nm by (auto simp: catalog_iff [OF nd])
  show "catalog s' = (if n = [] then (catalog s)(slot_name s i := None)
      else ((catalog s)(slot_name s i := None))(n \<mapsto> i))"
  proof
    fix m
    have "catalog s' m = Some k \<longleftrightarrow> (if n = [] then (catalog s)(slot_name s i := None)
      else ((catalog s)(slot_name s i := None))(n \<mapsto> i)) m = Some k" for k
      using assms(3,5) names_distinctD [OF assms(2), of k i] unfolding eq
      by (auto simp: catalog_iff [OF assms(2)])
    then show "catalog s' m = (if n = [] then (catalog s)(slot_name s i := None)
      else ((catalog s)(slot_name s i := None))(n \<mapsto> i)) m"
      by (metis option.exhaust)
  qed
qed

section \<open>Creating\<close>

text \<open>The entry \<open>fs_create\<close> makes of an empty one, and the one \<open>fs_delete\<close> leaves.\<close>

definition new_entry :: "byte list \<Rightarrow> File \<Rightarrow> File" where
  "new_entry n f =
     f\<lparr>filename := c_text n @ 0 # drop (Suc (length (c_text n))) (filename f),
       file_size := 0, first_index := FAT_EOC\<rparr>"

definition emptied :: "File \<Rightarrow> File" where
  "emptied f = f\<lparr>filename := (filename f)[0 := 0], file_size := 0, first_index := FAT_EOC\<rparr>"

lemma take_strlen: "take (strlen n) (c_mem n) = c_text n"
  unfolding strlen_def c_text_c_mem [of n, symmetric] by (simp add: c_text_def takeWhile_eq_take [symmetric])

lemma c_text_append_zero: "0 \<notin> set t \<Longrightarrow> c_text (t @ 0 # rest) = t"
  by (induction t) (auto simp: c_text_Cons)

lemma new_entry_ok:
  assumes "valid_name n" and "file_ok f"
  shows "file_ok (new_entry n f)" and "c_text (filename (new_entry n f)) = c_text n"
    and "0 \<in> set (filename (new_entry n f))"
  using assms c_text_append_zero [OF c_text_no_zero, of n]
  by (simp_all add: new_entry_def file_ok_def valid_name_iff)

lemma emptied_ok:
  assumes "file_ok f"
  shows "file_ok (emptied f)" and "c_text (filename (emptied f)) = []"
  using assms by (cases "filename f"; simp add: emptied_def file_ok_def c_text_def FS_FILENAME_LEN_def)+

lemma fs_create_unmounted: "\<not> is_disk_mounted s \<Longrightarrow> fs_create name s = Inr (-1, s)"
  by (simp add: fs_create_def)

lemma fs_create_eq:
  assumes "is_disk_mounted s" and "files_ok s"
  shows "fs_create name s =
    Inr (case name of
        None \<Rightarrow> (-1, s)
      | Some n \<Rightarrow>
          if \<not> valid_name n then (-1, s)
          else case (catalog s (c_text n), free_slot s) of
            (None, Some i) \<Rightarrow> (0, set_file (slot_addr s i) (new_entry n (slot_file s i)) s)
          | _ \<Rightarrow> (-1, s))"
proof (cases name)
  case None
  with assms show ?thesis by (simp add: fs_create_def is_filename_invalid_def)
next
  case (Some n)
  show ?thesis
  proof (cases "valid_name n \<and> catalog s (c_text n) = None \<and> free_slot s \<noteq> None")
    case True
    then obtain i where n: "valid_name n" "catalog s (c_text n) = None" "free_slot s = Some i" by auto
    from free_slot_SomeD [OF n(3)] have i: "i < FS_FILE_MAX_COUNT" by simp
    note f = files_ok_slot(3) [OF assms(2) i]
    have "store_bytes (filename (slot_file s i)) 0 (c_text n) =
        Inr (overwrite (filename (slot_file s i)) 0 (c_text n))"
      using n(1) f by (intro store_bytes_ok) (simp add: valid_name_iff file_ok_def)
    moreover have "store (overwrite (filename (slot_file s i)) 0 (c_text n)) (strlen n) 0 =
        Inr (c_text n @ 0 # drop (Suc (length (c_text n))) (filename (slot_file s i)))"
      using n(1) f
      by (subst store_ok) (simp_all add: strlen_eq valid_name_iff file_ok_def overwrite_def
          list_update_append Cons_nth_drop_Suc [symmetric])
    ultimately show ?thesis
      using n i assms Some
      by (simp add: fs_create_def valid_name_def find_matching_catalog find_empty_free_slot
          root_entry_ok take_strlen new_entry_def)
  next
    case False
    with assms Some show ?thesis
      by (auto simp: fs_create_def find_matching_catalog find_empty_free_slot
          split: option.splits) (simp_all add: valid_name_def)
  qed
qed

section \<open>Deleting\<close>

text \<open>\<open>is_open s i\<close>: some descriptor points to the file of slot \<open>i\<close>.\<close>

definition is_open :: "fs \<Rightarrow> nat \<Rightarrow> bool" where
  "is_open s i \<longleftrightarrow> (\<exists>d. Some d \<in> set (open_files s) \<and> fd_file d = Some (slot_addr s i))"

lemma is_file_open_eq:
  assumes "files_ok s" and "slots_ok s" and "valid_name n" and "k < FS_OPEN_MAX_COUNT"
  shows "is_file_open n s k = Inr (\<exists>i < FS_FILE_MAX_COUNT. \<exists>d. open_files s ! k = Some d \<and>
    fd_file d = Some (slot_addr s i) \<and> slot_name s i = c_text n)"
proof (cases "open_files s ! k")
  case None
  with assms show ?thesis by (simp add: is_file_open_def fetch_def slots_ok_def)
next
  case (Some d)
  then obtain i where i: "i < FS_FILE_MAX_COUNT" "fd_file d = Some (slot_addr s i)"
    using slots_ok_entry [OF assms(1,2,4)] by blast
  note f = files_ok_slot [OF assms(1) i(1)]
  have "streq (filename (slot_file s i)) (c_mem n) = Inr (if slot_name s i = c_text n then 0 else -1)"
    using streq_valid [OF assms(3), of "filename (slot_file s i)"] f(3)
    by (simp add: file_ok_def slot_name_def)
  then have "is_file_open n s k = Inr (slot_name s i = c_text n)"
    using Some i f(2) assms(2,4) by (simp add: is_file_open_def fetch_def slots_ok_def file_at_def)
  moreover have "(\<exists>j < FS_FILE_MAX_COUNT. \<exists>d. open_files s ! k = Some d \<and>
      fd_file d = Some (slot_addr s j) \<and> slot_name s j = c_text n) \<longleftrightarrow> slot_name s i = c_text n"
    using Some i slot_addr_inject [OF assms(1) i(1)] by auto
  ultimately show ?thesis by simp
qed

lemma find_open_file:
  assumes "files_ok s" and "slots_ok s" and "names_distinct s" and "valid_name n"
    and "catalog s (c_text n) = Some i"
  shows "\<exists>r. find_first 0 FS_OPEN_MAX_COUNT (is_file_open n s) = Inr r \<and> (r \<noteq> None \<longleftrightarrow> is_open s i)"
proof -
  let ?P = "\<lambda>k. \<exists>i < FS_FILE_MAX_COUNT. \<exists>d. open_files s ! k = Some d \<and>
    fd_file d = Some (slot_addr s i) \<and> slot_name s i = c_text n"
  from catalog_SomeD [OF assms(5)] have i: "i < FS_FILE_MAX_COUNT" "slot_name s i = c_text n"
    "c_text n \<noteq> []" by auto
  have l: "length (open_files s) = FS_OPEN_MAX_COUNT" using assms(2) by (simp add: slots_ok_def)
  have "find_first 0 FS_OPEN_MAX_COUNT (is_file_open n s) = Inr (List.find ?P [0..<FS_OPEN_MAX_COUNT])"
    by (rule find_first_pure) (simp add: is_file_open_eq [OF assms(1,2,4)])
  moreover have "List.find ?P [0..<FS_OPEN_MAX_COUNT] \<noteq> None \<longleftrightarrow> is_open s i"
  proof
    assume "List.find ?P [0..<FS_OPEN_MAX_COUNT] \<noteq> None"
    then obtain k j d where k: "k < FS_OPEN_MAX_COUNT" "j < FS_FILE_MAX_COUNT"
      "open_files s ! k = Some d" "fd_file d = Some (slot_addr s j)" "slot_name s j = c_text n"
      by (auto simp: find_upt_Some_iff)
    then have "j = i" using names_distinctD [OF assms(3), of j i] i by simp
    moreover have "Some d \<in> set (open_files s)" using k(1,3) l by (metis nth_mem)
    ultimately show "is_open s i" using k(4) by (auto simp: is_open_def)
  next
    assume "is_open s i"
    then obtain k d where "k < FS_OPEN_MAX_COUNT" "open_files s ! k = Some d"
      "fd_file d = Some (slot_addr s i)"
      using l by (auto simp: is_open_def in_set_conv_nth)
    then have "?P k" using i by blast
    with \<open>k < _\<close> show "List.find ?P [0..<FS_OPEN_MAX_COUNT] \<noteq> None"
      unfolding find_upt_None_iff by blast
  qed
  ultimately show ?thesis by blast
qed


lemma fs_delete_eq:
  assumes "is_disk_mounted s" and "files_ok s" and "slots_ok s" and "names_distinct s"
  shows "fs_delete name s =
    (case name of
       None \<Rightarrow> Inr (-1, s)
     | Some n \<Rightarrow>
         if \<not> valid_name n then Inr (-1, s)
         else case catalog s (c_text n) of
           None \<Rightarrow> Inr (-1, s)
         | Some i \<Rightarrow>
             if is_open s i then Inr (-1, s)
             else bnd (free_file_blocks (first_index (slot_file s i)) s) (\<lambda>s'.
                    Inr (0, set_file (slot_addr s i) (emptied (slot_file s i)) s')))"
proof (cases name)
  case None
  with assms show ?thesis by (simp add: fs_delete_def is_filename_invalid_def)
next
  case (Some n)
  show ?thesis
  proof (cases "valid_name n \<and> catalog s (c_text n) \<noteq> None")
    case True
    then obtain i where n: "valid_name n" "catalog s (c_text n) = Some i" by auto
    from catalog_SomeD [OF n(2)] have i: "i < FS_FILE_MAX_COUNT" by simp
    from files_ok_slot(3) [OF assms(2) i] have "0 < length (filename (slot_file s i))"
      by (simp add: file_ok_def FS_FILENAME_LEN_def)
    with n i assms Some find_open_file [OF assms(2-4) n] show ?thesis
      by (auto simp: fs_delete_def valid_name_def find_matching_catalog root_entry_ok store_ok
          emptied_def)
  next
    case False
    with assms Some show ?thesis
      by (auto simp: fs_delete_def find_matching_catalog split: option.splits)
        (simp_all add: valid_name_def)
  qed
qed

text \<open>
  What deleting does to the directory: the name disappears and no other name changes. What it does to
  the table depends on the chain (theory \<open>Fat\<close>).
\<close>

lemma free_file_blocks_with_fat:
  assumes "fat_ok s" and "chain (the_fat s) b xs" and "the_fat s ! 0 = FAT_EOC"
  shows "free_file_blocks b s = Inr (with_fat
    (case xs of
       [] \<Rightarrow> the_fat s
     | [x] \<Rightarrow> (the_fat s)[unat x := 0]
     | x # _ \<Rightarrow> (the_fat s)[unat x := 0, 0 := 0]) s)"
proof (cases xs)
  case Nil
  with assms show ?thesis by (simp add: with_fat_same)
next
  case (Cons x ys)
  with assms(2) have "b = x" by simp
  show ?thesis
  proof (cases ys)
    case Nil
    with Cons assms \<open>b = x\<close> show ?thesis by (simp add: free_file_blocks_single)
  next
    case (Cons z zs)
    with \<open>xs = _\<close> have xs: "xs = x # z # zs" by simp
    from free_file_blocks_longer [OF assms(1) assms(2) [unfolded xs] assms(3)] show ?thesis
      by (simp add: xs \<open>b = x\<close>)
  qed
qed

lemma slot_with_fat [simp]:
  "slot_addr (with_fat F s) i = slot_addr s i"
  "slot_file (with_fat F s) i = slot_file s i"
  "slot_name (with_fat F s) i = slot_name s i"
  "files_ok (with_fat F s) = files_ok s"
  "slots_ok (with_fat F s) = slots_ok s"
  by (simp_all add: slot_addr_def slot_file_def slot_name_def files_ok_def slots_ok_def)

lemma catalog_with_fat [simp]:
  "catalog (with_fat F s) = catalog s"
  "names_distinct (with_fat F s) = names_distinct s"
  by (simp_all add: catalog_def names_distinct_def fun_eq_iff)

section \<open>Listing\<close>

definition ls_line :: "File \<Rightarrow> printed" where
  "ls_line f =
     (''file: %s, size: %d, data_blk: %d'' @ newline,
      [Str (c_text (filename f)), Dec (to_int (file_size f)), Dec (uint (first_index f))])"

definition used_slots :: "fs \<Rightarrow> nat list" where
  "used_slots s = filter (\<lambda>i. slot_name s i \<noteq> []) [0..<FS_FILE_MAX_COUNT]"

text \<open>Names that end inside their arrays, as the ones \<open>fs_create\<close> stores do.\<close>

definition names_terminated :: "fs \<Rightarrow> bool" where
  "names_terminated s \<longleftrightarrow> (\<forall>i < FS_FILE_MAX_COUNT. 0 \<in> set (filename (slot_file s i)))"

lemma slot_stdout [simp]:
  "slot_addr (s\<lparr>stdout := out\<rparr>) i = slot_addr s i"
  "slot_file (s\<lparr>stdout := out\<rparr>) i = slot_file s i"
  "slot_name (s\<lparr>stdout := out\<rparr>) i = slot_name s i"
  "files_ok (s\<lparr>stdout := out\<rparr>) = files_ok s"
  "fat_ok (s\<lparr>stdout := out\<rparr>) = fat_ok s"
  "the_fat (s\<lparr>stdout := out\<rparr>) = the_fat s"
  "the_sb (s\<lparr>stdout := out\<rparr>) = the_sb s"
  by (simp_all add: slot_addr_def slot_file_def slot_name_def files_ok_def fat_ok_def the_fat_def the_sb_def)

lemma ls_entries_eq:
  assumes "files_ok s" and "names_terminated s" and "i + k = FS_FILE_MAX_COUNT"
  shows "ls_entries i s = Inr (s\<lparr>stdout := stdout s @
    map (\<lambda>i. ls_line (slot_file s i)) (filter (\<lambda>i. slot_name s i \<noteq> []) [i..<FS_FILE_MAX_COUNT])\<rparr>)"
  using assms
proof (induction k arbitrary: i s)
  case 0
  then show ?case by (subst ls_entries.simps) simp
next
  case (Suc k)
  then have i: "i < FS_FILE_MAX_COUNT" by simp
  note f = files_ok_slot(3) [OF Suc.prems(1) i]
  have e: "root_entry i s = Inr (slot_addr s i, slot_file s i)"
    "fetch (filename (slot_file s i)) 0 = Inr (filename (slot_file s i) ! 0)"
    "c_string (filename (slot_file s i)) = Inr (slot_name s i)"
    using Suc.prems(1,2) i f file_ok_filename [OF f]
    by (simp_all add: root_entry_ok fetch_def c_string_def names_terminated_def slot_name_def)
  define s1 where "s1 = s\<lparr>stdout := stdout s @ [ls_line (slot_file s i)]\<rparr>"
  have pr: "printf (''file: %s, size: %d, data_blk: %d'' @ newline)
      [Str (slot_name s i), Dec (to_int (file_size (slot_file s i))),
       Dec (uint (first_index (slot_file s i)))] s = s1"
    by (simp add: printf_def ls_line_def slot_name_def s1_def)
  have s1: "files_ok s1" "names_terminated s1" "slot_name s1 j = slot_name s j"
    "slot_file s1 j = slot_file s j" for j
    using Suc.prems(1,2) by (simp_all add: s1_def names_terminated_def)
  have "ls_entries (Suc i) s1 = Inr (s1\<lparr>stdout := stdout s1 @ map (\<lambda>i. ls_line (slot_file s i))
      (filter (\<lambda>i. slot_name s i \<noteq> []) [Suc i..<FS_FILE_MAX_COUNT])\<rparr>)"
    using Suc.IH [OF s1(1,2), of "Suc i"] Suc.prems(3) s1(3,4) by simp
  then have "ls_entries (Suc i) s1 = Inr (s\<lparr>stdout := stdout s @ ls_line (slot_file s i) #
      map (\<lambda>i. ls_line (slot_file s i)) (filter (\<lambda>i. slot_name s i \<noteq> []) [Suc i..<FS_FILE_MAX_COUNT])\<rparr>)"
    by (simp add: s1_def)
  moreover note Suc.IH [OF Suc.prems(1,2), of "Suc i"]
  ultimately show ?case
    using i Suc.prems(3)
    by (subst ls_entries.simps)
      (simp add: e pr slot_name_Nil_iff [OF Suc.prems(1) i] upt_conv_Cons del: append.simps)
qed

lemma fs_ls_eq:
  assumes "files_ok s" and "names_terminated s"
  shows "fs_ls s = Inr (0, s\<lparr>stdout := stdout s @ (''FS Ls:'' @ newline, []) #
    map (\<lambda>i. ls_line (slot_file s i)) (used_slots s)\<rparr>)"
proof -
  let ?s = "printf (''FS Ls:'' @ newline) [] s"
  have s': "files_ok ?s" "names_terminated ?s"
    using assms by (simp_all add: printf_def names_terminated_def)
  show ?thesis
    using ls_entries_eq [OF s', of 0 FS_FILE_MAX_COUNT]
    by (simp add: fs_ls_def used_slots_def) (simp add: printf_def)
qed

section \<open>The counts of fs\_info\<close>

lemma count_hits_pure:
  assumes "\<And>j. i \<le> j \<Longrightarrow> j < n \<Longrightarrow> p j = Inr (P j)"
  shows "count_hits i n p c = Inr (c + int (length (filter P [i..<n])))"
  using assms
proof (induction i n p c rule: count_hits.induct)
  case (1 i n p c)
  show ?case
  proof (cases "i < n")
    case True
    with "1.prems" have p: "p i = Inr (P i)" by simp
    have "count_hits (Suc i) n p (if P i then c + 1 else c) =
        Inr ((if P i then c + 1 else c) + int (length (filter P [Suc i..<n])))"
      by (rule "1.IH" [OF True p]) (use "1.prems" in simp)
    with p True show ?thesis by (simp add: count_hits.simps [of i] upt_conv_Cons)
  next
    case False
    then show ?thesis by (simp add: count_hits.simps [of i])
  qed
qed

definition info_lines :: "fs \<Rightarrow> printed list" where
  "info_lines s =
     (let b = the_sb s in
       [(''FS Info:'' @ newline, []),
        (''total_blk_count=%d'' @ newline, [Dec (block_disk_count (dev s))]),
        (''fat_blk_count=%d'' @ newline, [Dec (uint (num_fat_blocks b))]),
        (''rdir_blk=%d'' @ newline, [Dec (uint (root_index b))]),
        (''data_blk=%d'' @ newline, [Dec (uint (data_start_index b))]),
        (''data_blk_count=%d'' @ newline, [Dec (uint (num_data_blocks b))]),
        (''fat_free_ratio=%d/%d'' @ newline,
          [Dec (int (length (filter (\<lambda>e. e = 0) (the_fat s)))), Dec (uint (num_data_blocks b))]),
        (''rdir_free_ratio=%d/%d'' @ newline,
          [Dec (int FS_FILE_MAX_COUNT - int (length (used_slots s))), Dec (int FS_FILE_MAX_COUNT)])])"

lemma length_filter_nth: "length (filter (\<lambda>i. P (xs ! i)) [0..<length xs]) = length (filter P xs)"
proof -
  have "filter P (map (\<lambda>i. xs ! i) [0..<length xs]) = map (\<lambda>i. xs ! i) (filter (\<lambda>i. P (xs ! i)) [0..<length xs])"
    by (simp add: filter_map comp_def)
  then show ?thesis by (metis length_map map_nth)
qed

lemma fs_info_eq:
  assumes "is_disk_mounted s" and "fat_ok s" and "files_ok s"
  shows "fs_info s = Inr (0, s\<lparr>stdout := stdout s @ info_lines s\<rparr>)"
proof -
  have f: "count_hits 0 (unat (num_data_blocks (the_sb s))) (\<lambda>i. bnd (fat_get i (s\<lparr>stdout := out\<rparr>)) (\<lambda>e. Inr (e = 0))) 0 =
      Inr (int (length (filter (\<lambda>e. e = 0) (the_fat s))))" for out
    using assms(2) fat_okD(3) [OF assms(2)] length_filter_nth [of "\<lambda>e. e = 0" "the_fat s"]
    by (subst count_hits_pure [where P = "\<lambda>i. the_fat s ! i = 0"]) (simp_all add: fat_get_ok)
  have r: "count_hits 0 FS_FILE_MAX_COUNT (\<lambda>i. bnd (root_entry i (s\<lparr>stdout := out\<rparr>))
        (\<lambda>(a, f). bnd (fetch (filename f) 0) (\<lambda>c. Inr (c = 0)))) 0 =
      Inr (int FS_FILE_MAX_COUNT - int (length (used_slots s)))" for out
  proof -
    have "count_hits 0 FS_FILE_MAX_COUNT (\<lambda>i. bnd (root_entry i (s\<lparr>stdout := out\<rparr>))
        (\<lambda>(a, f). bnd (fetch (filename f) 0) (\<lambda>c. Inr (c = 0)))) 0 =
      Inr (0 + int (length (filter (\<lambda>i. slot_name s i = []) [0..<FS_FILE_MAX_COUNT])))"
      by (rule count_hits_pure)
        (use assms(3) files_ok_slot(3) [OF assms(3)] in
          \<open>simp add: root_entry_ok slot_name_Nil_iff file_ok_filename fetch_def\<close>)
    then show ?thesis
      using sum_length_filter_compl [of "\<lambda>i. slot_name s i = []" "[0..<FS_FILE_MAX_COUNT]"]
      by (simp add: used_slots_def)
  qed
  show ?thesis
    using assms(1) fat_okD(1) [OF assms(2)]
    by (simp add: fs_info_def printf_def f r info_lines_def Let_def)
qed

section \<open>Listing without a disk\<close>

lemma root_entry_printf [simp]: "root_entry i (printf fmt args s) = root_entry i s"
  by (simp add: root_entry_def file_at_def printf_def cong: option.case_cong)

lemma fs_ls_fault: "root_entry 0 s = Inl x \<Longrightarrow> fs_ls s = Inl x"
  by (simp add: fs_ls_def ls_entries.simps FS_FILE_MAX_COUNT_def)

end
