(* ===== verification/Descriptors.thy ===== *)
theory Descriptors
  imports Directory
begin

text \<open>
  The open-file table: \<open>add_file_to_fd_array\<close>, \<open>fs_open\<close>, \<open>fs_close\<close>, \<open>fs_stat\<close> and \<open>fs_lseek\<close>.
  The table has 32 entries, but the range check of the last three (and of \<open>fs_read\<close> and \<open>fs_write\<close>)
  is against \<open>FS_FILE_MAX_COUNT\<close>, which is 128: between the two, \<open>open_files[fd]\<close> is out of bounds.
\<close>

section \<open>The functions of fs.c\<close>

definition add_file_to_fd_array :: "addr option \<Rightarrow> fs \<Rightarrow> (int \<times> fs) res" where
  "add_file_to_fd_array file s =
     (if unat (num_open_files s) > FS_OPEN_MAX_COUNT then Inr (-1, s)
      else case malloc s of (allocated, s) \<Rightarrow>
        if \<not> allocated then Inr (-1, s)
        else
        bnd (find_first 0 FS_OPEN_MAX_COUNT
               (\<lambda>i. bnd (fetch (open_files s) i) (\<lambda>e. Inr (e = None)))) (\<lambda>r.
          case r of
            None \<Rightarrow> Inr (-1, s)
          | Some i \<Rightarrow>
              let s = set_fd_entry i (Some \<lparr>fd_file = file, fd_offset = 0\<rparr>) s
              in Inr (int i, s\<lparr>num_open_files := num_open_files s + 1\<rparr>)))"

definition fs_open :: "c_str \<Rightarrow> fs \<Rightarrow> (int \<times> fs) res" where
  "fs_open name s =
     (if \<not> is_disk_mounted s then Inr (-1, s)
      else if is_filename_invalid name then Inr (-1, s)
      else
      bnd (find_matching_filename (the name) s) (\<lambda>file_index.
      if file_index = -1 then Inr (-1, s)
      else
      bnd (fetch (root s) (nat file_index)) (\<lambda>p.
      bnd (add_file_to_fd_array p s) (\<lambda>(fd, s).
      if fd = -1 then Inr (-1, s) else Inr (fd, s)))))"

text \<open>
  The checks the five functions with a descriptor argument start with: a disk is mounted, the number
  is in range, the entry is not NULL. True is the answer that makes them return \<open>-1\<close>.
\<close>

definition fd_rejected :: "int \<Rightarrow> fs \<Rightarrow> bool res" where
  "fd_rejected fd s =
     (if \<not> is_disk_mounted s then Inr True
      else if fd < 0 \<or> fd \<ge> int FS_FILE_MAX_COUNT then Inr True
      else bnd (fetch (open_files s) (nat fd)) (\<lambda>e. Inr (e = None)))"

definition fs_close :: "int \<Rightarrow> fs \<Rightarrow> (int \<times> fs) res" where
  "fs_close fd s =
     bnd (fd_rejected fd s) (\<lambda>rejected.
       if rejected then Inr (-1, s)
       else
       let s = set_fd_entry (nat fd) None s
       in Inr (0, s\<lparr>num_open_files := num_open_files s - 1\<rparr>))"

definition fs_stat :: "int \<Rightarrow> fs \<Rightarrow> int res" where
  "fs_stat fd s =
     bnd (fd_rejected fd s) (\<lambda>rejected.
       if rejected then Inr (-1)
       else bnd (opened_file (nat fd) s) (\<lambda>(a, f). Inr (to_int (file_size f))))"

text \<open>The \<open>size_t\<close> offset is compared at 64 bits and stored at 16.\<close>

definition fs_lseek :: "int \<Rightarrow> u64 \<Rightarrow> fs \<Rightarrow> (int \<times> fs) res" where
  "fs_lseek fd offset s =
     bnd (fd_rejected fd s) (\<lambda>rejected.
       if rejected then Inr (-1, s)
       else
       bnd (opened_file (nat fd) s) (\<lambda>(a, f).
       if offset > ucast (file_size f) then Inr (-1, s)
       else
       bnd (fd_entry (nat fd) s) (\<lambda>d.
       Inr (0, set_fd_entry (nat fd) (Some (d\<lparr>fd_offset := ucast offset\<rparr>)) s))))"

section \<open>Open descriptors\<close>

text \<open>
  \<open>fd_slot s fd\<close>: the root slot whose file descriptor \<open>fd\<close> points to; \<open>count_ok\<close>: \<open>num_open_files\<close> is
  the number of entries in use.
\<close>

definition open_fd :: "fs \<Rightarrow> int \<Rightarrow> bool" where
  "open_fd s fd \<longleftrightarrow> 0 \<le> fd \<and> fd < int FS_OPEN_MAX_COUNT \<and> open_files s ! nat fd \<noteq> None"

definition the_fd :: "fs \<Rightarrow> int \<Rightarrow> FileDescriptor" where
  "the_fd s fd = the (open_files s ! nat fd)"

definition fd_slot :: "fs \<Rightarrow> int \<Rightarrow> nat option" where
  "fd_slot s fd = List.find (\<lambda>i. root s ! i = fd_file (the_fd s fd)) [0..<FS_FILE_MAX_COUNT]"

definition used_fds :: "fs \<Rightarrow> nat" where
  "used_fds s = length (filter (\<lambda>e. e \<noteq> None) (open_files s))"

definition count_ok :: "fs \<Rightarrow> bool" where
  "count_ok s \<longleftrightarrow> unat (num_open_files s) = used_fds s"

definition free_fd :: "fs \<Rightarrow> nat option" where
  "free_fd s = List.find (\<lambda>k. open_files s ! k = None) [0..<FS_OPEN_MAX_COUNT]"

lemma fd_rejected_eq:
  assumes "length (open_files s) = FS_OPEN_MAX_COUNT" and "is_disk_mounted s"
  shows "fd_rejected fd s =
    (if int FS_OPEN_MAX_COUNT \<le> fd \<and> fd < int FS_FILE_MAX_COUNT then Inl Out_of_bounds
     else Inr (\<not> open_fd s fd))"
proof (cases "0 \<le> fd \<and> fd < int FS_OPEN_MAX_COUNT")
  case True
  then have "nat fd < length (open_files s)" using assms(1) by linarith
  with True assms show ?thesis
    by (auto simp: fd_rejected_def open_fd_def fetch_def fs_sizes)
next
  case False
  then have "\<not> open_fd s fd" by (auto simp: open_fd_def)
  with False assms show ?thesis
    by (auto simp: fd_rejected_def fetch_def fs_sizes)
qed

lemma fd_rejected_unmounted [simp]: "\<not> is_disk_mounted s \<Longrightarrow> fd_rejected fd s = Inr True"
  by (simp add: fd_rejected_def)

text \<open>An open descriptor in a well-formed state: where it points, and what the accesses return.\<close>

lemma open_fdE:
  assumes "files_ok s" and "slots_ok s" and "open_fd s fd"
  obtains i where "i < FS_FILE_MAX_COUNT" and "fd_slot s fd = Some i"
    and "fd_entry (nat fd) s = Inr (the_fd s fd)"
    and "fd_file (the_fd s fd) = Some (slot_addr s i)"
    and "opened_file (nat fd) s = Inr (slot_addr s i, slot_file s i)"
    and "open_files s ! nat fd = Some (the_fd s fd)"
proof -
  from assms(3) have fd: "nat fd < FS_OPEN_MAX_COUNT" "open_files s ! nat fd = Some (the_fd s fd)"
    by (auto simp: open_fd_def the_fd_def)
  from slots_ok_entry [OF assms(1,2) fd] obtain i where i: "i < FS_FILE_MAX_COUNT"
    "fd_file (the_fd s fd) = Some (slot_addr s i)" "fd_entry (nat fd) s = Inr (the_fd s fd)"
    "opened_file (nat fd) s = Inr (slot_addr s i, slot_file s i)" by blast
  have "fd_slot s fd = Some i"
    unfolding fd_slot_def find_upt_Some_iff
    using i(1,2) files_ok_slot(1) [OF assms(1)] slot_addr_inject [OF assms(1)] by auto
  with i fd(2) that show ?thesis by blast
qed

lemma fd_rejected_open:
  assumes "slots_ok s" and "is_disk_mounted s" and "open_fd s fd"
  shows "fd_rejected fd s = Inr False"
  using assms fd_rejected_eq [of s fd] by (auto simp: slots_ok_def open_fd_def)

section \<open>Opening and closing\<close>

definition opened :: "nat \<Rightarrow> nat \<Rightarrow> fs \<Rightarrow> fs" where
  "opened k i s =
     (set_fd_entry k (Some \<lparr>fd_file = Some (slot_addr s i), fd_offset = 0\<rparr>) s)
       \<lparr>num_open_files := num_open_files s + 1\<rparr>"

definition closed :: "int \<Rightarrow> fs \<Rightarrow> fs" where
  "closed fd s = (set_fd_entry (nat fd) None s)\<lparr>num_open_files := num_open_files s - 1\<rparr>"

lemma used_fds_le: "length (open_files s) = FS_OPEN_MAX_COUNT \<Longrightarrow> used_fds s \<le> FS_OPEN_MAX_COUNT"
  unfolding used_fds_def by (metis length_filter_le)

lemma free_fd_SomeD:
  "free_fd s = Some k \<Longrightarrow> k < FS_OPEN_MAX_COUNT \<and> open_files s ! k = None \<and>
    (\<forall>j < k. open_files s ! j \<noteq> None)"
  by (auto simp: free_fd_def find_upt_Some_iff)

lemma free_fd_None_iff:
  assumes "length (open_files s) = FS_OPEN_MAX_COUNT"
  shows "free_fd s = None \<longleftrightarrow> used_fds s = FS_OPEN_MAX_COUNT"
proof -
  have "free_fd s = None \<longleftrightarrow> (\<forall>k < length (open_files s). open_files s ! k \<noteq> None)"
    using assms by (auto simp: free_fd_def find_upt_None_iff)
  also have "\<dots> \<longleftrightarrow> (\<forall>e \<in> set (open_files s). e \<noteq> None)"
    by (auto simp: all_set_conv_all_nth)
  also have "\<dots> \<longleftrightarrow> used_fds s = length (open_files s)"
    unfolding used_fds_def using filter_id_conv [of "\<lambda>e. e \<noteq> None" "open_files s"]
    by (metis filter_True length_filter_less less_irrefl)
  finally show ?thesis using assms by simp
qed

lemma add_file_to_fd_array_eq:
  assumes "length (open_files s) = FS_OPEN_MAX_COUNT" and "calm (dev s)"
    and "unat (num_open_files s) \<le> FS_OPEN_MAX_COUNT"
  shows "add_file_to_fd_array p s =
    Inr (case free_fd s of
        None \<Rightarrow> (-1, s)
      | Some k \<Rightarrow> (int k, (set_fd_entry k (Some \<lparr>fd_file = p, fd_offset = 0\<rparr>) s)
            \<lparr>num_open_files := num_open_files s + 1\<rparr>))"
proof -
  have "find_first 0 FS_OPEN_MAX_COUNT (\<lambda>i. bnd (fetch (open_files s) i) (\<lambda>e. Inr (e = None))) =
      Inr (free_fd s)"
    unfolding free_fd_def by (rule find_first_pure) (simp add: assms(1) fetch_def)
  with assms show ?thesis
    by (auto simp: add_file_to_fd_array_def Let_def split: option.split)
qed

lemma fs_open_eq:
  assumes "is_disk_mounted s" and "files_ok s" and "slots_ok s" and "calm (dev s)"
    and "unat (num_open_files s) \<le> FS_OPEN_MAX_COUNT"
  shows "fs_open name s =
    Inr (case name of
        None \<Rightarrow> (-1, s)
      | Some n \<Rightarrow>
          if \<not> valid_name n then (-1, s)
          else case (catalog s (c_text n), free_fd s) of
            (Some i, Some k) \<Rightarrow> (int k, opened k i s)
          | _ \<Rightarrow> (-1, s))"
proof (cases name)
  case None
  with assms show ?thesis by (simp add: fs_open_def is_filename_invalid_def)
next
  case (Some n)
  have l: "length (open_files s) = FS_OPEN_MAX_COUNT" using assms(3) by (simp add: slots_ok_def)
  show ?thesis
  proof (cases "valid_name n \<and> catalog s (c_text n) \<noteq> None")
    case True
    then obtain i where n: "valid_name n" "catalog s (c_text n) = Some i" by auto
    from catalog_SomeD [OF n(2)] have i: "i < FS_FILE_MAX_COUNT" by simp
    have fe: "fetch (root s) i = Inr (Some (slot_addr s i))"
      using assms(2) i files_ok_slot(1) [OF assms(2) i] by (simp add: files_ok_def)
    from n assms Some l show ?thesis
      by (auto simp: fs_open_def fe valid_name_def find_matching_catalog add_file_to_fd_array_eq
          opened_def split: option.splits)
  next
    case False
    with assms Some show ?thesis
      by (auto simp: fs_open_def find_matching_catalog split: option.splits)
        (simp_all add: valid_name_def)
  qed
qed

text \<open>
  A count above the size of the table, which \<open>fs_mount\<close> may inherit, blocks every open.
\<close>

lemma fs_open_count_exceeded:
  assumes "is_disk_mounted s" and "files_ok s" and "FS_OPEN_MAX_COUNT < unat (num_open_files s)"
  shows "fs_open name s = Inr (-1, s)"
proof (cases "\<exists>n i. name = Some n \<and> valid_name n \<and> catalog s (c_text n) = Some i")
  case True
  then obtain n i where n: "name = Some n" "valid_name n" "catalog s (c_text n) = Some i" by blast
  from catalog_SomeD [OF n(3)] have i: "i < FS_FILE_MAX_COUNT" by simp
  have fe: "fetch (root s) i = Inr (Some (slot_addr s i))"
    using assms(2) i files_ok_slot(1) [OF assms(2) i] by (simp add: files_ok_def)
  from n assms show ?thesis
    by (simp add: fs_open_def fe valid_name_def find_matching_catalog add_file_to_fd_array_def)
next
  case False
  with assms show ?thesis
    by (cases name) (auto simp: fs_open_def find_matching_catalog is_filename_invalid_def [of None] valid_name_def)
qed

lemma fs_close_eq:
  assumes "is_disk_mounted s" and "slots_ok s"
  shows "fs_close fd s =
    (if int FS_OPEN_MAX_COUNT \<le> fd \<and> fd < int FS_FILE_MAX_COUNT then Inl Out_of_bounds
     else Inr (if open_fd s fd then (0, closed fd s) else (-1, s)))"
  using fd_rejected_eq [OF _ assms(1)] assms(2)
  by (simp add: fs_close_def slots_ok_def closed_def Let_def)

lemma fs_stat_eq:
  assumes "is_disk_mounted s" and "files_ok s" and "slots_ok s" and "open_fd s fd"
    and "fd_slot s fd = Some i"
  shows "fs_stat fd s = Inr (to_int (file_size (slot_file s i)))"
proof -
  from open_fdE [OF assms(2,3,4)] assms(5)
  have "opened_file (nat fd) s = Inr (slot_addr s i, slot_file s i)" by auto
  then show ?thesis
    using fd_rejected_open [OF assms(3,1,4)] by (simp add: fs_stat_def)
qed

lemma fs_lseek_eq:
  assumes "is_disk_mounted s" and "files_ok s" and "slots_ok s" and "open_fd s fd"
    and "fd_slot s fd = Some i"
  shows "fs_lseek fd offset s =
    Inr (if unat (file_size (slot_file s i)) < unat offset then (-1, s)
      else (0, set_fd_entry (nat fd) (Some ((the_fd s fd)\<lparr>fd_offset := ucast offset\<rparr>)) s))"
proof -
  from open_fdE [OF assms(2,3,4)] assms(5)
  have "opened_file (nat fd) s = Inr (slot_addr s i, slot_file s i)"
    "fd_entry (nat fd) s = Inr (the_fd s fd)" by auto
  moreover have "unat (ucast (file_size (slot_file s i)) :: u64) = unat (file_size (slot_file s i))"
    using unat_u32_bound [of "file_size (slot_file s i)"]
    by (simp add: unsigned_ucast_eq take_bit_nat_eq_self)
  ultimately show ?thesis
    using fd_rejected_open [OF assms(3,1,4)]
    by (simp add: fs_lseek_def word_less_nat_alt)
qed

section \<open>What the tables keep\<close>

lemma filter_update:
  assumes "k < length xs"
  shows "length (filter P (xs[k := y])) + (if P (xs ! k) then 1 else 0) =
    length (filter P xs) + (if P y then 1 else 0)"
  using assms
proof (induction xs arbitrary: k)
  case Nil
  then show ?case by simp
next
  case (Cons x xs)
  then show ?case by (cases k) auto
qed

lemma opened_ok:
  assumes "files_ok s" and "slots_ok s" and "count_ok s" and "i < FS_FILE_MAX_COUNT"
    and "free_fd s = Some k"
  shows "files_ok (opened k i s)" and "slots_ok (opened k i s)" and "count_ok (opened k i s)"
    and "open_fd (opened k i s) (int k)" and "fd_slot (opened k i s) (int k) = Some i"
    and "fd_offset (the_fd (opened k i s) (int k)) = 0"
proof -
  note k = free_fd_SomeD [OF assms(5)]
  have l: "length (open_files s) = FS_OPEN_MAX_COUNT" using assms(2) by (simp add: slots_ok_def)
  show f: "files_ok (opened k i s)" using assms(1) by (simp add: opened_def files_ok_def)
  have "Some (slot_addr s i) \<in> set (root s)"
    using files_ok_slot(1) [OF assms(1,4)] assms(1,4) by (metis files_ok_def nth_mem)
  then show s: "slots_ok (opened k i s)"
    using assms(2) by (auto simp: slots_ok_def opened_def dest!: subsetD [OF set_update_subset_insert])
  have "used_fds (opened k i s) = Suc (used_fds s)"
    using filter_update [of k "open_files s" "\<lambda>e. e \<noteq> None" "Some d" for d] k l
    by (simp add: used_fds_def opened_def)
  moreover have "used_fds s \<noteq> FS_OPEN_MAX_COUNT" using free_fd_None_iff [OF l] assms(5) by simp
  then have "used_fds s < 32" using used_fds_le [OF l] by (simp add: FS_OPEN_MAX_COUNT_def)
  ultimately show "count_ok (opened k i s)"
    using assms(3) by (simp add: count_ok_def) (simp add: opened_def unat_word_ariths)
  show o: "open_fd (opened k i s) (int k)" using k l by (simp add: open_fd_def opened_def)
  show "fd_offset (the_fd (opened k i s) (int k)) = 0"
    using k l by (simp add: the_fd_def opened_def)
  have "slot_addr (opened k i s) j = slot_addr s j" for j by (simp add: slot_addr_def opened_def)
  moreover obtain j where "j < FS_FILE_MAX_COUNT" "fd_slot (opened k i s) (int k) = Some j"
    "fd_file (the_fd (opened k i s) (int k)) = Some (slot_addr (opened k i s) j)"
    using open_fdE [OF f s o] by metis
  moreover have "fd_file (the_fd (opened k i s) (int k)) = Some (slot_addr s i)"
    using k l by (simp add: the_fd_def opened_def)
  ultimately show "fd_slot (opened k i s) (int k) = Some i"
    using slot_addr_inject [OF assms(1,4)] by simp
qed

lemma closed_ok:
  assumes "files_ok s" and "slots_ok s" and "open_fd s fd"
  shows "files_ok (closed fd s)" and "slots_ok (closed fd s)" and "\<not> open_fd (closed fd s) fd"
    and "count_ok s \<Longrightarrow> count_ok (closed fd s)"
proof -
  have l: "length (open_files s) = FS_OPEN_MAX_COUNT" using assms(2) by (simp add: slots_ok_def)
  have k: "nat fd < FS_OPEN_MAX_COUNT" "open_files s ! nat fd \<noteq> None"
    using assms(3) by (auto simp: open_fd_def)
  show "files_ok (closed fd s)" using assms(1) by (simp add: closed_def files_ok_def)
  show "slots_ok (closed fd s)"
    using assms(2) by (auto simp: slots_ok_def closed_def dest!: subsetD [OF set_update_subset_insert])
  show "\<not> open_fd (closed fd s) fd" using k l by (simp add: open_fd_def closed_def)
  have "Suc (used_fds (closed fd s)) = used_fds s"
    using filter_update [of "nat fd" "open_files s" "\<lambda>e. e \<noteq> None" None] k l
    by (simp add: used_fds_def closed_def)
  moreover assume "count_ok s"
  ultimately have n: "unat (num_open_files s) = Suc (used_fds (closed fd s))"
    by (simp add: count_ok_def)
  then have "num_open_files s \<noteq> 0" by auto
  then have "unat (num_open_files s - 1) = used_fds (closed fd s)"
    using n by (simp add: unat_minus_one)
  then show "count_ok (closed fd s)" by (simp add: count_ok_def) (simp add: closed_def)
qed

end
