(* ===== verification/Read_Write.thy ===== *)
theory Read_Write
  imports Descriptors
begin

text \<open>
  \<open>fs_read\<close> and \<open>fs_write\<close>. Both functions have the same three parts: a partial block when the offset
  is not a multiple of \<open>BLOCK_SIZE\<close>, whole blocks, and the remainder in a last block. Each part is a
  definition; a \<open>return\<close> in the middle of the function is a value of \<open>step\<close>. Counts are \<open>size_t\<close> (64
  bits) and \<open>int\<close> as in the code, block numbers and offsets 16 bits.
\<close>

section \<open>Shared parts\<close>

datatype 'a step = Return int | Next 'a

definition find_num_target_blocks :: "u16 \<Rightarrow> u64 \<Rightarrow> int res" where
  "find_num_target_blocks offset count =
     (let data = ucast offset + count;
          num_target_blocks = to_int (data div of_nat BLOCK_SIZE)
      in if data mod of_nat BLOCK_SIZE \<noteq> 0 then c_int (num_target_blocks + 1)
         else Inr num_target_blocks)"

text \<open>
  The index on disk of block \<open>n\<close> of the open file, None when \<open>find_data_block\<close> answers \<open>FAT_EOC\<close>; the
  sum is a \<open>uint16_t\<close>.
\<close>

definition data_block :: "nat \<Rightarrow> int \<Rightarrow> fs \<Rightarrow> u16 option res" where
  "data_block fd n s =
     bnd (find_data_block fd n s) (\<lambda>index.
       if index = FAT_EOC then Inr None
       else bnd (deref (sb s)) (\<lambda>b. Inr (Some (index + data_start_index b))))"

text \<open>How much of the first, partial block is transferred, and the number of blocks transferred whole.\<close>

definition first_amount :: "u16 \<Rightarrow> u64 \<Rightarrow> u16" where
  "first_amount offset count =
     (if of_nat (unat offset mod BLOCK_SIZE) + count < of_nat BLOCK_SIZE then ucast count
      else of_nat (BLOCK_SIZE - unat offset mod BLOCK_SIZE))"

definition count_full_blocks :: "int \<Rightarrow> u16 \<Rightarrow> u64 \<Rightarrow> int \<Rightarrow> int res" where
  "count_full_blocks num_target_blocks offset count bytes =
     bnd (c_int (num_target_blocks - int (unat offset div BLOCK_SIZE) - (if bytes \<noteq> 0 then 1 else 0)))
       (\<lambda>num_full_blocks.
         c_int (num_full_blocks - (if (count - of_int bytes) mod of_nat BLOCK_SIZE \<noteq> 0 then 1 else 0)))"

definition remainder :: "u64 \<Rightarrow> int \<Rightarrow> int" where
  "remainder count bytes = to_int (count - of_int bytes)"

text \<open>\<open>block_read\<close> into a local array of \<open>BLOCK_SIZE\<close> bytes, and one whose result is not used.\<close>

definition read_bounce :: "u16 \<Rightarrow> fs \<Rightarrow> (int \<times> byte list \<times> fs) res" where
  "read_bounce index s =
     (case block_read (ucast index) (dev s) of (r, data, d) \<Rightarrow>
        bnd (store_bytes (stack_buffer BLOCK_SIZE s) 0 data) (\<lambda>bounce_buffer.
          Inr (r, bounce_buffer, s\<lparr>dev := d\<rparr>)))"

definition discard_read :: "u16 \<Rightarrow> fs \<Rightarrow> fs" where
  "discard_read index s = (case block_read (ucast index) (dev s) of (_, _, d) \<Rightarrow> s\<lparr>dev := d\<rparr>)"

text \<open>A \<open>size_t\<close> length that comes from an \<open>int\<close>.\<close>

definition size_of_int :: "int \<Rightarrow> nat" where
  "size_of_int i = unat (of_int i :: u64)"

section \<open>fs\_write\<close>

text \<open>The parts return the number of bytes written so far.\<close>

definition write_first_block :: "nat \<Rightarrow> byte list \<Rightarrow> u64 \<Rightarrow> u16 \<Rightarrow> fs \<Rightarrow> (int step \<times> fs) res" where
  "write_first_block fd buf count offset s =
     bnd (data_block fd (int (unat offset div BLOCK_SIZE)) s) (\<lambda>first_block_index.
     case first_block_index of
       None \<Rightarrow> Inr (Return 0, s)
     | Some first_block_index \<Rightarrow>
         bnd (read_bounce first_block_index s) (\<lambda>(op_success, bounce_buffer, s).
         if op_success = -1 then Inr (Return (-1), s)
         else
         let write_amount = first_amount offset count
         in bnd (load_bytes buf 0 (unat write_amount)) (\<lambda>src.
            bnd (store_bytes bounce_buffer (unat offset mod BLOCK_SIZE) src) (\<lambda>bounce_buffer.
            case block_write (ucast first_block_index) bounce_buffer (dev s) of (op_success, d) \<Rightarrow>
              if op_success = -1 then Inr (Return (-1), s\<lparr>dev := d\<rparr>)
              else Inr (Next (uint write_amount), s\<lparr>dev := d\<rparr>)))))"

function write_full_blocks ::
    "nat \<Rightarrow> byte list \<Rightarrow> int \<Rightarrow> int \<Rightarrow> int \<Rightarrow> fs \<Rightarrow> (int step \<times> fs) res" where
  "write_full_blocks fd buf i end_index bytes_written s =
     (if i < end_index
      then bnd (data_block fd i s) (\<lambda>block_index.
           case block_index of
             None \<Rightarrow> Inr (Return bytes_written, s)
           | Some block_index \<Rightarrow>
               bnd (load_bytes buf (nat bytes_written) BLOCK_SIZE) (\<lambda>src.
               case block_write (ucast block_index) src (dev s) of (op_success, d) \<Rightarrow>
               let s = discard_read block_index (s\<lparr>dev := d\<rparr>)
               in if op_success = -1 then Inr (Return (-1), s)
                  else bnd (c_int (bytes_written + int BLOCK_SIZE)) (\<lambda>bytes_written.
                         write_full_blocks fd buf (i + 1) end_index bytes_written s)))
      else Inr (Next bytes_written, s))"
  by pat_completeness auto
termination
  by (relation "measure (\<lambda>(fd, buf, i, end_index, n, s). nat (end_index - i))") auto

declare write_full_blocks.simps [simp del]

definition write_last_block ::
    "nat \<Rightarrow> byte list \<Rightarrow> int \<Rightarrow> int \<Rightarrow> int \<Rightarrow> fs \<Rightarrow> (int step \<times> fs) res" where
  "write_last_block fd buf num_target_blocks bytes_written remainder_block_size s =
     bnd (c_int (num_target_blocks - 1)) (\<lambda>last_block.
     bnd (data_block fd last_block s) (\<lambda>last_index.
     case last_index of
       None \<Rightarrow> Inr (Return bytes_written, s)
     | Some last_index \<Rightarrow>
         bnd (read_bounce last_index s) (\<lambda>(op_success, bounce_buffer, s).
         if op_success = -1 then Inr (Return (-1), s)
         else
         bnd (load_bytes buf (nat bytes_written) (size_of_int remainder_block_size)) (\<lambda>src.
         bnd (store_bytes bounce_buffer 0 src) (\<lambda>bounce_buffer.
         case block_write (ucast last_index) bounce_buffer (dev s) of (op_success, d) \<Rightarrow>
           if op_success = -1 then Inr (Return (-1), s\<lparr>dev := d\<rparr>)
           else bnd (c_int (bytes_written + remainder_block_size)) (\<lambda>n.
                  Inr (Next n, s\<lparr>dev := d\<rparr>)))))))"

text \<open>The update at the end of \<open>fs_write\<close>, which a return in one of the parts skips.\<close>

definition finish_write :: "nat \<Rightarrow> int \<Rightarrow> fs \<Rightarrow> (int \<times> fs) res" where
  "finish_write fd bytes_written s =
     bnd (fd_entry fd s) (\<lambda>d.
     let s = set_fd_entry fd (Some (d\<lparr>fd_offset := fd_offset d + of_int bytes_written\<rparr>)) s
     in bnd (opened_file fd s) (\<lambda>(a, f).
        Inr (bytes_written, set_file a (f\<lparr>file_size := file_size f + of_int bytes_written\<rparr>) s)))"

definition and_then ::
    "(int step \<times> fs) res \<Rightarrow> (int \<Rightarrow> fs \<Rightarrow> (int \<times> fs) res) \<Rightarrow> (int \<times> fs) res" where
  "and_then m k =
     bnd m (\<lambda>(r, s). case r of Return n \<Rightarrow> Inr (n, s) | Next n \<Rightarrow> k n s)"

text \<open>The code after the partial first block.\<close>

definition write_rest ::
    "nat \<Rightarrow> byte list \<Rightarrow> u64 \<Rightarrow> u16 \<Rightarrow> int \<Rightarrow> u16 \<Rightarrow> int \<Rightarrow> fs \<Rightarrow> (int \<times> fs) res" where
  "write_rest fd buf count offset num_target_blocks full_block_start_index bytes_written s =
     bnd (count_full_blocks num_target_blocks offset count bytes_written) (\<lambda>num_full_blocks.
     bnd (c_int (num_full_blocks + uint full_block_start_index)) (\<lambda>end_index.
     and_then
       (write_full_blocks fd buf (uint full_block_start_index) end_index bytes_written s)
       (\<lambda>bytes_written s.
     let remainder_block_size = remainder count bytes_written in
     and_then
       (if remainder_block_size \<noteq> 0
        then write_last_block fd buf num_target_blocks bytes_written remainder_block_size s
        else Inr (Next bytes_written, s))
       (finish_write fd))))"

definition fs_write :: "int \<Rightarrow> byte list option \<Rightarrow> u64 \<Rightarrow> fs \<Rightarrow> (int \<times> fs) res" where
  "fs_write fd buf count s =
     bnd (fd_rejected fd s) (\<lambda>rejected.
     if rejected then Inr (-1, s)
     else case buf of
       None \<Rightarrow> Inr (-1, s)
     | Some buf \<Rightarrow>
     if count = 0 then Inr (0, s)
     else
     bnd (fd_entry (nat fd) s) (\<lambda>d.
     let offset = fd_offset d; fd = nat fd;
         full_block_start_index = of_nat (unat offset div BLOCK_SIZE) :: u16 in
     bnd (find_num_target_blocks offset count) (\<lambda>num_target_blocks.
     bnd (allocate_blocks_in_fat fd num_target_blocks s) (\<lambda>(op_success, s).
     if unat offset mod BLOCK_SIZE \<noteq> 0
     then and_then (write_first_block fd buf count offset s)
            (write_rest fd buf count offset num_target_blocks (full_block_start_index + 1))
     else write_rest fd buf count offset num_target_blocks full_block_start_index 0 s))))"

section \<open>fs\_read\<close>

text \<open>The parts return the number of bytes read so far and the caller's buffer.\<close>

definition read_first_block ::
    "nat \<Rightarrow> byte list \<Rightarrow> u64 \<Rightarrow> u16 \<Rightarrow> fs \<Rightarrow> (int step \<times> byte list \<times> fs) res" where
  "read_first_block fd buf count offset s =
     bnd (data_block fd (int (unat offset div BLOCK_SIZE)) s) (\<lambda>first_block_index.
     case first_block_index of
       None \<Rightarrow> Inr (Return 0, buf, s)
     | Some first_block_index \<Rightarrow>
         bnd (read_bounce first_block_index s) (\<lambda>(read_success, bounce_buffer, s).
         if read_success = -1 then Inr (Return (-1), buf, s)
         else
         let read_amount = first_amount offset count
         in bnd (load_bytes bounce_buffer (unat offset mod BLOCK_SIZE) (unat read_amount)) (\<lambda>src.
            bnd (store_bytes buf 0 src) (\<lambda>buf.
            Inr (Next (uint read_amount), buf, s)))))"

function read_full_blocks ::
    "nat \<Rightarrow> byte list \<Rightarrow> int \<Rightarrow> int \<Rightarrow> int \<Rightarrow> fs \<Rightarrow> (int step \<times> byte list \<times> fs) res" where
  "read_full_blocks fd buf i end_index bytes_read s =
     (if i < end_index
      then bnd (data_block fd i s) (\<lambda>block_index.
           case block_index of
             None \<Rightarrow> Inr (Return bytes_read, buf, s)
           | Some block_index \<Rightarrow>
               (case block_read (ucast block_index) (dev s) of (read_success, data, d) \<Rightarrow>
               bnd (store_bytes buf (nat bytes_read) data) (\<lambda>buf.
               let s = discard_read block_index (s\<lparr>dev := d\<rparr>)
               in if read_success = -1 then Inr (Return (-1), buf, s)
                  else bnd (c_int (bytes_read + int BLOCK_SIZE)) (\<lambda>bytes_read.
                         read_full_blocks fd buf (i + 1) end_index bytes_read s))))
      else Inr (Next bytes_read, buf, s))"
  by pat_completeness auto
termination
  by (relation "measure (\<lambda>(fd, buf, i, end_index, n, s). nat (end_index - i))") auto

declare read_full_blocks.simps [simp del]

definition read_last_block ::
    "nat \<Rightarrow> byte list \<Rightarrow> int \<Rightarrow> int \<Rightarrow> int \<Rightarrow> fs \<Rightarrow> (int step \<times> byte list \<times> fs) res" where
  "read_last_block fd buf num_target_blocks bytes_read remainder_block_size s =
     bnd (c_int (num_target_blocks - 1)) (\<lambda>last_block.
     bnd (data_block fd last_block s) (\<lambda>last_index.
     case last_index of
       None \<Rightarrow> Inr (Return bytes_read, buf, s)
     | Some last_index \<Rightarrow>
         bnd (read_bounce last_index s) (\<lambda>(read_success, bounce_buffer, s).
         if read_success = -1 then Inr (Return (-1), buf, s)
         else
         let s = discard_read last_index s
         in bnd (load_bytes bounce_buffer 0 (size_of_int remainder_block_size)) (\<lambda>src.
            bnd (store_bytes buf (nat bytes_read) src) (\<lambda>buf.
            bnd (c_int (bytes_read + remainder_block_size)) (\<lambda>n.
            Inr (Next n, buf, s)))))))"

definition finish_read :: "nat \<Rightarrow> int \<Rightarrow> byte list \<Rightarrow> fs \<Rightarrow> (int \<times> byte list option \<times> fs) res" where
  "finish_read fd bytes_read buf s =
     bnd (fd_entry fd s) (\<lambda>d.
       Inr (bytes_read, Some buf,
            set_fd_entry fd (Some (d\<lparr>fd_offset := fd_offset d + of_int bytes_read\<rparr>)) s))"

definition and_then_buf ::
    "(int step \<times> byte list \<times> fs) res \<Rightarrow>
     (int \<Rightarrow> byte list \<Rightarrow> fs \<Rightarrow> (int \<times> byte list option \<times> fs) res) \<Rightarrow>
     (int \<times> byte list option \<times> fs) res" where
  "and_then_buf m k =
     bnd m (\<lambda>(r, buf, s). case r of Return n \<Rightarrow> Inr (n, Some buf, s) | Next n \<Rightarrow> k n buf s)"

definition read_rest ::
    "nat \<Rightarrow> u64 \<Rightarrow> u16 \<Rightarrow> int \<Rightarrow> u16 \<Rightarrow> int \<Rightarrow> byte list \<Rightarrow> fs \<Rightarrow>
     (int \<times> byte list option \<times> fs) res" where
  "read_rest fd count offset num_target_blocks full_block_start_index bytes_read buf s =
     bnd (count_full_blocks num_target_blocks offset count bytes_read) (\<lambda>num_full_blocks.
     bnd (c_int (num_full_blocks + uint full_block_start_index)) (\<lambda>end_index.
     and_then_buf
       (read_full_blocks fd buf (uint full_block_start_index) end_index bytes_read s)
       (\<lambda>bytes_read buf s.
     let remainder_block_size = remainder count bytes_read in
     if remainder_block_size < 0 \<or> remainder_block_size \<ge> int BLOCK_SIZE then Inr (-1, Some buf, s)
     else
     and_then_buf
       (if remainder_block_size \<noteq> 0
        then read_last_block fd buf num_target_blocks bytes_read remainder_block_size s
        else Inr (Next bytes_read, buf, s))
       (finish_read fd))))"

definition fs_read ::
    "int \<Rightarrow> byte list option \<Rightarrow> u64 \<Rightarrow> fs \<Rightarrow> (int \<times> byte list option \<times> fs) res" where
  "fs_read fd buf count s =
     bnd (fd_rejected fd s) (\<lambda>rejected.
     if rejected then Inr (-1, buf, s)
     else case buf of
       None \<Rightarrow> Inr (-1, buf, s)
     | Some buf \<Rightarrow>
     bnd (fd_entry (nat fd) s) (\<lambda>d.
     let offset = fd_offset d; fd = nat fd;
         full_block_start_index = of_nat (unat offset div BLOCK_SIZE) :: u16 in
     bnd (find_num_target_blocks offset count) (\<lambda>num_target_blocks.
     if unat offset mod BLOCK_SIZE \<noteq> 0
     then and_then_buf (read_first_block fd buf count offset s)
            (read_rest fd count offset num_target_blocks (full_block_start_index + 1))
     else read_rest fd count offset num_target_blocks full_block_start_index 0 buf s)))"

section \<open>The arithmetic of a transfer\<close>

text \<open>
  For an offset \<open>off\<close> and a count \<open>cnt\<close> (as numbers): the first block transferred whole
  (\<open>blocks_needed off\<close>), the first one that is not (\<open>full_end\<close>), and the number of bytes transferred
  before a block. The counts are bounded so that no \<open>int\<close> of the code overflows.
\<close>

definition small_count :: "u64 \<Rightarrow> bool" where
  "small_count count \<longleftrightarrow> unat count < 2147418112"

definition blocks_needed :: "nat \<Rightarrow> nat" where
  "blocks_needed n = n div BLOCK_SIZE + (if n mod BLOCK_SIZE \<noteq> 0 then 1 else 0)"

definition full_end :: "nat \<Rightarrow> nat \<Rightarrow> nat" where
  "full_end off cnt = max (blocks_needed off) ((off + cnt) div BLOCK_SIZE)"

definition part_bytes :: "nat \<Rightarrow> nat \<Rightarrow> nat \<Rightarrow> nat" where
  "part_bytes off cnt i = min cnt (BLOCK_SIZE * i - off)"

lemma unat_BLOCK_SIZE [simp]: "unat (of_nat BLOCK_SIZE :: u64) = BLOCK_SIZE"
  by (simp add: BLOCK_SIZE_def)

lemma find_num_target_blocks_eq:
  assumes "small_count count"
  shows "find_num_target_blocks offset count =
    Inr (int (blocks_needed (unat offset + unat count)))"
proof -
  let ?t = "unat offset + unat count"
  have t: "?t < 2147483648" "unat offset < 65536"
    using assms unat_u16_bound [of offset] by (simp_all add: small_count_def)
  have "unat (ucast offset :: u64) = unat offset"
    using t(2) by (simp add: unsigned_ucast_eq take_bit_nat_eq_self)
  then have u: "unat (ucast offset + count) = ?t" using t by (simp add: unat_word_ariths)
  have div: "uint ((ucast offset + count) div of_nat BLOCK_SIZE :: u64) = int (?t div BLOCK_SIZE)"
    by (simp add: uint_eq_int_iff unat_div u)
  have le: "?t div BLOCK_SIZE \<le> 2147483648 div BLOCK_SIZE" using t by (intro div_le_mono) simp
  then have "to_int ((ucast offset + count) div of_nat BLOCK_SIZE :: u64) = int (?t div BLOCK_SIZE)"
    using div by (subst to_int_small) (simp_all add: INT_MAX_def BLOCK_SIZE_def)
  moreover have "(ucast offset + count) mod of_nat BLOCK_SIZE = 0 \<longleftrightarrow> ?t mod BLOCK_SIZE = 0"
    by (metis u unat_BLOCK_SIZE unat_eq_0 unat_mod_distrib)
  ultimately show ?thesis
    using le by (simp add: find_num_target_blocks_def blocks_needed_def c_int_def INT_MAX_def BLOCK_SIZE_def)
qed

lemma unat_first_amount:
  assumes "small_count count" and "unat offset mod BLOCK_SIZE \<noteq> 0"
  shows "unat (first_amount offset count) = part_bytes (unat offset) (unat count) (blocks_needed (unat offset))"
proof -
  let ?m = "unat offset mod BLOCK_SIZE"
  have m: "?m < BLOCK_SIZE" by simp
  have "unat (of_nat ?m + count) = ?m + unat count"
    using assms(1) m by (simp add: small_count_def unat_word_ariths unat_of_nat BLOCK_SIZE_def)
  then have c: "of_nat ?m + count < of_nat BLOCK_SIZE \<longleftrightarrow> ?m + unat count < BLOCK_SIZE"
    by (simp add: word_less_nat_alt)
  have f: "BLOCK_SIZE * blocks_needed (unat offset) - unat offset = BLOCK_SIZE - ?m"
  proof -
    have "unat offset = BLOCK_SIZE * (unat offset div BLOCK_SIZE) + ?m" by simp
    moreover have "BLOCK_SIZE * blocks_needed (unat offset) =
        BLOCK_SIZE * (unat offset div BLOCK_SIZE) + BLOCK_SIZE"
      using assms(2) by (simp add: blocks_needed_def)
    ultimately show ?thesis by linarith
  qed
  show ?thesis
  proof (cases "?m + unat count < BLOCK_SIZE")
    case True
    then have "unat (ucast count :: u16) = unat count"
      by (simp add: unsigned_ucast_eq take_bit_nat_eq_self BLOCK_SIZE_def)
    with True c f show ?thesis by (simp add: first_amount_def part_bytes_def)
  next
    case False
    have "unat (of_nat (BLOCK_SIZE - ?m) :: u16) = BLOCK_SIZE - ?m"
      by (simp only: unat_of_nat) (simp add: BLOCK_SIZE_def)
    with False c f show ?thesis by (simp add: first_amount_def part_bytes_def)
  qed
qed

lemma unat_rest:
  fixes count :: u64
  assumes "n \<le> unat count"
  shows "unat (count - of_int (int n)) = unat count - n"
proof -
  have "unat count < 2 ^ 64" using unsigned_less [where 'a = nat, of count] by simp
  with assms have "n < 2 ^ 64" by linarith
  then have "unat (of_nat n :: u64) = n" by (simp add: unat_of_nat)
  with assms show ?thesis by (simp add: unat_sub word_le_nat_alt)
qed

lemma remainder_eq:
  assumes "small_count count" and "n \<le> unat count"
  shows "remainder count (int n) = int (unat count - n)"
proof -
  have "uint (count - of_int (int n)) = int (unat count - n)"
    using unat_rest [OF assms(2)] by (simp add: uint_eq_int_iff)
  with assms(1) show ?thesis
    unfolding remainder_def by (subst to_int_small) (simp_all add: small_count_def INT_MAX_def)
qed

text \<open>The blocks of a transfer, by quotient and rest of its two ends.\<close>

lemma blocks_needed_le_iff: "blocks_needed n \<le> k \<longleftrightarrow> n \<le> BLOCK_SIZE * k"
proof -
  have n: "n = BLOCK_SIZE * (n div BLOCK_SIZE) + n mod BLOCK_SIZE" by simp
  have m: "n mod BLOCK_SIZE < BLOCK_SIZE" by simp
  show ?thesis
  proof (cases "n div BLOCK_SIZE < k")
    case True
    then have "BLOCK_SIZE * Suc (n div BLOCK_SIZE) \<le> BLOCK_SIZE * k" by (intro mult_le_mono2) simp
    then have "n \<le> BLOCK_SIZE * k" unfolding mult_Suc_right using n m by linarith
    with True show ?thesis by (simp add: blocks_needed_def)
  next
    case False
    show ?thesis
    proof (cases "k = n div BLOCK_SIZE")
      case True
      then have "n = BLOCK_SIZE * k + n mod BLOCK_SIZE" by simp
      then have "n \<le> BLOCK_SIZE * k \<longleftrightarrow> n mod BLOCK_SIZE = 0" by linarith
      with True show ?thesis by (simp add: blocks_needed_def)
    next
      case neq: False
      with False have "BLOCK_SIZE * Suc k \<le> BLOCK_SIZE * (n div BLOCK_SIZE)" by (intro mult_le_mono2) simp
      then have "\<not> n \<le> BLOCK_SIZE * k" unfolding mult_Suc_right using n BLOCK_SIZE_pos by linarith
      with False neq show ?thesis by (simp add: blocks_needed_def)
    qed
  qed
qed

lemma part_bytes_all:
  assumes "0 < cnt" and "off + cnt \<le> BLOCK_SIZE * blocks_needed off"
  shows "blocks_needed (off + cnt) = blocks_needed off" and "(off + cnt) div BLOCK_SIZE \<le> blocks_needed off"
proof -
  have "off + cnt \<le> BLOCK_SIZE * blocks_needed (off + cnt)" "off \<le> BLOCK_SIZE * blocks_needed (off + cnt)"
    using blocks_needed_le_iff [of "off + cnt" "blocks_needed (off + cnt)"] by simp_all
  then have "blocks_needed off \<le> blocks_needed (off + cnt)" by (simp add: blocks_needed_le_iff)
  with assms(2) show "blocks_needed (off + cnt) = blocks_needed off"
    by (intro antisym) (simp_all add: blocks_needed_le_iff)
  have "BLOCK_SIZE * ((off + cnt) div BLOCK_SIZE) \<le> BLOCK_SIZE * blocks_needed off"
    using assms(2) times_div_less_eq_dividend [of BLOCK_SIZE "off + cnt"] by linarith
  then show "(off + cnt) div BLOCK_SIZE \<le> blocks_needed off" by simp
qed

lemma transfer_plan:
  fixes off cnt :: nat
  assumes "0 < cnt"
  defines "f \<equiv> blocks_needed off" and "e \<equiv> full_end off cnt" and "b \<equiv> part_bytes off cnt (blocks_needed off)"
  shows "off \<le> BLOCK_SIZE * f" and "f \<le> e"
    and "b = cnt \<Longrightarrow> e = f"
    and "b \<noteq> cnt \<Longrightarrow> b = BLOCK_SIZE * f - off \<and> e = (off + cnt) div BLOCK_SIZE"
    and "b \<noteq> 0 \<longleftrightarrow> off mod BLOCK_SIZE \<noteq> 0"
    and "(cnt - b) mod BLOCK_SIZE = (if b = cnt then 0 else (off + cnt) mod BLOCK_SIZE)"
    and "off div BLOCK_SIZE + (if b \<noteq> 0 then 1 else 0) = f"
    and "b = cnt \<Longrightarrow> blocks_needed (off + cnt) = f"
proof -
  define q r where "q = off div BLOCK_SIZE" and "r = off mod BLOCK_SIZE"
  define p t where "p = (off + cnt) div BLOCK_SIZE" and "t = (off + cnt) mod BLOCK_SIZE"
  have o: "off = BLOCK_SIZE * q + r" "r < BLOCK_SIZE" by (simp_all add: q_def r_def)
  have pt: "off + cnt = BLOCK_SIZE * p + t" "t < BLOCK_SIZE" by (simp_all add: p_def t_def)
  have f: "f = q + (if r \<noteq> 0 then 1 else 0)" by (simp add: f_def blocks_needed_def q_def r_def)
  have e: "e = max f p" by (simp add: e_def f_def full_end_def p_def)
  have b: "b = min cnt (BLOCK_SIZE * f - off)" by (simp add: b_def f_def part_bytes_def)
  show off: "off \<le> BLOCK_SIZE * f" using o f by auto
  show "f \<le> e" by (simp add: e)
  show bn: "b \<noteq> 0 \<longleftrightarrow> off mod BLOCK_SIZE \<noteq> 0"
    using o f b assms(1) by (auto simp: r_def [symmetric])
  then show "off div BLOCK_SIZE + (if b \<noteq> 0 then 1 else 0) = f"
    by (simp add: f q_def r_def)
  have all: "off + cnt \<le> BLOCK_SIZE * f" if "b = cnt" using that b off by linarith
  note part_bytes_all [OF assms(1), of off, folded f_def, OF all]
  then show "b = cnt \<Longrightarrow> blocks_needed (off + cnt) = f" and "b = cnt \<Longrightarrow> e = f" by (simp_all add: e p_def)
  have large: "b = BLOCK_SIZE * f - off \<and> f \<le> p \<and> BLOCK_SIZE * f \<le> off + cnt" if "b \<noteq> cnt"
  proof -
    have "BLOCK_SIZE * f < off + cnt" using that b off by linarith
    then have "f \<le> p" unfolding p_def by (metis BLOCK_SIZE_pos(1) less_imp_le less_eq_div_iff_mult_less_eq mult.commute)
    with that b \<open>BLOCK_SIZE * f < off + cnt\<close> show ?thesis by auto
  qed
  then show "b \<noteq> cnt \<Longrightarrow> b = BLOCK_SIZE * f - off \<and> e = (off + cnt) div BLOCK_SIZE"
    by (simp add: e p_def)
  show "(cnt - b) mod BLOCK_SIZE = (if b = cnt then 0 else (off + cnt) mod BLOCK_SIZE)"
  proof (cases "b = cnt")
    case False
    from large [OF this] off have "cnt - b = off + cnt - BLOCK_SIZE * f" by linarith
    also have "\<dots> = BLOCK_SIZE * (p - f) + t"
      using large [OF False] pt(1) by (simp add: diff_mult_distrib2)
    finally show ?thesis using False pt(2) by (simp add: t_def)
  qed simp
qed

lemma count_full_blocks_eq:
  fixes offset :: u16
  assumes "small_count count" and "0 < unat count"
  defines "off \<equiv> unat offset" and "cnt \<equiv> unat count"
  shows "count_full_blocks (int (blocks_needed (off + cnt))) offset count
      (int (part_bytes off cnt (blocks_needed off))) =
    Inr (int (full_end off cnt) - int (blocks_needed off))"
proof -
  let ?b = "part_bytes off cnt (blocks_needed off)"
  have b: "?b \<le> cnt" by (simp add: part_bytes_def)
  have off: "off < 65536" "cnt < 2147418112" "0 < cnt"
    using assms(1,2) unat_u16_bound [of offset] by (simp_all add: off_def cnt_def small_count_def)
  note plan = transfer_plan [OF off(3), of off]
  have "(count - of_int (int ?b)) mod of_nat BLOCK_SIZE = 0 \<longleftrightarrow> (cnt - ?b) mod BLOCK_SIZE = 0"
    using unat_rest [of ?b count] b
    by (metis cnt_def unat_BLOCK_SIZE unat_eq_0 unat_mod_distrib)
  then have c: "count_full_blocks T offset count (int ?b) =
      bnd (c_int (T - int (off div BLOCK_SIZE) - (if ?b \<noteq> 0 then 1 else 0)))
       (\<lambda>n. c_int (n - (if (cnt - ?b) mod BLOCK_SIZE \<noteq> 0 then 1 else 0)))" for T
    by (simp add: count_full_blocks_def off_def)
  let ?p = "(off + cnt) div BLOCK_SIZE" and ?t = "(off + cnt) mod BLOCK_SIZE"
  let ?T = "blocks_needed (off + cnt)"
  have "?p \<le> 2147483648 div BLOCK_SIZE" using off by (intro div_le_mono) simp
  moreover have "off div BLOCK_SIZE \<le> 65536 div BLOCK_SIZE" using off by (intro div_le_mono) simp
  moreover have T: "?T = ?p + (if ?t = 0 then 0 else 1)" by (simp add: blocks_needed_def)
  ultimately have le: "?T \<le> 524289" "off div BLOCK_SIZE \<le> 16" by (simp_all add: BLOCK_SIZE_def)
  have eq: "int ?T - int (off div BLOCK_SIZE) - (if ?b \<noteq> 0 then 1 else 0)
      - (if (cnt - ?b) mod BLOCK_SIZE \<noteq> 0 then 1 else 0) = int (full_end off cnt) - int (blocks_needed off)"
  proof (cases "?b = cnt")
    case False
    with plan(4,6,7) T show ?thesis by (simp split: if_splits)
  next
    case True
    with plan(3,6,7,8) show ?thesis by (simp split: if_splits)
  qed
  then have "- 18 \<le> int (full_end off cnt) - int (blocks_needed off)"
    "int (full_end off cnt) - int (blocks_needed off) \<le> 524289"
    using le by (simp_all split: if_splits)
  moreover have "c_int (int ?T - int (off div BLOCK_SIZE) - (if ?b \<noteq> 0 then 1 else 0)) =
      Inr (int ?T - int (off div BLOCK_SIZE) - (if ?b \<noteq> 0 then 1 else 0))"
    using le by (intro c_int_ok) (simp_all add: INT_MAX_def)
  ultimately show ?thesis by (simp only: c bnd_simps eq) (simp add: c_int_def INT_MAX_def)
qed

end
