(* ===== verification/Reading.thy ===== *)
theory Reading
  imports Read_Write
begin

text \<open>
  What \<open>fs_read\<close> returns: the data of a file as one byte list, the blocks an open descriptor reaches,
  and the effect of the three parts of \<open>fs_read\<close> put together.
\<close>

section \<open>The data of a file\<close>

text \<open>
  \<open>slot_chain\<close> is the chain of a file, \<open>file_blocks\<close> the disk blocks it stands for and \<open>file_data\<close>
  what they hold. \<open>layout_ok\<close>: the data blocks of the table are on the disk.
\<close>

definition slot_chain :: "fs \<Rightarrow> nat \<Rightarrow> u16 list" where
  "slot_chain s i = chain_of (the_fat s) (first_index (slot_file s i))"

definition chain_ok :: "fs \<Rightarrow> nat \<Rightarrow> bool" where
  "chain_ok s i \<longleftrightarrow> chain (the_fat s) (first_index (slot_file s i)) (slot_chain s i)"

definition disk_blocks :: "fs \<Rightarrow> u16 list \<Rightarrow> nat list" where
  "disk_blocks s xs = map (\<lambda>x. unat x + unat (data_start_index (the_sb s))) xs"

definition file_data :: "fs \<Rightarrow> nat \<Rightarrow> byte list" where
  "file_data s i = blocks_content (block_at (dev s)) (disk_blocks s (slot_chain s i))"

definition layout_ok :: "fs \<Rightarrow> bool" where
  "layout_ok s \<longleftrightarrow>
     unat (data_start_index (the_sb s)) + length (the_fat s) \<le> blocks (dev s) \<and>
     blocks (dev s) < 65536"

definition data_ready :: "fs \<Rightarrow> bool" where
  "data_ready s \<longleftrightarrow> fat_ok s \<and> layout_ok s \<and> disk_ok (dev s) \<and> calm (dev s)"

lemma chain_ok_eq: "chain (the_fat s) (first_index (slot_file s i)) xs \<Longrightarrow> slot_chain s i = xs"
  by (simp add: slot_chain_def chain_of_eq)

lemma length_disk_blocks [simp]: "length (disk_blocks s xs) = length xs"
  by (simp add: disk_blocks_def)

lemma disk_blocks_range:
  assumes "layout_ok s" and "chain (the_fat s) b xs" and "n \<in> set (disk_blocks s xs)"
  shows "n < blocks (dev s)"
proof -
  from assms(3) obtain x where x: "x \<in> set xs" "n = unat x + unat (data_start_index (the_sb s))"
    by (auto simp: disk_blocks_def)
  from chain_members [OF assms(2) x(1)] have "unat x < length (the_fat s)" by simp
  with assms(1) x(2) show ?thesis by (simp add: layout_ok_def)
qed

lemma distinct_disk_blocks: "distinct xs \<Longrightarrow> distinct (disk_blocks s xs)"
  by (auto simp: disk_blocks_def distinct_map inj_on_def unsigned_word_eqI)

lemma length_file_data:
  assumes "data_ready s" and "chain_ok s i"
  shows "length (file_data s i) = BLOCK_SIZE * length (slot_chain s i)"
  using assms vd.length_content [of "dev s" "disk_blocks s (slot_chain s i)"]
    disk_blocks_range [of s "first_index (slot_file s i)" "slot_chain s i"]
  by (simp add: file_data_def data_ready_def chain_ok_def)

text \<open>Block \<open>n\<close> of an open file: its index, and that it can be read.\<close>

lemma data_block_ok:
  assumes "data_ready s" and "opened_file fd s = Inr (a, f)" and "chain (the_fat s) (first_index f) xs"
  shows "n < length xs \<Longrightarrow> \<exists>index. data_block fd (int n) s = Inr (Some index) \<and>
      unat (ucast index :: u64) = disk_blocks s xs ! n"
    and "length xs \<le> n \<Longrightarrow> data_block fd (int n) s = Inr None"
proof -
  from assms(1) have r: "fat_ok s" "layout_ok s" by (simp_all add: data_ready_def)
  note b = find_data_block_ok [OF r(1) assms(2,3), of n]
  then show "length xs \<le> n \<Longrightarrow> data_block fd (int n) s = Inr None" by (simp add: data_block_def)
  assume n: "n < length xs"
  let ?index = "xs ! n + data_start_index (the_sb s)"
  have m: "disk_blocks s xs ! n \<in> set (disk_blocks s xs)" using n by simp
  have "disk_blocks s xs ! n < blocks (dev s)" by (rule disk_blocks_range [OF r(2) assms(3) m])
  with r(2) have "disk_blocks s xs ! n < 65536" by (simp add: layout_ok_def)
  then have "unat ?index = disk_blocks s xs ! n"
    using n by (simp add: disk_blocks_def unat_word_ariths)
  moreover have "unat (ucast ?index :: u64) = unat ?index"
    using unat_u16_bound [of ?index] by (simp add: unsigned_ucast_eq take_bit_nat_eq_self)
  moreover have "xs ! n \<noteq> FAT_EOC" using chain_members [OF assms(3), of "xs ! n"] n by simp
  then have "data_block fd (int n) s = Inr (Some ?index)"
    using b n fat_okD(1) [OF r(1)] by (simp add: data_block_def)
  ultimately show "\<exists>index. data_block fd (int n) s = Inr (Some index) \<and>
      unat (ucast index :: u64) = disk_blocks s xs ! n" by metis
qed

lemma discard_read_ok:
  assumes "disk_ok (dev s)" and "calm (dev s)" and "unat (ucast index :: u64) < blocks (dev s)"
  shows "discard_read index s = s"
  using block_read_ok [OF assms] by (simp add: discard_read_def)

lemma read_bounce_ok:
  assumes "disk_ok (dev s)" and "calm (dev s)" and "unat (ucast index :: u64) < blocks (dev s)"
  shows "read_bounce index s = Inr (0, block_at (dev s) (unat (ucast index :: u64)), s)"
  using block_read_ok [OF assms] length_block_at [OF assms(1,3)]
  by (simp add: read_bounce_def store_bytes_ok overwrite_all)

section \<open>Reading\<close>

text \<open>The buffer after \<open>k\<close> bytes of the data \<open>C\<close> from \<open>off\<close> on have been read into it.\<close>

definition got :: "byte list \<Rightarrow> nat \<Rightarrow> nat \<Rightarrow> byte list \<Rightarrow> byte list" where
  "got C off k buf = overwrite buf 0 (take k (drop off C))"

lemma got_0 [simp]: "got C off 0 buf = buf"
  by (simp add: got_def)

lemma length_got: "k \<le> length buf \<Longrightarrow> length (got C off k buf) = length buf"
  by (simp add: got_def)

lemma got_step:
  assumes "off + k \<le> length C" and "k \<le> length buf"
  shows "overwrite (got C off k buf) k (take m (drop (off + k) C)) = got C off (k + m) buf"
proof -
  have "length (take k (drop off C)) = k" using assms(1) by simp
  then have "overwrite (overwrite buf 0 (take k (drop off C))) k (take m (drop (off + k) C)) =
      overwrite buf 0 (take k (drop off C) @ take m (drop (off + k) C))"
    using overwrite_overwrite [of 0 "take k (drop off C)" buf "take m (drop (off + k) C)"] assms(2)
    by simp
  also have "take k (drop off C) @ take m (drop (off + k) C) = take (k + m) (drop off C)"
    by (simp add: take_add add.commute)
  finally show ?thesis by (simp add: got_def)
qed

text \<open>
  An open descriptor of a file with chain \<open>xs\<close> and data \<open>C\<close>, in a state fit for transfers.
\<close>

definition transfer :: "fs \<Rightarrow> nat \<Rightarrow> u16 list \<Rightarrow> byte list \<Rightarrow> bool" where
  "transfer s fd xs C \<longleftrightarrow>
     data_ready s \<and> C = blocks_content (block_at (dev s)) (disk_blocks s xs) \<and>
     (\<exists>a f. opened_file fd s = Inr (a, f) \<and> chain (the_fat s) (first_index f) xs)"

lemma transfer_length:
  assumes "transfer s fd xs C"
  shows "length C = BLOCK_SIZE * length xs"
proof -
  from assms obtain b where "chain (the_fat s) b xs" "layout_ok s" "disk_ok (dev s)"
    and C: "C = blocks_content (block_at (dev s)) (disk_blocks s xs)"
    by (auto simp: transfer_def data_ready_def)
  then show ?thesis
    using vd.length_content [of "dev s" "disk_blocks s xs"] disk_blocks_range [of s b xs] by simp
qed

lemma transfer_block:
  assumes "transfer s fd xs C"
  shows "n < length xs \<Longrightarrow> \<exists>index. data_block fd (int n) s = Inr (Some index) \<and>
      block_read (ucast index) (dev s) = (0, take BLOCK_SIZE (drop (BLOCK_SIZE * n) C), dev s) \<and>
      read_bounce index s = Inr (0, take BLOCK_SIZE (drop (BLOCK_SIZE * n) C), s) \<and>
      discard_read index s = s"
    and "length xs \<le> n \<Longrightarrow> data_block fd (int n) s = Inr None"
proof -
  from assms obtain a f where t: "data_ready s" "opened_file fd s = Inr (a, f)"
    "chain (the_fat s) (first_index f) xs"
    and C: "C = blocks_content (block_at (dev s)) (disk_blocks s xs)"
    by (auto simp: transfer_def)
  show "length xs \<le> n \<Longrightarrow> data_block fd (int n) s = Inr None" by (rule data_block_ok(2) [OF t])
  assume n: "n < length xs"
  from data_block_ok(1) [OF t n] obtain index where index:
    "data_block fd (int n) s = Inr (Some index)" "unat (ucast index :: u64) = disk_blocks s xs ! n"
    by blast
  have d: "disk_ok (dev s)" "calm (dev s)" "layout_ok s" using t(1) by (simp_all add: data_ready_def)
  have lt: "unat (ucast index :: u64) < blocks (dev s)"
    using disk_blocks_range [OF d(3) t(3)] n index(2) by simp
  have "take BLOCK_SIZE (drop (BLOCK_SIZE * n) C) = block_at (dev s) (disk_blocks s xs ! n)"
    using vd.content_block [OF d(1), of "disk_blocks s xs" n] disk_blocks_range [OF d(3) t(3)] n
    by (simp add: C)
  with index block_read_ok [OF d(1,2) lt] read_bounce_ok [OF d(1,2) lt] discard_read_ok [OF d(1,2) lt]
  show "\<exists>index. data_block fd (int n) s = Inr (Some index) \<and>
      block_read (ucast index) (dev s) = (0, take BLOCK_SIZE (drop (BLOCK_SIZE * n) C), dev s) \<and>
      read_bounce index s = Inr (0, take BLOCK_SIZE (drop (BLOCK_SIZE * n) C), s) \<and>
      discard_read index s = s" by metis
qed

lemma block_end_le:
  "n < m \<Longrightarrow> BLOCK_SIZE * n + BLOCK_SIZE \<le> BLOCK_SIZE * m"
  using mult_le_mono2 [of "Suc n" m BLOCK_SIZE] by simp

lemma read_first_block_ok:
  assumes "transfer s fd xs C" and "small_count count" and "unat offset mod BLOCK_SIZE \<noteq> 0"
    and "unat count \<le> length buf"
  defines "off \<equiv> unat offset"
  defines "b \<equiv> part_bytes off (unat count) (blocks_needed off)"
  shows "read_first_block fd buf count offset s =
    Inr (if off div BLOCK_SIZE < length xs then (Next (int b), got C off b buf, s)
         else (Return 0, buf, s))"
proof (cases "off div BLOCK_SIZE < length xs")
  case False
  then show ?thesis
    using transfer_block(2) [OF assms(1), of "off div BLOCK_SIZE"]
    by (simp add: read_first_block_def off_def)
next
  case True
  let ?q = "off div BLOCK_SIZE" and ?m = "off mod BLOCK_SIZE"
  from transfer_block(1) [OF assms(1) True] obtain index where i:
    "data_block fd (int ?q) s = Inr (Some index)"
    "read_bounce index s = Inr (0, take BLOCK_SIZE (drop (BLOCK_SIZE * ?q) C), s)" by blast
  have off: "off = BLOCK_SIZE * ?q + ?m" by simp
  have bf: "BLOCK_SIZE * blocks_needed off = BLOCK_SIZE * ?q + BLOCK_SIZE"
    using assms(3) by (simp add: off_def blocks_needed_def)
  have b: "b \<le> unat count" "?m + b \<le> BLOCK_SIZE"
    using off bf mod_less_divisor [OF BLOCK_SIZE_pos(1), of off]
    unfolding b_def part_bytes_def by linarith+
  have lC: "BLOCK_SIZE * ?q + BLOCK_SIZE \<le> length C"
    using block_end_le [OF True] transfer_length [OF assms(1)] by simp
  have ub: "unat (first_amount offset count) = b"
    using unat_first_amount [OF assms(2,3)] by (simp add: b_def off_def)
  have "take b (drop ?m (take BLOCK_SIZE (drop (BLOCK_SIZE * ?q) C))) = take b (drop off C)"
    using b(2) by (simp add: drop_take min_absorb1 add.commute)
  then have l: "load_bytes (take BLOCK_SIZE (drop (BLOCK_SIZE * ?q) C)) ?m b = Inr (take b (drop off C))"
    using b(2) lC by (subst load_bytes_ok) simp_all
  have "length (take b (drop off C)) \<le> length buf"
    using b(1) assms(4) by simp
  then have "store_bytes buf 0 (take b (drop off C)) = Inr (got C off b buf)"
    by (simp add: store_bytes_def got_def)
  moreover have "uint (first_amount offset count) = int b" using ub by (simp add: uint_eq_int_iff)
  ultimately show ?thesis
    using True i l ub by (simp add: read_first_block_def off_def [symmetric])
qed

text \<open>The step from block \<open>i\<close> to block \<open>i + 1\<close>.\<close>

lemma read_full_block_step:
  assumes "transfer s fd xs C" and "off \<le> BLOCK_SIZE * i" and "i < e" and "i < length xs"
    and "BLOCK_SIZE * e - off \<le> length buf" and "BLOCK_SIZE * e - off < 2 ^ 31"
  shows "read_full_blocks fd (got C off (BLOCK_SIZE * i - off) buf) (int i) (int e) (int (BLOCK_SIZE * i - off)) s =
    read_full_blocks fd (got C off (BLOCK_SIZE * Suc i - off) buf) (int (Suc i)) (int e)
      (int (BLOCK_SIZE * Suc i - off)) s"
proof -
  let ?b = "BLOCK_SIZE * i - off"
  from transfer_block(1) [OF assms(1,4)] obtain index where index:
    "data_block fd (int i) s = Inr (Some index)"
    "block_read (ucast index) (dev s) = (0, take BLOCK_SIZE (drop (BLOCK_SIZE * i) C), dev s)"
    "discard_read index s = s" by blast
  have le: "BLOCK_SIZE * i + BLOCK_SIZE \<le> BLOCK_SIZE * e" by (rule block_end_le [OF assms(3)])
  have lC: "BLOCK_SIZE * i + BLOCK_SIZE \<le> length C"
    using block_end_le [OF assms(4)] transfer_length [OF assms(1)] by simp
  have b: "?b + BLOCK_SIZE \<le> length buf" "off + ?b = BLOCK_SIZE * i" "?b + BLOCK_SIZE = BLOCK_SIZE * Suc i - off"
    using le assms(2,5) by simp_all
  have st: "store_bytes (got C off ?b buf) ?b (take BLOCK_SIZE (drop (BLOCK_SIZE * i) C)) =
      Inr (got C off (?b + BLOCK_SIZE) buf)"
    using got_step [of off ?b C buf BLOCK_SIZE] b(1,2) lC
    by (subst store_bytes_ok) (simp_all add: length_got)
  have "c_int (int ?b + int BLOCK_SIZE) = Inr (int (BLOCK_SIZE * Suc i - off))"
    using le assms(6) b(3) by (subst c_int_ok) (simp_all add: INT_MAX_def)
  then show ?thesis
    using index assms(3) st b(3) by (subst read_full_blocks.simps) (simp add: add.commute)
qed

lemma read_full_blocks_ok:
  assumes "transfer s fd xs C" and "off \<le> BLOCK_SIZE * i" and "i \<le> e" and "BLOCK_SIZE * e - off \<le> length buf"
    and "i \<le> length xs \<or> off = BLOCK_SIZE * i" and "BLOCK_SIZE * e - off < 2 ^ 31"
  shows "read_full_blocks fd (got C off (BLOCK_SIZE * i - off) buf) (int i) (int e)
      (int (BLOCK_SIZE * i - off)) s =
    Inr (if e \<le> length xs \<or> e = i
         then (Next (int (BLOCK_SIZE * e - off)), got C off (BLOCK_SIZE * e - off) buf, s)
         else (Return (int (BLOCK_SIZE * length xs - off)),
               got C off (BLOCK_SIZE * length xs - off) buf, s))"
  using assms(2-5)
proof (induction "e - i" arbitrary: i)
  case 0
  then have "i = e" by simp
  then show ?case using 0 by (auto simp: read_full_blocks.simps)
next
  case (Suc k)
  then have ie: "i < e" and k: "k = e - Suc i" by simp_all
  show ?case
  proof (cases "i < length xs")
    case False
    with Suc.prems have "BLOCK_SIZE * length xs - off = BLOCK_SIZE * i - off"
      by (cases "i = length xs") auto
    with False ie show ?thesis
      using transfer_block(2) [OF assms(1), of i] by (simp add: read_full_blocks.simps)
  next
    case True
    with Suc.hyps(1) [OF k] Suc.prems ie
    show ?thesis
      unfolding read_full_block_step [OF assms(1) Suc.prems(1) ie True Suc.prems(3) assms(6)] by simp
  qed
qed

lemma size_of_int_nat: "n < 2 ^ 31 \<Longrightarrow> size_of_int (int n) = n"
  by (simp add: size_of_int_def unat_of_nat)

lemma read_last_block_ok:
  assumes "transfer s fd xs C" and "off \<le> BLOCK_SIZE * e" and "m < BLOCK_SIZE"
    and "BLOCK_SIZE * e - off + m \<le> length buf" and "BLOCK_SIZE * e - off + m < 2 ^ 31"
    and "e < 2 ^ 31"
  defines "k \<equiv> BLOCK_SIZE * e - off"
  shows "read_last_block fd (got C off k buf) (int (Suc e)) (int k) (int m) s =
    Inr (if e < length xs then (Next (int (k + m)), got C off (k + m) buf, s)
         else (Return (int k), got C off k buf, s))"
proof -
  have c: "c_int (int (Suc e) - 1) = Inr (int e)"
    using assms(6) by (subst c_int_ok) (simp_all add: INT_MAX_def)
  show ?thesis
  proof (cases "e < length xs")
    case False
    with c show ?thesis
      using transfer_block(2) [OF assms(1), of e] by (simp add: read_last_block_def)
  next
    case True
    let ?blk = "take BLOCK_SIZE (drop (BLOCK_SIZE * e) C)"
    from transfer_block(1) [OF assms(1) True] obtain index where index:
      "data_block fd (int e) s = Inr (Some index)" "read_bounce index s = Inr (0, ?blk, s)"
      "discard_read index s = s" by blast
    have lC: "BLOCK_SIZE * e + BLOCK_SIZE \<le> length C"
      using block_end_le [OF True] transfer_length [OF assms(1)] by simp
    have m: "size_of_int (int m) = m"
      using assms(3) by (intro size_of_int_nat) (simp add: BLOCK_SIZE_def)
    have ek: "off + k = BLOCK_SIZE * e" using assms(2) by (simp add: k_def)
    have l: "load_bytes ?blk 0 m = Inr (take m (drop (off + k) C))"
      using assms(3) lC ek by (subst load_bytes_ok) (simp_all add: min_absorb1)
    have st: "store_bytes (got C off k buf) k (take m (drop (off + k) C)) = Inr (got C off (k + m) buf)"
      using got_step [of off k C buf m] ek lC assms(3,4)
      by (subst store_bytes_ok) (simp_all add: length_got k_def)
    have "c_int (int k + int m) = Inr (int (k + m))"
      using assms(5) by (subst c_int_ok) (simp_all add: INT_MAX_def k_def)
    with True c index m l st show ?thesis by (simp add: read_last_block_def)
  qed
qed

lemma uint_full_start:
  fixes offset :: u16
  shows "uint (of_nat (unat offset div BLOCK_SIZE) + (if unat offset mod BLOCK_SIZE \<noteq> 0 then 1 else 0) :: u16) =
    int (blocks_needed (unat offset))"
proof -
  have "unat offset div BLOCK_SIZE \<le> 65535 div BLOCK_SIZE"
    using unat_u16_bound [of offset] by (intro div_le_mono) simp
  then have "unat offset div BLOCK_SIZE \<le> 15" by (simp add: BLOCK_SIZE_def)
  then show ?thesis
    by (subst uint_eq_int_iff) (simp add: blocks_needed_def unat_word_ariths unat_of_nat)
qed

text \<open>What the last two parts have to do, in terms of the bytes \<open>b\<close> the first one has transferred.\<close>

lemma transfer_rest:
  fixes off cnt :: nat
  assumes "0 < cnt"
  defines "b \<equiv> part_bytes off cnt (blocks_needed off)" and "e \<equiv> full_end off cnt"
  shows "b = cnt \<Longrightarrow> e = blocks_needed off"
    and "b \<noteq> cnt \<Longrightarrow> b = BLOCK_SIZE * blocks_needed off - off \<and>
      cnt = BLOCK_SIZE * e - off + (off + cnt) mod BLOCK_SIZE \<and> off \<le> BLOCK_SIZE * e"
    and "b \<noteq> cnt \<Longrightarrow> (off + cnt) mod BLOCK_SIZE \<noteq> 0 \<Longrightarrow> blocks_needed (off + cnt) = Suc e"
proof -
  note plan = transfer_plan [OF assms(1), of off]
  show "b = cnt \<Longrightarrow> e = blocks_needed off" using plan(3) by (simp add: b_def e_def)
  show "blocks_needed (off + cnt) = Suc e" if "b \<noteq> cnt" "(off + cnt) mod BLOCK_SIZE \<noteq> 0"
    using plan(4) that by (simp add: blocks_needed_def [of "off + cnt"] b_def e_def)
  assume "b \<noteq> cnt"
  then have b: "b = BLOCK_SIZE * blocks_needed off - off" and e: "e = (off + cnt) div BLOCK_SIZE"
    using plan(4) by (simp_all add: b_def e_def)
  have "off + cnt = BLOCK_SIZE * e + (off + cnt) mod BLOCK_SIZE" by (simp add: e)
  moreover have "BLOCK_SIZE * blocks_needed off \<le> BLOCK_SIZE * e"
    using plan(2) by (simp add: e_def)
  then have "off \<le> BLOCK_SIZE * e" using plan(1) by linarith
  ultimately show "b = BLOCK_SIZE * blocks_needed off - off \<and>
      cnt = BLOCK_SIZE * e - off + (off + cnt) mod BLOCK_SIZE \<and> off \<le> BLOCK_SIZE * e"
    using b by linarith
qed

text \<open>The number of bytes served by a chain of \<open>n\<close> blocks, as the loops find it.\<close>

lemma served:
  fixes off cnt e n f t :: nat
  assumes "cnt = BLOCK_SIZE * e - off + t" and "0 < cnt" and "off \<le> BLOCK_SIZE * e" and "t < BLOCK_SIZE"
    and "f \<le> n \<or> off = BLOCK_SIZE * f"
  defines "r \<equiv> min cnt (BLOCK_SIZE * n - off)"
  shows "e \<le> n \<or> e = f \<Longrightarrow> t = 0 \<or> e < n \<Longrightarrow> r = cnt"
    and "e \<le> n \<or> e = f \<Longrightarrow> t \<noteq> 0 \<Longrightarrow> n \<le> e \<Longrightarrow> r = BLOCK_SIZE * e - off \<and> r \<noteq> cnt"
    and "n < e \<Longrightarrow> e \<noteq> f \<Longrightarrow> r = BLOCK_SIZE * n - off \<and> r \<noteq> cnt"
proof -
  show "r = cnt" if "e \<le> n \<or> e = f" "t = 0 \<or> e < n"
  proof (cases "e < n")
    case True
    from block_end_le [OF this] assms(1,3,4) show ?thesis unfolding r_def by linarith
  next
    case False
    with that assms(1,2,5) have "e = n" "t = 0" by auto
    with assms(1) show ?thesis by (simp add: r_def)
  qed
  show "r = BLOCK_SIZE * e - off \<and> r \<noteq> cnt" if "e \<le> n \<or> e = f" "t \<noteq> 0" "n \<le> e"
  proof (cases "e = n")
    case True
    with that assms(1) show ?thesis by (simp add: r_def)
  next
    case False
    with that assms(5) have "off = BLOCK_SIZE * e" "BLOCK_SIZE * n \<le> BLOCK_SIZE * e" by auto
    with assms(1) that show ?thesis unfolding r_def by linarith
  qed
  show "r = BLOCK_SIZE * n - off \<and> r \<noteq> cnt" if "n < e" "e \<noteq> f"
    using block_end_le [OF that(1)] assms(1-3) BLOCK_SIZE_pos unfolding r_def by linarith
qed

lemma part_bytes_aligned: "off mod BLOCK_SIZE = 0 \<Longrightarrow> part_bytes off cnt (blocks_needed off) = 0"
  by (auto simp: part_bytes_def blocks_needed_def)

lemma small_count_less: "small_count count \<Longrightarrow> unat count < 2 ^ 31"
  by (simp add: small_count_def)

lemma full_end_bound:
  fixes offset :: u16
  assumes "small_count count"
  shows "int (full_end (unat offset) (unat count)) \<le> INT_MAX"
proof -
  have b: "unat offset < 65536" "unat count < 2147418112"
    using assms unat_u16_bound [of offset] by (simp_all add: small_count_def)
  have "(unat offset + unat count) div BLOCK_SIZE \<le> 2147483648 div BLOCK_SIZE"
    using b by (intro div_le_mono) simp
  moreover have "unat offset div BLOCK_SIZE \<le> 65536 div BLOCK_SIZE"
    using b by (intro div_le_mono) simp
  ultimately have "full_end (unat offset) (unat count) \<le> 524288"
    by (auto simp: full_end_def blocks_needed_def BLOCK_SIZE_def)
  then show ?thesis by (simp add: INT_MAX_def)
qed

lemma finish_read_all:
  assumes "fd_entry fd s = Inr d" and "cnt = unat (count :: u64)"
  shows "finish_read fd (int cnt) buf s = Inr (int cnt, Some buf,
    set_fd_entry fd (Some (d\<lparr>fd_offset := fd_offset d + ucast count\<rparr>)) s)"
  using assms by (simp add: finish_read_def)

text \<open>The amounts of a transfer of \<open>cnt\<close> bytes at \<open>off\<close> that the last two parts compute.\<close>

lemma rest_amounts:
  fixes offset :: u16
  assumes "small_count count" and "0 < cnt" and off: "off = unat offset" and cnt: "cnt = unat count"
    and b: "b = part_bytes off cnt (blocks_needed off)"
  defines "e \<equiv> full_end off cnt" and "f \<equiv> blocks_needed off"
  defines "k \<equiv> BLOCK_SIZE * e - off" and "t \<equiv> (off + cnt) mod BLOCK_SIZE"
  shows "count_full_blocks (int (blocks_needed (off + cnt))) offset count (int b) = Inr (int e - int f)"
    and "c_int (int e) = Inr (int e)" and "e < 2 ^ 31" and "t < BLOCK_SIZE" and "remainder count (int cnt) = 0"
    and "b \<noteq> cnt \<Longrightarrow> b = BLOCK_SIZE * f - off" and "b \<noteq> cnt \<Longrightarrow> cnt = k + t"
    and "b \<noteq> cnt \<Longrightarrow> off \<le> BLOCK_SIZE * e" and "b \<noteq> cnt \<Longrightarrow> k + t < 2 ^ 31"
    and "b \<noteq> cnt \<Longrightarrow> remainder count (int k) = int t"
proof -
  have e: "int e \<le> INT_MAX" and c: "cnt < 2 ^ 31"
    using full_end_bound [OF assms(1), of offset] small_count_less [OF assms(1)] by (simp_all add: e_def off cnt)
  show "count_full_blocks (int (blocks_needed (off + cnt))) offset count (int b) = Inr (int e - int f)"
    using count_full_blocks_eq [OF assms(1), of offset] assms(2) by (simp add: off b cnt e_def f_def)
  show "c_int (int e) = Inr (int e)" using e by (intro c_int_ok) simp_all
  show "e < 2 ^ 31" using e by (simp add: INT_MAX_def)
  show "t < BLOCK_SIZE" by (simp add: t_def)
  show "remainder count (int cnt) = 0" using remainder_eq [OF assms(1), of cnt] by (simp add: cnt)
  note rest = transfer_rest(2) [OF assms(2), of off, folded b e_def f_def, folded k_def t_def]
  show "b = BLOCK_SIZE * f - off" "off \<le> BLOCK_SIZE * e" if "b \<noteq> cnt" using rest [OF that] by auto
  show k: "cnt = k + t" if "b \<noteq> cnt" using rest [OF that] by auto
  show "k + t < 2 ^ 31" if "b \<noteq> cnt" using k [OF that] c by simp
  show "remainder count (int k) = int t" if "b \<noteq> cnt"
    using remainder_eq [OF assms(1), of k] k [OF that] by (simp flip: cnt)
qed

text \<open>A request that ends in its first block is served completely.\<close>

lemma first_part_serves:
  assumes "0 < cnt" and "blocks_needed off \<le> n \<or> off = BLOCK_SIZE * blocks_needed off"
    and "part_bytes off cnt (blocks_needed off) = cnt"
  shows "min cnt (BLOCK_SIZE * n - off) = cnt"
proof -
  let ?f = "blocks_needed off"
  have "off mod BLOCK_SIZE \<noteq> 0" using transfer_plan(5) [OF assms(1), of off] assms(1,3) by simp
  then have "off \<noteq> BLOCK_SIZE * ?f" by (metis mod_mult_self1_is_0)
  with assms(2) have "BLOCK_SIZE * ?f \<le> BLOCK_SIZE * n" by simp
  moreover have "cnt \<le> BLOCK_SIZE * ?f - off" using assms(3) by (simp add: part_bytes_def)
  ultimately show ?thesis by linarith
qed

text \<open>The last two parts, after the \<open>b\<close> bytes of the first one.\<close>

lemma read_rest_ok:
  assumes "transfer s fd xs C" and "fd_entry fd s = Inr d" and "small_count count" and "0 < cnt"
    and "cnt \<le> length buf" and start: "uint start = int (blocks_needed off)"
    and off: "off = unat (fd_offset d)" and cnt: "cnt = unat count"
    and pre: "blocks_needed off \<le> length xs \<or> off = BLOCK_SIZE * blocks_needed off"
    and b: "b = part_bytes off cnt (blocks_needed off)"
    and r: "r = min cnt (BLOCK_SIZE * length xs - off)"
  shows "read_rest fd count (fd_offset d) (int (blocks_needed (off + cnt))) start
      (int b) (got C off b buf) s =
    Inr (int r, Some (got C off r buf),
         if r = cnt
         then set_fd_entry fd (Some (d\<lparr>fd_offset := fd_offset d + ucast count\<rparr>)) s
         else s)"
proof -
  define e f n k t where "e = full_end off cnt" and "f = blocks_needed off" and "n = length xs"
    and "k = BLOCK_SIZE * e - off" and "t = (off + cnt) mod BLOCK_SIZE"
  note rest = transfer_rest [OF assms(4), of off, folded b e_def f_def, folded k_def t_def]
    and am = rest_amounts [OF assms(3,4) off cnt b, folded e_def f_def, folded k_def t_def]
    and fin = finish_read_all [OF assms(2) cnt]
  note run = read_rest_def am(1,2) start [folded f_def] and_then_buf_def fin
  show ?thesis
  proof (cases "b = cnt")
    case True
    then have "r = cnt" using first_part_serves [OF assms(4) pre] by (simp add: b r)
    with True rest(1) am(1,2,5) show ?thesis by (simp add: run read_full_blocks.simps)
  next
    case False
    note k = am(6-10) [OF False]
    have kb: "BLOCK_SIZE * e - off \<le> length buf" "BLOCK_SIZE * e - off < 2 ^ 31"
      using k(2,4) assms(5) by (simp_all flip: k_def)
    note full = read_full_blocks_ok [OF assms(1) transfer_plan(1,2) [OF assms(4), of off, folded f_def e_def]
        kb(1) pre [folded f_def] kb(2), folded k(1), folded k_def n_def]
    note sv = served [OF k(2) [unfolded k_def] assms(4) k(3) am(4) pre [folded f_def n_def], folded k_def,
        unfolded n_def, folded r, folded n_def]
    consider "n < e" "e \<noteq> f" | "e \<le> n \<or> e = f" "t = 0" | "e \<le> n \<or> e = f" "t \<noteq> 0" by linarith
    then show ?thesis
    proof cases
      case 1
      with sv(3) full show ?thesis by (simp add: run)
    next
      case 2
      with sv(1) am(1,2) full k fin show ?thesis by (simp add: run)
    next
      case 3
      have "read_last_block fd (got C off k buf) (int (blocks_needed (off + cnt))) (int k) (int t) s =
        Inr (if e < n then (Next (int cnt), got C off cnt buf, s)
             else (Return (int k), got C off k buf, s))"
        using read_last_block_ok [OF assms(1) k(3) am(4), of buf, folded k_def n_def]
          k assms(5) am(3) 3(2) rest(3) [OF False] by simp
      with 3 sv(1) [OF 3(1)] sv(2) [OF 3] am(1,2,4) full k fin show ?thesis
        by (cases "e < n") (simp_all add: run)
    qed
  qed
qed

text \<open>
  \<open>fs_read\<close>: \<open>r\<close> bytes are read, up to the end of the last block of the chain; the offset moves only
  when the whole request was served.
\<close>

lemma fs_read_ok:
  assumes "transfer s (nat fd) xs C" and "fd_rejected fd s = Inr False" and "fd_entry (nat fd) s = Inr d"
    and "small_count count" and "0 < cnt" and "cnt \<le> length buf"
    and off: "off = unat (fd_offset d)" and cnt: "cnt = unat count"
    and r: "r = min cnt (BLOCK_SIZE * length xs - off)"
  shows "fs_read fd (Some buf) count s =
    Inr (int r, Some (got C off r buf),
         if r = cnt
         then set_fd_entry (nat fd) (Some (d\<lparr>fd_offset := fd_offset d + ucast count\<rparr>)) s
         else s)"
proof -
  have st: "fs_read fd (Some buf) count s =
     (if off mod BLOCK_SIZE \<noteq> 0
     then and_then_buf (read_first_block (nat fd) buf count (fd_offset d) s)
            (read_rest (nat fd) count (fd_offset d) (int (blocks_needed (off + cnt)))
              (of_nat (off div BLOCK_SIZE) + 1))
     else read_rest (nat fd) count (fd_offset d) (int (blocks_needed (off + cnt)))
            (of_nat (off div BLOCK_SIZE)) 0 buf s)"
    by (simp add: fs_read_def assms(2,3) find_num_target_blocks_eq [OF assms(4)] off cnt Let_def)
  note rest = read_rest_ok [OF assms(1,3-6) _ off cnt _ refl r]
    and us = uint_full_start [of "fd_offset d", folded off]
  show ?thesis
  proof (cases "off mod BLOCK_SIZE = 0")
    case True
    then have "off = BLOCK_SIZE * blocks_needed off" by (auto simp: blocks_needed_def)
    with rest [of "of_nat (off div BLOCK_SIZE)"] True st us part_bytes_aligned [OF True] show ?thesis
      by simp
  next
    case False
    let ?b = "part_bytes off cnt (blocks_needed off)"
    have first: "read_first_block (nat fd) buf count (fd_offset d) s =
      Inr (if off div BLOCK_SIZE < length xs then (Next (int ?b), got C off ?b buf, s)
        else (Return 0, buf, s))"
      using read_first_block_ok [OF assms(1,4), of "fd_offset d"] False assms(6) off cnt by simp
    show ?thesis
    proof (cases "off div BLOCK_SIZE < length xs")
      case True
      then have "blocks_needed off \<le> length xs" by (simp add: blocks_needed_def)
      with rest [of "of_nat (off div BLOCK_SIZE) + 1"] True False st us first show ?thesis
        by (simp add: and_then_buf_def)
    next
      case ge: False
      then have "BLOCK_SIZE * length xs \<le> BLOCK_SIZE * (off div BLOCK_SIZE)" by simp
      also have "\<dots> \<le> off" by simp
      finally have "r = 0" by (simp add: r)
      with ge False st first assms(5) show ?thesis by (simp add: and_then_buf_def)
    qed
  qed
qed

end
