(* ===== verification/Writing.thy ===== *)
theory Writing
  imports Reading
begin

text \<open>
  What \<open>fs_write\<close> does: the chain grows as \<open>allocate_blocks_in_fat\<close> says, the bytes of the request
  overwrite the file's data from the offset on as far as the chain reaches, and no other block of the
  disk changes.
\<close>

section \<open>Rewriting the blocks of a file\<close>

text \<open>
  \<open>rewritten bs C d d'\<close>: the disk \<open>d'\<close> holds \<open>C\<close> in the blocks \<open>bs\<close> and agrees with \<open>d\<close> everywhere
  else. \<open>put_data C off k buf\<close>: the data after the first \<open>k\<close> bytes of \<open>buf\<close> have been written at \<open>off\<close>.
\<close>

definition rewritten :: "nat list \<Rightarrow> byte list \<Rightarrow> dev \<Rightarrow> dev \<Rightarrow> bool" where
  "rewritten bs C d d' \<longleftrightarrow>
     disk_ok d' \<and> calm d' \<and> disk d' = disk d \<and> host_fds (host d') = host_fds (host d) \<and>
     host_next (host d') = host_next (host d) \<and>
     blocks_content (block_at d') bs = C \<and> (\<forall>b. b \<notin> set bs \<longrightarrow> block_at d' b = block_at d b)"

definition put_data :: "byte list \<Rightarrow> nat \<Rightarrow> nat \<Rightarrow> byte list \<Rightarrow> byte list" where
  "put_data C off k buf = overwrite C off (take k buf)"

lemma rewritten_refl:
  "disk_ok d \<Longrightarrow> calm d \<Longrightarrow> blocks_content (block_at d) bs = C \<Longrightarrow> rewritten bs C d d"
  by (simp add: rewritten_def)

lemma rewritten_self: "transfer s fd xs C \<Longrightarrow> rewritten (disk_blocks s xs) C (dev s) (dev s)"
  by (simp add: transfer_def data_ready_def rewritten_refl)

lemma rewritten_trans: "rewritten bs C d d1 \<Longrightarrow> rewritten bs C' d1 d2 \<Longrightarrow> rewritten bs C' d d2"
  by (simp add: rewritten_def)

lemma put_data_0 [simp]: "put_data C off 0 buf = C"
  by (simp add: put_data_def)

lemma length_put_data: "off + k \<le> length C \<Longrightarrow> length (put_data C off k buf) = length C"
  by (simp add: put_data_def)

lemma put_data_step:
  assumes "off + k \<le> length C" and "k \<le> length buf"
  shows "overwrite (put_data C off k buf) (off + k) (take m (drop k buf)) = put_data C off (k + m) buf"
proof -
  have "length (take k buf) = k" using assms(2) by simp
  then show ?thesis
    using overwrite_overwrite [of off "take k buf" C "take m (drop k buf)"] assms(1)
    by (simp add: put_data_def take_add)
qed

lemma overwrite_part:
  assumes "j + length ys \<le> B" and "p + B \<le> length C"
  shows "overwrite C p (overwrite (take B (drop p C)) j ys) = overwrite C (p + j) ys"
proof (rule nth_equalityI)
  have l: "length (take B (drop p C)) = B" "length (overwrite (take B (drop p C)) j ys) = B"
    using assms by simp_all
  then show "length (overwrite C p (overwrite (take B (drop p C)) j ys)) = length (overwrite C (p + j) ys)"
    using assms by simp
  fix i assume "i < length (overwrite C p (overwrite (take B (drop p C)) j ys))"
  then have i: "i < length C" using assms l by simp
  show "overwrite C p (overwrite (take B (drop p C)) j ys) ! i = overwrite C (p + j) ys ! i"
    using assms l i by (auto simp: nth_overwrite)
qed

lemma file_at_dev [simp]: "file_at p (s\<lparr>dev := d\<rparr>) = file_at p s"
  by (simp add: file_at_def split: option.split)

lemma opened_file_dev [simp]: "opened_file fd (s\<lparr>dev := d\<rparr>) = opened_file fd s"
  by (simp add: opened_file_def fd_entry_def)

lemma fd_entry_dev [simp]: "fd_entry fd (s\<lparr>dev := d\<rparr>) = fd_entry fd s"
  by (simp add: fd_entry_def)

lemma disk_blocks_dev [simp]: "disk_blocks (s\<lparr>dev := d\<rparr>) xs = disk_blocks s xs"
  by (simp add: disk_blocks_def the_sb_def)

lemma transfer_rewritten:
  assumes "transfer s fd xs C" and "rewritten (disk_blocks s xs) C' (dev s) d"
  shows "transfer (s\<lparr>dev := d\<rparr>) fd xs C'"
proof -
  have "blocks d = blocks (dev s)" using assms(2) by (simp add: rewritten_def blocks_def)
  with assms show ?thesis
    by (simp add: transfer_def data_ready_def rewritten_def layout_ok_def fat_ok_def the_fat_def the_sb_def)
qed

text \<open>Writing block \<open>n\<close> of an open file.\<close>

lemma transfer_write:
  assumes "transfer s fd xs C" and "n < length xs"
  obtains index where "data_block fd (int n) s = Inr (Some index)"
    and "read_bounce index s = Inr (0, take BLOCK_SIZE (drop (BLOCK_SIZE * n) C), s)"
    and "\<And>buf. length buf = BLOCK_SIZE \<Longrightarrow> \<exists>d'. block_write (ucast index) buf (dev s) = (0, d') \<and>
      rewritten (disk_blocks s xs) (overwrite C (BLOCK_SIZE * n) buf) (dev s) d' \<and>
      discard_read index (s\<lparr>dev := d'\<rparr>) = s\<lparr>dev := d'\<rparr>"
proof -
  from assms obtain a f where t: "data_ready s" "opened_file fd s = Inr (a, f)"
    "chain (the_fat s) (first_index f) xs"
    and C: "C = blocks_content (block_at (dev s)) (disk_blocks s xs)"
    by (auto simp: transfer_def)
  from data_block_ok(1) [OF t assms(2)] obtain index where index:
    "data_block fd (int n) s = Inr (Some index)" "unat (ucast index :: u64) = disk_blocks s xs ! n"
    by blast
  have d: "disk_ok (dev s)" "calm (dev s)" "layout_ok s" using t(1) by (simp_all add: data_ready_def)
  have lt: "unat (ucast index :: u64) < blocks (dev s)"
    using disk_blocks_range [OF d(3) t(3)] assms(2) index(2) by simp
  have w: "\<exists>d'. block_write (ucast index) buf (dev s) = (0, d') \<and>
      rewritten (disk_blocks s xs) (overwrite C (BLOCK_SIZE * n) buf) (dev s) d' \<and>
      discard_read index (s\<lparr>dev := d'\<rparr>) = s\<lparr>dev := d'\<rparr>" if buf: "length buf = BLOCK_SIZE" for buf
  proof (intro exI conjI)
    let ?d = "put_block (disk_blocks s xs ! n) buf (dev s)"
    show "block_write (ucast index) buf (dev s) = (0, ?d)"
      using block_write_ok [OF d(1,2) lt] index(2) by simp
    have ok: "disk_ok ?d" using put_block_disk_ok [OF d(1) _ buf] lt index(2) by simp
    have "blocks_content (block_at ?d) (disk_blocks s xs) = overwrite C (BLOCK_SIZE * n) buf"
      unfolding C
      by (rule vd.content_put [OF d(1) disk_blocks_range [OF d(3) t(3)] distinct_disk_blocks])
        (use chain_distinct [OF t(3)] assms(2) buf in simp_all)
    moreover have "block_at ?d b = block_at (dev s) b" if "b \<notin> set (disk_blocks s xs)" for b
      using block_at_put_other [OF d(1) _ buf, of "disk_blocks s xs ! n" b] lt index(2) that assms(2)
      by (metis length_disk_blocks nth_mem)
    ultimately show "rewritten (disk_blocks s xs) (overwrite C (BLOCK_SIZE * n) buf) (dev s) ?d"
      using ok d(2) by (simp add: rewritten_def)
    show "discard_read index (s\<lparr>dev := ?d\<rparr>) = s\<lparr>dev := ?d\<rparr>"
      by (rule discard_read_ok) (use ok d(2) lt in simp_all)
  qed
  from transfer_block(1) [OF assms] index(1)
  have "read_bounce index s = Inr (0, take BLOCK_SIZE (drop (BLOCK_SIZE * n) C), s)" by auto
  from that [OF index(1) this w] show ?thesis .
qed

section \<open>The three parts\<close>

lemma write_first_block_ok:
  assumes "transfer s fd xs C" and "small_count count" and "unat offset mod BLOCK_SIZE \<noteq> 0"
    and "cnt \<le> length buf" and off: "off = unat offset" and cnt: "cnt = unat count"
    and b: "b = part_bytes off cnt (blocks_needed off)"
    and k: "k = (if off div BLOCK_SIZE < length xs then b else 0)"
  shows "\<exists>d'. write_first_block fd buf count offset s =
      Inr (if off div BLOCK_SIZE < length xs then Next (int b) else Return 0, s\<lparr>dev := d'\<rparr>) \<and>
    rewritten (disk_blocks s xs) (put_data C off k buf) (dev s) d'"
proof (cases "off div BLOCK_SIZE < length xs")
  case False
  show ?thesis
    using False transfer_block(2) [OF assms(1), of "off div BLOCK_SIZE"] rewritten_self [OF assms(1)]
    by (intro exI [of _ "dev s"]) (simp add: write_first_block_def off k)
next
  case True
  let ?q = "off div BLOCK_SIZE" and ?m = "off mod BLOCK_SIZE"
  let ?blk = "take BLOCK_SIZE (drop (BLOCK_SIZE * ?q) C)"
  from transfer_write [OF assms(1) True] obtain index where i:
    "data_block fd (int ?q) s = Inr (Some index)" "read_bounce index s = Inr (0, ?blk, s)"
    "\<And>buf. length buf = BLOCK_SIZE \<Longrightarrow> \<exists>d'. block_write (ucast index) buf (dev s) = (0, d') \<and>
      rewritten (disk_blocks s xs) (overwrite C (BLOCK_SIZE * ?q) buf) (dev s) d'" by metis
  have offq: "off = BLOCK_SIZE * ?q + ?m" by simp
  have bf: "BLOCK_SIZE * blocks_needed off = BLOCK_SIZE * ?q + BLOCK_SIZE"
    using assms(3) by (simp add: off blocks_needed_def)
  have bl: "b \<le> cnt" "?m + b \<le> BLOCK_SIZE"
    using offq bf mod_less_divisor [OF BLOCK_SIZE_pos(1), of off]
    unfolding b part_bytes_def by linarith+
  have lC: "BLOCK_SIZE * ?q + BLOCK_SIZE \<le> length C"
    using block_end_le [OF True] transfer_length [OF assms(1)] by simp
  have ub: "unat (first_amount offset count) = b"
    using unat_first_amount [OF assms(2,3)] by (simp add: b off cnt)
  have l: "load_bytes buf 0 b = Inr (take b buf)" using bl(1) assms(4) by (subst load_bytes_ok) simp_all
  have lb: "length ?blk = BLOCK_SIZE" using lC by simp
  have st: "store_bytes ?blk ?m (take b buf) = Inr (overwrite ?blk ?m (take b buf))"
    using bl assms(4) lb by (subst store_bytes_ok) simp_all
  have "length (overwrite ?blk ?m (take b buf)) = BLOCK_SIZE" using bl assms(4) lb by simp
  from i(3) [OF this] obtain d' where d': "block_write (ucast index) (overwrite ?blk ?m (take b buf)) (dev s) = (0, d')"
    "rewritten (disk_blocks s xs) (overwrite C (BLOCK_SIZE * ?q) (overwrite ?blk ?m (take b buf))) (dev s) d'"
    by blast
  have "overwrite C (BLOCK_SIZE * ?q) (overwrite ?blk ?m (take b buf)) = put_data C off k buf"
    using overwrite_part [of ?m "take b buf" BLOCK_SIZE "BLOCK_SIZE * ?q" C] bl assms(4) lC True
    by (simp add: put_data_def k)
  moreover have "uint (first_amount offset count) = int b" using ub by (simp add: uint_eq_int_iff)
  ultimately show ?thesis
    using True i l ub d' st by (intro exI [of _ d']) (simp add: write_first_block_def off [symmetric])
qed

text \<open>The step from block \<open>i\<close> to block \<open>i + 1\<close>.\<close>

lemma write_full_block_step:
  assumes "transfer s fd xs (put_data C off (BLOCK_SIZE * i - off) buf)"
    and "length C = BLOCK_SIZE * length xs" and "off \<le> BLOCK_SIZE * i" and "i < e" and "i < length xs"
    and "BLOCK_SIZE * e - off \<le> length buf" and "BLOCK_SIZE * e - off < 2 ^ 31"
  obtains d1 where "write_full_blocks fd buf (int i) (int e) (int (BLOCK_SIZE * i - off)) s =
      write_full_blocks fd buf (int (Suc i)) (int e) (int (BLOCK_SIZE * Suc i - off)) (s\<lparr>dev := d1\<rparr>)"
    and "rewritten (disk_blocks s xs) (put_data C off (BLOCK_SIZE * Suc i - off) buf) (dev s) d1"
proof -
  let ?b = "BLOCK_SIZE * i - off" and ?src = "take BLOCK_SIZE (drop (BLOCK_SIZE * i - off) buf)"
  have le: "BLOCK_SIZE * i + BLOCK_SIZE \<le> BLOCK_SIZE * e" by (rule block_end_le [OF assms(4)])
  have lC: "BLOCK_SIZE * i + BLOCK_SIZE \<le> length C"
    using block_end_le [OF assms(5)] assms(2) by simp
  have b: "?b + BLOCK_SIZE \<le> length buf" "off + ?b = BLOCK_SIZE * i" "?b + BLOCK_SIZE = BLOCK_SIZE * Suc i - off"
    using le assms(3,6) by simp_all
  have "length ?src = BLOCK_SIZE" using b(1) by simp
  with transfer_write [OF assms(1,5)] obtain index d1 where w:
    "data_block fd (int i) s = Inr (Some index)"
    "block_write (ucast index) ?src (dev s) = (0, d1)"
    "rewritten (disk_blocks s xs) (overwrite (put_data C off ?b buf) (BLOCK_SIZE * i) ?src) (dev s) d1"
    "discard_read index (s\<lparr>dev := d1\<rparr>) = s\<lparr>dev := d1\<rparr>" by metis
  have "overwrite (put_data C off ?b buf) (BLOCK_SIZE * i) ?src = put_data C off (BLOCK_SIZE * Suc i - off) buf"
    using put_data_step [of off ?b C buf BLOCK_SIZE] b lC by simp
  with w(3) have rw: "rewritten (disk_blocks s xs) (put_data C off (BLOCK_SIZE * Suc i - off) buf) (dev s) d1"
    by simp
  have c: "c_int (int ?b + int BLOCK_SIZE) = Inr (int (BLOCK_SIZE * Suc i - off))"
    using le assms(7) b(3) by (subst c_int_ok) (simp_all add: INT_MAX_def)
  have l: "load_bytes buf ?b BLOCK_SIZE = Inr ?src" using b(1) by (subst load_bytes_ok) simp_all
  show ?thesis
    by (rule that [OF _ rw], subst write_full_blocks.simps) (use w assms(4) c l in \<open>simp add: add.commute\<close>)
qed

lemma write_full_blocks_ok:
  assumes "transfer s fd xs (put_data C off (BLOCK_SIZE * i - off) buf)"
    and "length C = BLOCK_SIZE * length xs"
    and "off \<le> BLOCK_SIZE * i" and "i \<le> e" and "BLOCK_SIZE * e - off \<le> length buf"
    and "i \<le> length xs \<or> off = BLOCK_SIZE * i" and "BLOCK_SIZE * e - off < 2 ^ 31"
    and "k = (if e \<le> length xs \<or> e = i then BLOCK_SIZE * e - off else BLOCK_SIZE * length xs - off)"
  shows "\<exists>d'. write_full_blocks fd buf (int i) (int e) (int (BLOCK_SIZE * i - off)) s =
      Inr (if e \<le> length xs \<or> e = i then Next (int k) else Return (int k), s\<lparr>dev := d'\<rparr>) \<and>
    rewritten (disk_blocks s xs) (put_data C off k buf) (dev s) d'"
  using assms(1,3-8)
proof (induction "e - i" arbitrary: i s)
  case 0
  then have "i = e" by simp
  with 0 rewritten_self [OF 0(2)] show ?case by (intro exI [of _ "dev s"]) (simp add: write_full_blocks.simps)
next
  case (Suc m)
  then have ie: "i < e" and m: "m = e - Suc i" by simp_all
  show ?case
  proof (cases "i < length xs")
    case False
    with Suc.prems have "BLOCK_SIZE * length xs - off = BLOCK_SIZE * i - off"
      by (cases "i = length xs") auto
    with False ie Suc.prems(7) show ?thesis
      using transfer_block(2) [OF Suc.prems(1), of i] rewritten_self [OF Suc.prems(1)]
      by (intro exI [of _ "dev s"]) (simp add: write_full_blocks.simps)
  next
    case True
    obtain d1 where st: "write_full_blocks fd buf (int i) (int e) (int (BLOCK_SIZE * i - off)) s =
        write_full_blocks fd buf (int (Suc i)) (int e) (int (BLOCK_SIZE * Suc i - off)) (s\<lparr>dev := d1\<rparr>)"
      and rw: "rewritten (disk_blocks s xs) (put_data C off (BLOCK_SIZE * Suc i - off) buf) (dev s) d1"
      by (rule write_full_block_step [OF Suc.prems(1) assms(2) Suc.prems(2) ie True Suc.prems(4,6)])
    have el: "(e \<le> length xs \<or> e = Suc i) = (e \<le> length xs)"
      "(e \<le> length xs \<or> e = i) = (e \<le> length xs)" using True ie by auto
    from Suc.hyps(1) [OF m transfer_rewritten [OF Suc.prems(1) rw], unfolded el] Suc.prems(2,4,6,7) ie True el
    obtain d' where "write_full_blocks fd buf (int (Suc i)) (int e) (int (BLOCK_SIZE * Suc i - off)) (s\<lparr>dev := d1\<rparr>) =
        Inr (if e \<le> length xs then Next (int k) else Return (int k), s\<lparr>dev := d'\<rparr>)"
      "rewritten (disk_blocks s xs) (put_data C off k buf) d1 d'" by (auto simp del: of_nat_diff)
    with rewritten_trans [OF rw] show ?thesis unfolding el st by auto
  qed
qed

lemma write_last_block_ok:
  assumes "transfer s fd xs (put_data C off k buf)" and "length C = BLOCK_SIZE * length xs"
    and "off \<le> BLOCK_SIZE * e" and "m < BLOCK_SIZE" and k: "k = BLOCK_SIZE * e - off"
    and "k + m \<le> length buf" and "k + m < 2 ^ 31" and "e < 2 ^ 31"
    and k': "k' = (if e < length xs then k + m else k)"
  shows "\<exists>d'. write_last_block fd buf (int (Suc e)) (int k) (int m) s =
      Inr (if e < length xs then Next (int k') else Return (int k'), s\<lparr>dev := d'\<rparr>) \<and>
    rewritten (disk_blocks s xs) (put_data C off k' buf) (dev s) d'"
proof -
  have c: "c_int (int (Suc e) - 1) = Inr (int e)"
    using assms(8) by (subst c_int_ok) (simp_all add: INT_MAX_def)
  show ?thesis
  proof (cases "e < length xs")
    case False
    with c show ?thesis
      using transfer_block(2) [OF assms(1), of e] rewritten_self [OF assms(1)]
      by (intro exI [of _ "dev s"]) (simp add: write_last_block_def k')
  next
    case True
    let ?D = "put_data C off k buf"
    let ?blk = "take BLOCK_SIZE (drop (BLOCK_SIZE * e) ?D)" and ?src = "take m (drop k buf)"
    have lC: "BLOCK_SIZE * e + BLOCK_SIZE \<le> length C"
      using block_end_le [OF True] assms(2) by simp
    have ek: "off + k = BLOCK_SIZE * e" using assms(3) by (simp add: k)
    have lD: "length ?D = length C" using ek lC by (intro length_put_data) simp
    have lb: "length ?blk = BLOCK_SIZE" "length ?src = m" using lD lC assms(6) by simp_all
    then have "length (overwrite ?blk 0 ?src) = BLOCK_SIZE" using assms(4) by simp
    with transfer_write [OF assms(1) True] obtain index d' where w:
      "data_block fd (int e) s = Inr (Some index)" "read_bounce index s = Inr (0, ?blk, s)"
      "block_write (ucast index) (overwrite ?blk 0 ?src) (dev s) = (0, d')"
      "rewritten (disk_blocks s xs) (overwrite ?D (BLOCK_SIZE * e) (overwrite ?blk 0 ?src)) (dev s) d'"
      by metis
    have "overwrite ?D (BLOCK_SIZE * e) (overwrite ?blk 0 ?src) = put_data C off (k + m) buf"
      using overwrite_part [of 0 ?src BLOCK_SIZE "BLOCK_SIZE * e" ?D] put_data_step [of off k C buf m]
        lb lC lD assms(4,6) ek by simp
    moreover have "size_of_int (int m) = m"
      using assms(4) by (intro size_of_int_nat) (simp add: BLOCK_SIZE_def)
    moreover have "load_bytes buf k m = Inr ?src" using assms(6) by (subst load_bytes_ok) simp_all
    moreover have "store_bytes ?blk 0 ?src = Inr (overwrite ?blk 0 ?src)"
      using lb assms(4) by (subst store_bytes_ok) simp_all
    moreover have "c_int (int k + int m) = Inr (int (k + m))"
      using assms(7) by (subst c_int_ok) (simp_all add: INT_MAX_def)
    ultimately show ?thesis
      using True c w by (intro exI [of _ d']) (simp add: write_last_block_def k')
  qed
qed

text \<open>The descriptor and the file after a complete write of \<open>cnt\<close> bytes.\<close>

definition advanced :: "nat \<Rightarrow> addr \<Rightarrow> File \<Rightarrow> FileDescriptor \<Rightarrow> nat \<Rightarrow> fs \<Rightarrow> fs" where
  "advanced fd a f d cnt s =
     set_file a (f\<lparr>file_size := file_size f + of_nat cnt\<rparr>)
       (set_fd_entry fd (Some (d\<lparr>fd_offset := fd_offset d + of_nat cnt\<rparr>)) s)"

lemma fd_entryD: "fd_entry fd s = Inr d \<Longrightarrow> fd < length (open_files s) \<and> open_files s ! fd = Some d"
  by (auto simp: fd_entry_def bnd_eq_Inr_iff split: option.splits)

lemma file_at_set_fd_entry [simp]: "file_at p (set_fd_entry fd e s) = file_at p s"
  by (simp add: file_at_def split: option.split)

lemma opened_file_set_offset:
  assumes "fd_entry fd s = Inr d"
  shows "opened_file fd (set_fd_entry fd (Some (d\<lparr>fd_offset := x\<rparr>)) s) = opened_file fd s"
  using fd_entryD [OF assms] by (simp add: opened_file_def fd_entry_def fetch_def)

lemma finish_write_ok:
  assumes "fd_entry fd s = Inr d" and "opened_file fd s = Inr (a, f)"
  shows "finish_write fd (int cnt) s = Inr (int cnt, advanced fd a f d cnt s)"
  using assms by (simp add: finish_write_def opened_file_set_offset advanced_def)

lemma write_rest_ok:
  assumes "transfer s fd xs (put_data C off b buf)" and "length C = BLOCK_SIZE * length xs"
    and "fd_entry fd s = Inr d" and "opened_file fd s = Inr (a, f)" and "small_count count" and "0 < cnt"
    and "cnt \<le> length buf" and start: "uint start = int (blocks_needed off)"
    and off: "off = unat (fd_offset d)" and cnt: "cnt = unat count"
    and pre: "blocks_needed off \<le> length xs \<or> off = BLOCK_SIZE * blocks_needed off"
    and b: "b = part_bytes off cnt (blocks_needed off)"
    and r: "r = min cnt (BLOCK_SIZE * length xs - off)"
  shows "\<exists>d'. write_rest fd buf count (fd_offset d) (int (blocks_needed (off + cnt))) start (int b) s =
      Inr (int r, if r = cnt then advanced fd a f d cnt (s\<lparr>dev := d'\<rparr>) else s\<lparr>dev := d'\<rparr>) \<and>
    rewritten (disk_blocks s xs) (put_data C off r buf) (dev s) d'"
proof -
  define e g n k t where "e = full_end off cnt" and "g = blocks_needed off" and "n = length xs"
    and "k = BLOCK_SIZE * e - off" and "t = (off + cnt) mod BLOCK_SIZE"
  note rest = transfer_rest [OF assms(6), of off, folded b e_def g_def, folded k_def t_def]
    and am = rest_amounts [OF assms(5,6) off cnt b, folded e_def g_def, folded k_def t_def]
  have fin: "finish_write fd (int cnt) (s\<lparr>dev := x\<rparr>) = Inr (int cnt, advanced fd a f d cnt (s\<lparr>dev := x\<rparr>))"
    for x by (rule finish_write_ok) (simp_all add: assms(3,4))
  note run = write_rest_def am(1,2) start [folded g_def] and_then_def fin
  show ?thesis
  proof (cases "b = cnt")
    case True
    then have "r = cnt" using first_part_serves [OF assms(6) pre] by (simp add: b r)
    with True rest(1) am(1,2,5) rewritten_self [OF assms(1)] fin [of "dev s"] show ?thesis
      by (intro exI [of _ "dev s"]) (simp add: run write_full_blocks.simps)
  next
    case False
    note k = am(6-10) [OF False]
    have kb: "BLOCK_SIZE * e - off \<le> length buf" "BLOCK_SIZE * e - off < 2 ^ 31"
      using k(2,4) assms(7) by (simp_all flip: k_def)
    obtain d1 where d1: "write_full_blocks fd buf (int g) (int e) (int b) s =
        Inr (if e \<le> n \<or> e = g then Next (int k) else Return (int (BLOCK_SIZE * n - off)), s\<lparr>dev := d1\<rparr>)"
      "rewritten (disk_blocks s xs) (put_data C off
        (if e \<le> n \<or> e = g then k else BLOCK_SIZE * n - off) buf) (dev s) d1"
      using write_full_blocks_ok [OF assms(1) [unfolded k(1)] assms(2)
          transfer_plan(1,2) [OF assms(6), of off, folded g_def e_def] kb(1) pre [folded g_def] kb(2) refl,
          folded k(1), folded k_def n_def] by (auto split: if_splits)
    note sv = served [OF k(2) [unfolded k_def] assms(6) k(3) am(4) pre [folded g_def n_def], folded k_def,
        unfolded n_def, folded r, folded n_def]
    consider "n < e" "e \<noteq> g" | "e \<le> n \<or> e = g" "t = 0" | "e \<le> n \<or> e = g" "t \<noteq> 0" by linarith
    then show ?thesis
    proof cases
      case 1
      with sv(3) d1 show ?thesis by (intro exI [of _ d1]) (simp add: run)
    next
      case 2
      with sv(1) am(1,2) d1 k(2,5) fin [of d1] show ?thesis by (intro exI [of _ d1]) (simp add: run)
    next
      case 3
      have d1': "rewritten (disk_blocks s xs) (put_data C off k buf) (dev s) d1" using d1(2) 3(1) by simp
      have "k + t \<le> length buf" using k(2) assms(7) by simp
      from write_last_block_ok [OF transfer_rewritten [OF assms(1) d1'] assms(2) k(3) am(4) k_def this k(4) am(3) refl]
      obtain d2 where d2: "write_last_block fd buf (int (blocks_needed (off + cnt))) (int k) (int t) (s\<lparr>dev := d1\<rparr>) =
          Inr (if e < n then Next (int cnt) else Return (int k), s\<lparr>dev := d2\<rparr>)"
        "rewritten (disk_blocks s xs) (put_data C off (if e < n then cnt else k) buf) d1 d2"
        using rest(3) [OF False 3(2)] k(2) by (auto simp: n_def split: if_splits)
      from 3 sv(1) [OF 3(1)] sv(2) [OF 3] d1(1) fin [of d2] am(1,2,4) k(5) d2(1) rewritten_trans [OF d1' d2(2)]
      show ?thesis by (intro exI [of _ d2], cases "e < n") (simp_all add: run)
    qed
  qed
qed

section \<open>fs\_write\<close>

text \<open>The three parts after the allocation, as \<open>fs_write\<close> puts them together.\<close>

definition write_parts :: "nat \<Rightarrow> byte list \<Rightarrow> u64 \<Rightarrow> FileDescriptor \<Rightarrow> fs \<Rightarrow> (int \<times> fs) res" where
  "write_parts fd buf count d s =
     (let off = unat (fd_offset d); T = int (blocks_needed (off + unat count)); start = of_nat (off div BLOCK_SIZE) in
      if off mod BLOCK_SIZE \<noteq> 0
      then and_then (write_first_block fd buf count (fd_offset d) s) (write_rest fd buf count (fd_offset d) T (start + 1))
      else write_rest fd buf count (fd_offset d) T start 0 s)"

lemma fs_write_parts:
  assumes "fd_rejected fd s = Inr False" and "fd_entry (nat fd) s = Inr d" and "small_count count" and "0 < unat count"
    and "allocate_blocks_in_fat (nat fd) (int (blocks_needed (unat (fd_offset d) + unat count))) s = Inr (v, s1)"
  shows "fs_write fd (Some buf) count s = write_parts (nat fd) buf count d s1"
  using assms(4,5)
  by (auto simp: fs_write_def write_parts_def assms(1,2) find_num_target_blocks_eq [OF assms(3)] Let_def)

lemma write_parts_ok:
  assumes "transfer s fd xs C" and "fd_entry fd s = Inr d" and "opened_file fd s = Inr (a, f)"
    and "small_count count" and "0 < cnt" and "cnt \<le> length buf"
    and off: "off = unat (fd_offset d)" and cnt: "cnt = unat count"
    and r: "r = min cnt (BLOCK_SIZE * length xs - off)"
  shows "\<exists>d'. write_parts fd buf count d s =
      Inr (int r, if r = cnt then advanced fd a f d cnt (s\<lparr>dev := d'\<rparr>) else s\<lparr>dev := d'\<rparr>) \<and>
    rewritten (disk_blocks s xs) (put_data C off r buf) (dev s) d'"
proof -
  note len = transfer_length [OF assms(1)]
    and us = uint_full_start [of "fd_offset d", folded off]
    and st = write_parts_def Let_def off [symmetric] cnt [symmetric] and_then_def
  let ?b = "part_bytes off cnt (blocks_needed off)"
  show ?thesis
  proof (cases "off mod BLOCK_SIZE = 0")
    case True
    have b: "?b = 0" by (rule part_bytes_aligned [OF True])
    have "off = BLOCK_SIZE * blocks_needed off" using True by (auto simp: blocks_needed_def)
    then show ?thesis
      using write_rest_ok [where b = 0 and C = C, OF _ len assms(2-6) _ off cnt _ b [symmetric] r,
          of "of_nat (off div BLOCK_SIZE)"] True us assms(1)
      by (simp add: st)
  next
    case False
    from write_first_block_ok [OF assms(1,4) _ assms(6) off cnt refl refl] False off
    obtain d1 where d1: "write_first_block fd buf count (fd_offset d) s =
        Inr (if off div BLOCK_SIZE < length xs then Next (int ?b) else Return 0, s\<lparr>dev := d1\<rparr>)"
      "rewritten (disk_blocks s xs) (put_data C off (if off div BLOCK_SIZE < length xs then ?b else 0) buf) (dev s) d1"
      by auto
    show ?thesis
    proof (cases "off div BLOCK_SIZE < length xs")
      case True
      then have "blocks_needed off \<le> length xs" by (simp add: blocks_needed_def)
      moreover from True d1(2) have rw: "rewritten (disk_blocks s xs) (put_data C off ?b buf) (dev s) d1" by simp
      ultimately obtain d2 where "write_rest fd buf count (fd_offset d) (int (blocks_needed (off + cnt)))
          (of_nat (off div BLOCK_SIZE) + 1) (int ?b) (s\<lparr>dev := d1\<rparr>) =
          Inr (int r, if r = cnt then advanced fd a f d cnt (s\<lparr>dev := d2\<rparr>) else s\<lparr>dev := d2\<rparr>)"
        "rewritten (disk_blocks s xs) (put_data C off r buf) d1 d2"
        using write_rest_ok [OF transfer_rewritten [OF assms(1) rw] len _ _ assms(4-6) _ off cnt _ refl r,
            of a f "of_nat (off div BLOCK_SIZE) + 1"] assms(2,3) False us by (cases "r = cnt") auto
      with True False d1(1) rewritten_trans [OF rw] show ?thesis by (intro exI [of _ d2]) (simp add: st)
    next
      case ge: False
      then have "BLOCK_SIZE * length xs \<le> BLOCK_SIZE * (off div BLOCK_SIZE)" by simp
      also have "\<dots> \<le> off" by simp
      finally have "r = 0" by (simp add: r)
      with ge False d1 assms(5) show ?thesis by (intro exI [of _ d1]) (simp add: st)
    qed
  qed
qed

text \<open>The state after the allocation: the new table, and the first block in the directory entry.\<close>

definition allocated :: "u16 list \<Rightarrow> addr \<Rightarrow> File \<Rightarrow> u16 list \<Rightarrow> fs \<Rightarrow> fs" where
  "allocated F a f ys s = with_fat F (set_file a (f\<lparr>first_index := first_of ys\<rparr>) s)"

lemma allocated_transfer:
  assumes "data_ready s" and "opened_file fd s = Inr (a, f)" and "grown (the_fat s) F (first_of ys) ys"
  defines "s1 \<equiv> allocated F a f ys s"
  shows "transfer s1 fd ys (blocks_content (block_at (dev s)) (disk_blocks s ys))"
    and "opened_file fd s1 = Inr (a, f\<lparr>first_index := first_of ys\<rparr>)"
    and "fd_entry fd s1 = fd_entry fd s" and "dev s1 = dev s" and "disk_blocks s1 xs = disk_blocks s xs"
proof -
  from assms(1) have r: "fat_ok s" "layout_ok s" "disk_ok (dev s)" "calm (dev s)"
    by (simp_all add: data_ready_def)
  from assms(3) have g: "length F = length (the_fat s)" "chain F (first_of ys) ys"
    by (simp_all add: grown_def)
  have "fat_ok s1" unfolding s1_def allocated_def by (rule fat_ok_with_fat) (use r(1) g(1) in simp_all)
  show o: "opened_file fd s1 = Inr (a, f\<lparr>first_index := first_of ys\<rparr>)"
    by (simp add: s1_def allocated_def opened_file_set_file [OF assms(2)])
  show "fd_entry fd s1 = fd_entry fd s" by (simp add: s1_def allocated_def fd_entry_def)
  show d: "dev s1 = dev s" by (simp add: s1_def allocated_def)
  show db: "disk_blocks s1 xs = disk_blocks s xs" for xs
    by (simp add: s1_def allocated_def disk_blocks_def)
  have "data_ready s1"
    using r g(1) \<open>fat_ok s1\<close> by (simp add: data_ready_def layout_ok_def d) (simp add: s1_def allocated_def)
  with o g(2) show "transfer s1 fd ys (blocks_content (block_at (dev s)) (disk_blocks s ys))"
    by (simp add: transfer_def d db) (simp add: s1_def allocated_def)
qed

lemma fs_write_ok:
  assumes "data_ready s" and "fd_rejected fd s = Inr False" and "fd_entry (nat fd) s = Inr d"
    and "opened_file (nat fd) s = Inr (a, f)" and "chain (the_fat s) (first_index f) xs"
    and "small_count count" and "0 < cnt" and "cnt \<le> length buf"
    and off: "off = unat (fd_offset d)" and cnt: "cnt = unat count"
    and ys: "ys = xs @ fresh_blocks (the_fat s) (blocks_needed (off + cnt) - length xs)"
    and C: "C = blocks_content (block_at (dev s)) (disk_blocks s ys)"
    and r: "r = min cnt (BLOCK_SIZE * length ys - off)"
  obtains F d' where "fs_write fd (Some buf) count s =
      Inr (int r, if r = cnt
        then advanced (nat fd) a (f\<lparr>first_index := first_of ys\<rparr>) d cnt ((allocated F a f ys s)\<lparr>dev := d'\<rparr>)
        else (allocated F a f ys s)\<lparr>dev := d'\<rparr>)"
    and "grown (the_fat s) F (first_of ys) ys"
    and "rewritten (disk_blocks s ys) (put_data C off r buf) (dev s) d'"
proof -
  from assms(1) have "fat_ok s" by (simp add: data_ready_def)
  have T: "0 < blocks_needed (off + cnt)" using blocks_needed_le_iff [of "off + cnt" 0] assms(7) by simp
  from allocate_blocks_in_fat_ok [OF \<open>fat_ok s\<close> assms(4,5) T, folded ys]
  obtain F v where F: "allocate_blocks_in_fat (nat fd) (int (blocks_needed (off + cnt))) s =
      Inr (v, allocated F a f ys s)" "grown (the_fat s) F (first_of ys) ys"
    by (auto simp: allocated_def)
  note al = allocated_transfer [OF assms(1,4) F(2), folded C]
  have "fs_write fd (Some buf) count s = write_parts (nat fd) buf count d (allocated F a f ys s)"
    using F(1) assms(7) by (intro fs_write_parts [OF assms(2,3,6)]) (simp_all add: off cnt)
  with write_parts_ok [OF al(1) _ al(2) assms(6-8) off cnt r] al(3-5) assms(3) F(2) that show ?thesis by auto
qed

end
