(* ===== verification/Invariant.thy ===== *)
theory Invariant
  imports Writing
begin

text \<open>
  The invariant of a mounted file system: well-formed tables, chains of the files in use that exist and
  do not share blocks, descriptors that point to files in use. Every operation is shown to keep it (and
  to be free of faults) under the conditions stated with it, and to leave the other files alone.
\<close>

section \<open>The invariant\<close>

definition used :: "fs \<Rightarrow> nat \<Rightarrow> bool" where
  "used s i \<longleftrightarrow> i < FS_FILE_MAX_COUNT \<and> slot_name s i \<noteq> []"

definition chains_ok :: "fs \<Rightarrow> bool" where
  "chains_ok s \<longleftrightarrow>
     (\<forall>i < FS_FILE_MAX_COUNT. used s i \<longrightarrow> chain_ok s i) \<and>
     (\<forall>i < FS_FILE_MAX_COUNT. \<forall>j < FS_FILE_MAX_COUNT.
       used s i \<longrightarrow> used s j \<longrightarrow> i \<noteq> j \<longrightarrow> set (slot_chain s i) \<inter> set (slot_chain s j) = {})"

definition open_used :: "fs \<Rightarrow> bool" where
  "open_used s \<longleftrightarrow>
     (\<forall>d. Some d \<in> set (open_files s) \<longrightarrow>
       (\<exists>i < FS_FILE_MAX_COUNT. used s i \<and> fd_file d = Some (slot_addr s i)))"

definition fs_ok :: "fs \<Rightarrow> bool" where
  "fs_ok s \<longleftrightarrow>
     is_disk_mounted s \<and> fat_ok s \<and> files_ok s \<and> length (open_files s) = FS_OPEN_MAX_COUNT \<and>
     names_distinct s \<and> count_ok s \<and> chains_ok s \<and> open_used s \<and> layout_ok s \<and>
     disk_ok (dev s) \<and> calm (dev s) \<and> 0 < length (the_fat s) \<and> the_fat s ! 0 = FAT_EOC"

text \<open>What no operation on a mounted file system changes.\<close>

definition kept :: "fs \<Rightarrow> fs \<Rightarrow> bool" where
  "kept s s' \<longleftrightarrow>
     sb s' = sb s \<and> length (the_fat s') = length (the_fat s) \<and>
     disk (dev s') = disk (dev s) \<and> host_fds (host (dev s')) = host_fds (host (dev s)) \<and>
     host_next (host (dev s')) = host_next (host (dev s)) \<and>
     (\<forall>b \<le> unat (data_start_index (the_sb s)). block_at (dev s') b = block_at (dev s) b) \<and>
     (\<forall>i < FS_FILE_MAX_COUNT. file_padding (slot_file s' i) = file_padding (slot_file s i))"

lemma open_used_slots_ok:
  assumes "files_ok s" and "open_used s" and "length (open_files s) = FS_OPEN_MAX_COUNT"
  shows "slots_ok s"
  unfolding slots_ok_def
proof (intro conjI allI impI)
  fix d assume "Some d \<in> set (open_files s)"
  with assms(2) obtain i where "i < FS_FILE_MAX_COUNT" "fd_file d = Some (slot_addr s i)"
    by (auto simp: open_used_def)
  with files_ok_slot(1) [OF assms(1), of i] assms(1) show "fd_file d \<in> set (root s)"
    by (metis files_ok_def nth_mem)
qed (rule assms(3))

lemma fs_okD:
  assumes "fs_ok s"
  shows "is_disk_mounted s" and "fat_ok s" and "files_ok s" and "slots_ok s" and "names_distinct s"
    and "count_ok s" and "chains_ok s" and "open_used s" and "layout_ok s" and "disk_ok (dev s)"
    and "calm (dev s)" and "data_ready s" and "length (open_files s) = FS_OPEN_MAX_COUNT"
    and "0 < length (the_fat s)" and "the_fat s ! 0 = FAT_EOC"
  using assms open_used_slots_ok [of s] by (simp_all add: fs_ok_def data_ready_def)

lemma chains_okD:
  assumes "chains_ok s" and "used s i"
  shows "chain (the_fat s) (first_index (slot_file s i)) (slot_chain s i)"
    and "used s j \<Longrightarrow> i \<noteq> j \<Longrightarrow> set (slot_chain s i) \<inter> set (slot_chain s j) = {}"
  using assms by (auto simp: chains_ok_def chain_ok_def used_def)

lemma chains_okI:
  assumes "\<And>i. used s i \<Longrightarrow> chain (the_fat s) (first_index (slot_file s i)) (X i)"
    and "\<And>i j. used s i \<Longrightarrow> used s j \<Longrightarrow> i \<noteq> j \<Longrightarrow> set (X i) \<inter> set (X j) = {}"
  shows "chains_ok s" and "\<And>i. used s i \<Longrightarrow> slot_chain s i = X i"
proof -
  show eq: "slot_chain s i = X i" if "used s i" for i
    using assms(1) [OF that] by (rule chain_ok_eq)
  show "chains_ok s"
    unfolding chains_ok_def
  proof (intro conjI allI impI)
    fix i assume "used s i"
    then show "chain_ok s i" using assms(1) eq by (simp add: chain_ok_def)
  next
    fix i j assume "used s i" "used s j" "i \<noteq> j"
    then show "set (slot_chain s i) \<inter> set (slot_chain s j) = {}" using assms(2) eq by simp
  qed
qed

text \<open>An open descriptor, as the operations find it.\<close>

lemma fs_ok_open:
  assumes "fs_ok s" and "open_fd s fd"
  obtains i where "used s i" and "i < FS_FILE_MAX_COUNT" and "fd_slot s fd = Some i"
    and "fd_rejected fd s = Inr False" and "fd_entry (nat fd) s = Inr (the_fd s fd)"
    and "opened_file (nat fd) s = Inr (slot_addr s i, slot_file s i)"
    and "fd_file (the_fd s fd) = Some (slot_addr s i)"
    and "transfer s (nat fd) (slot_chain s i) (file_data s i)"
proof -
  note ok = fs_okD [OF assms(1)]
  from open_fdE [OF ok(3,4) assms(2)] obtain i where i: "i < FS_FILE_MAX_COUNT" "fd_slot s fd = Some i"
    "fd_entry (nat fd) s = Inr (the_fd s fd)" "fd_file (the_fd s fd) = Some (slot_addr s i)"
    "opened_file (nat fd) s = Inr (slot_addr s i, slot_file s i)"
    "open_files s ! nat fd = Some (the_fd s fd)" by blast
  have "Some (the_fd s fd) \<in> set (open_files s)"
    using assms(2) i(6) ok(13) by (metis nat_less_iff nth_mem open_fd_def)
  with ok(8) obtain j where "j < FS_FILE_MAX_COUNT" "used s j" "fd_file (the_fd s fd) = Some (slot_addr s j)"
    by (auto simp: open_used_def)
  with i(1,4) slot_addr_inject [OF ok(3)] have "used s i" by auto
  moreover have "transfer s (nat fd) (slot_chain s i) (file_data s i)"
    using ok(12) i(5) chains_okD(1) [OF ok(7) \<open>used s i\<close>] by (auto simp: transfer_def file_data_def)
  ultimately show ?thesis
    using i fd_rejected_open [OF ok(4,1) assms(2)] that by blast
qed

section \<open>Descriptors and output\<close>

text \<open>
  Changes that touch neither the disk, the table nor the files: the rest of the state decides the
  invariant.
\<close>

definition same_files :: "fs \<Rightarrow> fs \<Rightarrow> bool" where
  "same_files s s' \<longleftrightarrow>
     sb s' = sb s \<and> fat s' = fat s \<and> root s' = root s \<and> heap s' = heap s \<and> dev s' = dev s \<and>
     is_disk_mounted s' = is_disk_mounted s"

lemma same_files_simps:
  assumes "same_files s s'"
  shows "the_sb s' = the_sb s" and "the_fat s' = the_fat s" and "fat_ok s' = fat_ok s"
    and "files_ok s' = files_ok s" and "slot_addr s' = slot_addr s" and "slot_file s' = slot_file s"
    and "slot_name s' = slot_name s" and "names_distinct s' = names_distinct s" and "used s' = used s"
    and "slot_chain s' = slot_chain s" and "chains_ok s' = chains_ok s" and "layout_ok s' = layout_ok s"
    and "file_data s' = file_data s" and "catalog s' = catalog s"
proof -
  from assms have e: "sb s' = sb s" "fat s' = fat s" "root s' = root s" "heap s' = heap s" "dev s' = dev s"
    by (simp_all add: same_files_def)
  show sb: "the_sb s' = the_sb s" and fat: "the_fat s' = the_fat s" and "fat_ok s' = fat_ok s"
    and "files_ok s' = files_ok s" and addr: "slot_addr s' = slot_addr s"
    by (simp_all add: the_sb_def the_fat_def fat_ok_def files_ok_def slot_addr_def fun_eq_iff e)
  show slf: "slot_file s' = slot_file s" by (simp add: slot_file_def fun_eq_iff e addr)
  show name: "slot_name s' = slot_name s" by (simp add: slot_name_def fun_eq_iff slf)
  show used: "used s' = used s" by (simp add: used_def fun_eq_iff name)
  show chain: "slot_chain s' = slot_chain s" by (simp add: slot_chain_def fun_eq_iff slf fat)
  show "names_distinct s' = names_distinct s" by (simp add: names_distinct_def name)
  show "chains_ok s' = chains_ok s" by (simp add: chains_ok_def chain_ok_def used chain slf fat)
  show "layout_ok s' = layout_ok s" by (simp add: layout_ok_def sb fat e)
  show "file_data s' = file_data s"
    by (simp add: file_data_def disk_blocks_def fun_eq_iff chain sb e)
  show "catalog s' = catalog s" by (simp add: catalog_def fun_eq_iff name)
qed

lemma same_files_ok:
  assumes "fs_ok s" and "same_files s s'" and "length (open_files s') = FS_OPEN_MAX_COUNT"
    and "count_ok s'"
    and "\<And>d. Some d \<in> set (open_files s') \<Longrightarrow> \<exists>i < FS_FILE_MAX_COUNT. used s i \<and> fd_file d = Some (slot_addr s i)"
  shows "fs_ok s'" and "kept s s'"
proof -
  from assms(2) have e: "dev s' = dev s" "sb s' = sb s" "is_disk_mounted s' = is_disk_mounted s"
    by (simp_all add: same_files_def)
  show "fs_ok s'"
    using assms(1,3-5) by (auto simp: fs_ok_def open_used_def same_files_simps [OF assms(2)] e)
  show "kept s s'" by (simp add: kept_def same_files_simps [OF assms(2)] e)
qed

lemma stdout_ok:
  assumes "fs_ok s"
  shows "fs_ok (s\<lparr>stdout := out\<rparr>)" and "kept s (s\<lparr>stdout := out\<rparr>)"
proof -
  have "same_files s (s\<lparr>stdout := out\<rparr>)" by (simp add: same_files_def)
  from same_files_ok [OF assms this] fs_okD(6,8,13) [OF assms]
  show "fs_ok (s\<lparr>stdout := out\<rparr>)" and "kept s (s\<lparr>stdout := out\<rparr>)"
    by (simp_all add: open_used_def count_ok_def used_fds_def)
qed

lemma set_offset_ok:
  fixes x :: u16
  assumes "fs_ok s" and "open_fd s fd"
  defines "s' \<equiv> set_fd_entry (nat fd) (Some ((the_fd s fd)\<lparr>fd_offset := x\<rparr>)) s"
  shows "fs_ok s'" and "kept s s'" and "same_files s s'"
proof -
  note ok = fs_okD [OF assms(1)]
  show sf: "same_files s s'" by (simp add: same_files_def s'_def)
  have k: "nat fd < length (open_files s)" "open_files s ! nat fd = Some (the_fd s fd)"
    using assms(2) ok(13) by (auto simp: open_fd_def the_fd_def)
  have "used_fds s' = used_fds s"
    using filter_update [OF k(1), of "\<lambda>e. e \<noteq> None" "Some ((the_fd s fd)\<lparr>fd_offset := x\<rparr>)"] k(2)
    by (simp add: used_fds_def s'_def)
  then have c: "count_ok s'" using ok(6) by (simp add: count_ok_def) (simp add: s'_def)
  have m: "Some (the_fd s fd) \<in> set (open_files s)" using k by (metis nth_mem)
  have o: "\<exists>i < FS_FILE_MAX_COUNT. used s i \<and> fd_file d = Some (slot_addr s i)"
    if "Some d \<in> set (open_files s')" for d
  proof -
    from that have "d = (the_fd s fd)\<lparr>fd_offset := x\<rparr> \<or> Some d \<in> set (open_files s)"
      by (auto simp: s'_def dest!: subsetD [OF set_update_subset_insert])
    with m ok(8) show ?thesis by (auto simp: open_used_def)
  qed
  from same_files_ok [OF assms(1) sf _ c o] ok(13) show "fs_ok s'" and "kept s s'"
    by (simp_all add: s'_def)
qed

lemma opened_fs_ok:
  assumes "fs_ok s" and "used s i" and "free_fd s = Some k"
  shows "fs_ok (opened k i s)" and "kept s (opened k i s)" and "same_files s (opened k i s)"
proof -
  note ok = fs_okD [OF assms(1)]
  from assms(2) have i: "i < FS_FILE_MAX_COUNT" by (simp add: used_def)
  show sf: "same_files s (opened k i s)" by (simp add: same_files_def opened_def)
  have o: "\<exists>i < FS_FILE_MAX_COUNT. used s i \<and> fd_file d = Some (slot_addr s i)"
    if "Some d \<in> set (open_files (opened k i s))" for d
  proof -
    from that have "fd_file d = Some (slot_addr s i) \<or> Some d \<in> set (open_files s)"
      by (auto simp: opened_def dest!: subsetD [OF set_update_subset_insert])
    with assms(2) i ok(8) show ?thesis by (auto simp: open_used_def)
  qed
  from same_files_ok [OF assms(1) sf _ opened_ok(3) [OF ok(3,4,6) i assms(3)] o] ok(13)
  show "fs_ok (opened k i s)" and "kept s (opened k i s)" by (simp_all add: opened_def)
qed

lemma closed_fs_ok:
  assumes "fs_ok s" and "open_fd s fd"
  shows "fs_ok (closed fd s)" and "kept s (closed fd s)" and "same_files s (closed fd s)"
proof -
  note ok = fs_okD [OF assms(1)]
  show sf: "same_files s (closed fd s)" by (simp add: same_files_def closed_def)
  have o: "\<exists>i < FS_FILE_MAX_COUNT. used s i \<and> fd_file d = Some (slot_addr s i)"
    if "Some d \<in> set (open_files (closed fd s))" for d
  proof -
    from that have "Some d \<in> set (open_files s)"
      by (auto simp: closed_def dest!: subsetD [OF set_update_subset_insert])
    with ok(8) show ?thesis by (auto simp: open_used_def)
  qed
  from same_files_ok [OF assms(1) sf _ closed_ok(4) [OF ok(3,4) assms(2) ok(6)] o] ok(13)
  show "fs_ok (closed fd s)" and "kept s (closed fd s)" by (simp_all add: closed_def)
qed

section \<open>Changing one file\<close>

text \<open>A new table, a new directory entry for slot \<open>i\<close> and a new disk content at once.\<close>

definition update_slot :: "u16 list \<Rightarrow> nat \<Rightarrow> File \<Rightarrow> dev \<Rightarrow> fs \<Rightarrow> fs" where
  "update_slot F i f d s = (with_fat F (set_file (slot_addr s i) f s))\<lparr>dev := d\<rparr>"

lemma update_slot_simps [simp]:
  "the_fat (update_slot F i f d s) = F" "the_sb (update_slot F i f d s) = the_sb s"
  "sb (update_slot F i f d s) = sb s" "dev (update_slot F i f d s) = d"
  "slot_addr (update_slot F i f d s) = slot_addr s"
  "open_files (update_slot F i f d s) = open_files s"
  "num_open_files (update_slot F i f d s) = num_open_files s"
  "is_disk_mounted (update_slot F i f d s) = is_disk_mounted s"
  "root (update_slot F i f d s) = root s"
  by (simp_all add: update_slot_def the_fat_def the_sb_def slot_addr_def fun_eq_iff)

lemma update_slot_file:
  assumes "files_ok s" and "i < FS_FILE_MAX_COUNT" and "j < FS_FILE_MAX_COUNT"
  shows "slot_file (update_slot F i f d s) j = (if j = i then f else slot_file s j)"
    and "slot_name (update_slot F i f d s) j = (if j = i then c_text (filename f) else slot_name s j)"
proof -
  have h: "heap (update_slot F i f d s) = (heap s)(slot_addr s i \<mapsto> f)" by (simp add: update_slot_def)
  show "slot_file (update_slot F i f d s) j = (if j = i then f else slot_file s j)"
    using slot_addr_inject [OF assms] by (auto simp: slot_file_def h)
  then show "slot_name (update_slot F i f d s) j = (if j = i then c_text (filename f) else slot_name s j)"
    by (simp add: slot_name_def)
qed

lemma update_slot_used:
  assumes "files_ok s" and "i < FS_FILE_MAX_COUNT"
  shows "used (update_slot F i f d s) j \<longleftrightarrow> (if j = i then c_text (filename f) \<noteq> [] else used s j)"
  using update_slot_file(2) [OF assms, of j F f d] assms(2) by (auto simp: used_def)

lemma update_slot_names:
  assumes "files_ok s" and "names_distinct s" and "i < FS_FILE_MAX_COUNT"
    and "\<And>j. j < FS_FILE_MAX_COUNT \<Longrightarrow> j \<noteq> i \<Longrightarrow> c_text (filename f) \<noteq> [] \<Longrightarrow> slot_name s j \<noteq> c_text (filename f)"
  shows "names_distinct (update_slot F i f d s)"
    and "catalog (update_slot F i f d s) = (if c_text (filename f) = []
      then (catalog s)(slot_name s i := None)
      else ((catalog s)(slot_name s i := None))(c_text (filename f) \<mapsto> i))"
proof -
  have eq: "slot_name (update_slot F i f d s) = slot_name (set_file (slot_addr s i) f s)"
    by (simp add: fun_eq_iff slot_name_def slot_file_def slot_addr_def update_slot_def)
  then have "names_distinct (update_slot F i f d s) = names_distinct (set_file (slot_addr s i) f s)"
    "catalog (update_slot F i f d s) = catalog (set_file (slot_addr s i) f s)"
    by (simp_all add: names_distinct_def catalog_def fun_eq_iff)
  with catalog_set_name [OF assms(1-3) refl assms(4)]
  show "names_distinct (update_slot F i f d s)"
    and "catalog (update_slot F i f d s) = (if c_text (filename f) = []
      then (catalog s)(slot_name s i := None)
      else ((catalog s)(slot_name s i := None))(c_text (filename f) \<mapsto> i))" by simp_all
qed

lemma update_slot_open_used:
  assumes "files_ok s" and "open_used s" and "i < FS_FILE_MAX_COUNT"
    and "is_open s i \<Longrightarrow> c_text (filename f) \<noteq> []"
  shows "open_used (update_slot F i f d s)"
  unfolding open_used_def
proof (intro allI impI)
  fix e assume e: "Some e \<in> set (open_files (update_slot F i f d s))"
  then have "Some e \<in> set (open_files s)" by simp
  with assms(2) obtain j where j: "j < FS_FILE_MAX_COUNT" "used s j" "fd_file e = Some (slot_addr s j)"
    by (auto simp: open_used_def)
  have "used (update_slot F i f d s) j"
    using j assms(4) e unfolding update_slot_used [OF assms(1,3)] by (auto simp: is_open_def)
  with j show "\<exists>j < FS_FILE_MAX_COUNT. used (update_slot F i f d s) j \<and>
      fd_file e = Some (slot_addr (update_slot F i f d s) j)" by auto
qed

lemma update_slot_ok:
  assumes "fs_ok s" and "i < FS_FILE_MAX_COUNT" and "file_ok f" and "length F = length (the_fat s)"
    and "F ! 0 = FAT_EOC" and "disk_ok d" and "calm d" and "blocks d = blocks (dev s)"
    and name: "\<And>j. j < FS_FILE_MAX_COUNT \<Longrightarrow> j \<noteq> i \<Longrightarrow> c_text (filename f) \<noteq> [] \<Longrightarrow>
      slot_name s j \<noteq> c_text (filename f)"
    and opn: "is_open s i \<Longrightarrow> c_text (filename f) \<noteq> []"
    and other: "\<And>j. used s j \<Longrightarrow> j \<noteq> i \<Longrightarrow> chain F (first_index (slot_file s j)) (slot_chain s j)"
    and own: "c_text (filename f) \<noteq> [] \<Longrightarrow> chain F (first_index f) ys"
    and dis: "\<And>j. c_text (filename f) \<noteq> [] \<Longrightarrow> used s j \<Longrightarrow> j \<noteq> i \<Longrightarrow> set ys \<inter> set (slot_chain s j) = {}"
  shows "fs_ok (update_slot F i f d s)"
    and "\<And>j. used (update_slot F i f d s) j \<Longrightarrow>
      slot_chain (update_slot F i f d s) j = (if j = i then ys else slot_chain s j)"
proof -
  note ok = fs_okD [OF assms(1)]
  let ?s = "update_slot F i f d s" and ?X = "\<lambda>j. if j = i then ys else slot_chain s j"
  have u: "used ?s j \<longleftrightarrow> (if j = i then c_text (filename f) \<noteq> [] else used s j)" for j
    by (rule update_slot_used [OF ok(3) assms(2)])
  have c1: "chain (the_fat ?s) (first_index (slot_file ?s j)) (?X j)" if "used ?s j" for j
  proof -
    have "j < FS_FILE_MAX_COUNT" using that by (simp add: used_def)
    with that other own show ?thesis using update_slot_file(1) [OF ok(3) assms(2)] by (auto simp: u)
  qed
  have c2: "set (?X j) \<inter> set (?X k) = {}" if "used ?s j" "used ?s k" "j \<noteq> k" for j k
    using that dis [of j] dis [of k] chains_okD(2) [OF ok(7)] by (auto simp: u split: if_splits)
  from chains_okI [of ?s ?X, OF c1 c2] have ch: "chains_ok ?s"
    and sc: "\<And>j. used ?s j \<Longrightarrow> slot_chain ?s j = ?X j" by auto
  then show "used ?s j \<Longrightarrow> slot_chain ?s j = ?X j" for j by simp
  have "files_ok (with_fat F (set_file (slot_addr s i) f s))"
    using files_ok_set_file [OF ok(3) assms(3)] by simp
  then have "files_ok ?s" by (simp add: update_slot_def files_ok_def)
  moreover have "fat_ok ?s"
    using ok(2) assms(4) fat_okD(1,3) [OF ok(2)] by (simp add: fat_ok_def update_slot_def)
  moreover have "count_ok ?s" using ok(6) by (simp add: count_ok_def used_fds_def)
  moreover have "layout_ok ?s" using ok(9) assms(4,8) by (simp add: layout_ok_def)
  ultimately show "fs_ok ?s"
    using ok assms(4-7) ch update_slot_names(1) [OF ok(3,5) assms(2) name]
      update_slot_open_used [OF ok(3,8) assms(2) opn]
    by (simp add: fs_ok_def)
qed

lemma update_slot_kept:
  assumes "fs_ok s" and "i < FS_FILE_MAX_COUNT" and "length F = length (the_fat s)"
    and "file_padding f = file_padding (slot_file s i)"
  shows "kept s (update_slot F i f (dev s) s)"
  using assms update_slot_file(1) [OF fs_okD(3) [OF assms(1)] assms(2)]
  by (simp add: kept_def)

text \<open>The data of a file depends on its chain and on the disk only.\<close>

lemma file_data_eq:
  "slot_chain s' i = slot_chain s i \<Longrightarrow> the_sb s' = the_sb s \<Longrightarrow>
    (\<And>b. b \<in> set (disk_blocks s (slot_chain s i)) \<Longrightarrow> block_at (dev s') b = block_at (dev s) b) \<Longrightarrow>
    file_data s' i = file_data s i"
  by (auto simp: file_data_def disk_blocks_def blocks_content_def intro!: arg_cong [of _ _ concat])

section \<open>Creating and deleting\<close>

lemma create_ok:
  assumes "fs_ok s" and "valid_name n" and "catalog s (c_text n) = None" and "free_slot s = Some i"
  defines "s' \<equiv> set_file (slot_addr s i) (new_entry n (slot_file s i)) s"
  shows "fs_ok s'" and "kept s s'" and "catalog s' = (catalog s)(c_text n \<mapsto> i)"
    and "slot_chain s' i = []"
    and "\<And>j. used s j \<Longrightarrow> used s' j \<and> slot_file s' j = slot_file s j \<and>
      slot_chain s' j = slot_chain s j \<and> file_data s' j = file_data s j"
proof -
  note ok = fs_okD [OF assms(1)]
  from free_slot_SomeD [OF assms(4)] have i: "i < FS_FILE_MAX_COUNT" "slot_name s i = []" by auto
  let ?f = "new_entry n (slot_file s i)"
  note ne = new_entry_ok [OF assms(2) files_ok_slot(3) [OF ok(3) i(1)]]
  have t: "c_text n \<noteq> []" by (rule valid_name_text [OF assms(2)])
  have eq: "s' = update_slot (the_fat s) i ?f (dev s) s"
    using fat_okD(2) [OF ok(2)] by (simp add: s'_def update_slot_def set_file_def)
  have name: "slot_name s j \<noteq> c_text (filename ?f)" if "j < FS_FILE_MAX_COUNT" for j
    using assms(3) that t unfolding catalog_None_iff ne(2) by simp
  have nu: "\<not> used s i" using i by (simp add: used_def)
  have fi: "first_index ?f = FAT_EOC" by (simp add: new_entry_def)
  note up = update_slot_ok [OF assms(1) i(1) ne(1) refl ok(15,10,11) refl, of "[]"]
  have "fs_ok (update_slot (the_fat s) i ?f (dev s) s) \<and>
    (\<forall>j. used (update_slot (the_fat s) i ?f (dev s) s) j \<longrightarrow>
      slot_chain (update_slot (the_fat s) i ?f (dev s) s) j = (if j = i then [] else slot_chain s j))"
    using up name t chains_okD(1) [OF ok(7)] by (auto simp: ne(2) fi)
  then have u: "fs_ok s'" "\<And>j. used s' j \<Longrightarrow> slot_chain s' j = (if j = i then [] else slot_chain s j)"
    by (auto simp: eq)
  show "fs_ok s'" by (rule u(1))
  show "kept s s'" unfolding eq
    by (rule update_slot_kept [OF assms(1) i(1)]) (simp_all add: new_entry_def)
  show "catalog s' = (catalog s)(c_text n \<mapsto> i)"
    using update_slot_names(2) [OF ok(3,5) i(1) name, where d = "dev s" and F = "the_fat s"] t i(2)
    by (simp add: eq ne(2) catalog_def [of s "[]"] fun_upd_idem)
  have us: "used s' j \<longleftrightarrow> j = i \<or> used s j" for j
    using update_slot_used [OF ok(3) i(1), of "the_fat s" ?f "dev s" j] t by (auto simp: eq ne(2))
  show "slot_chain s' i = []" using u(2) [of i] us by simp
  fix j assume j: "used s j"
  with nu have "j \<noteq> i" by auto
  moreover have sf: "slot_file s' j = slot_file s j"
    using update_slot_file(1) [OF ok(3) i(1), of j] j \<open>j \<noteq> i\<close> by (simp add: eq used_def)
  moreover have "slot_chain s' j = slot_chain s j" using u(2) [of j] us j \<open>j \<noteq> i\<close> by simp
  moreover from this have "file_data s' j = file_data s j"
    by (rule file_data_eq) (simp_all add: s'_def)
  ultimately show "used s' j \<and> slot_file s' j = slot_file s j \<and>
      slot_chain s' j = slot_chain s j \<and> file_data s' j = file_data s j"
    using us j by simp
qed

text \<open>
  Deleting a file of at most one block: its block becomes free. (A longer chain is not released, see
  theory \<open>Fat\<close>.)
\<close>

definition released :: "u16 list \<Rightarrow> u16 list \<Rightarrow> u16 list" where
  "released F xs = (case xs of [] \<Rightarrow> F | x # _ \<Rightarrow> F[unat x := 0])"

lemma fs_delete_short:
  assumes "fs_ok s" and "valid_name n" and "catalog s (c_text n) = Some i" and "\<not> is_open s i"
    and "length (slot_chain s i) \<le> 1"
  shows "fs_delete (Some n) s = Inr (0, update_slot (released (the_fat s) (slot_chain s i)) i
    (emptied (slot_file s i)) (dev s) s)"
proof -
  note ok = fs_okD [OF assms(1)]
  from catalog_SomeD [OF assms(3)] have "used s i" by (auto simp: used_def)
  note c = chains_okD(1) [OF ok(7) this]
  have "free_file_blocks (first_index (slot_file s i)) s =
      Inr (with_fat (released (the_fat s) (slot_chain s i)) s)"
    unfolding free_file_blocks_with_fat [OF ok(2) c ok(15)]
    using assms(5) by (auto simp: released_def split: list.splits)
  moreover have "set_file (slot_addr s i) f (with_fat F s) = update_slot F i f (dev s) s" for F f
    by (simp add: update_slot_def set_file_def)
  ultimately show ?thesis
    using assms(2-4) by (simp add: fs_delete_eq [OF ok(1,3,4,5)])
qed

lemma delete_ok:
  assumes "fs_ok s" and "catalog s t = Some i" and "\<not> is_open s i" and "length (slot_chain s i) \<le> 1"
  defines "s' \<equiv> update_slot (released (the_fat s) (slot_chain s i)) i (emptied (slot_file s i)) (dev s) s"
  shows "fs_ok s'" and "kept s s'" and "catalog s' = (catalog s)(t := None)"
    and "\<And>j. used s j \<Longrightarrow> j \<noteq> i \<Longrightarrow> used s' j \<and> slot_file s' j = slot_file s j \<and>
      slot_chain s' j = slot_chain s j \<and> file_data s' j = file_data s j"
proof -
  note ok = fs_okD [OF assms(1)]
  from catalog_SomeD [OF assms(2)] have i: "i < FS_FILE_MAX_COUNT" "slot_name s i = t" "t \<noteq> []" by auto
  then have ui: "used s i" by (simp add: used_def)
  note ci = chains_okD(1) [OF ok(7) ui]
  let ?F = "released (the_fat s) (slot_chain s i)" and ?f = "emptied (slot_file s i)"
  note em = emptied_ok [OF files_ok_slot(3) [OF ok(3) i(1)]]
  have lF: "length ?F = length (the_fat s)" by (simp add: released_def split: list.split)
  have F0: "?F ! 0 = FAT_EOC"
  proof (cases "slot_chain s i")
    case (Cons x xs)
    with ci have "0 < unat x" by (auto simp: unat_gt_0)
    with Cons ok(15) show ?thesis by (simp add: released_def)
  qed (simp add: released_def ok(15))
  have other: "chain ?F (first_index (slot_file s j)) (slot_chain s j)" if "used s j" "j \<noteq> i" for j
  proof (cases "slot_chain s i")
    case Nil
    with chains_okD(1) [OF ok(7) that(1)] show ?thesis by (simp add: released_def)
  next
    case (Cons x xs)
    then have "x \<notin> set (slot_chain s j)" using chains_okD(2) [OF ok(7) ui that(1)] that(2) by auto
    then have "chain ((the_fat s)[unat x := 0]) (first_index (slot_file s j)) (slot_chain s j)"
      by (intro chain_update_other [OF chains_okD(1) [OF ok(7) that(1)]]) (auto dest: unsigned_word_eqI)
    with Cons show ?thesis by (simp add: released_def)
  qed
  have up: "fs_ok s' \<and> (\<forall>j. used s' j \<longrightarrow> slot_chain s' j = (if j = i then [] else slot_chain s j))"
    unfolding s'_def
    using update_slot_ok [OF assms(1) i(1) em(1) lF F0 ok(10,11) refl, of "[]"] other assms(3)
    by (auto simp: em(2))
  then show "fs_ok s'" by simp
  show "kept s s'" unfolding s'_def
    by (rule update_slot_kept [OF assms(1) i(1) lF]) (simp add: emptied_def)
  show "catalog s' = (catalog s)(t := None)"
    unfolding s'_def using update_slot_names(2) [OF ok(3,5) i(1), of ?f] em(2) i(2) by simp
  fix j assume j: "used s j" "j \<noteq> i"
  have "used s' j" using update_slot_used [OF ok(3) i(1)] j by (simp add: s'_def)
  moreover have "slot_file s' j = slot_file s j"
    using update_slot_file(1) [OF ok(3) i(1)] j by (simp add: s'_def used_def)
  moreover have ch: "slot_chain s' j = slot_chain s j" using up \<open>used s' j\<close> j(2) by simp
  moreover have "file_data s' j = file_data s j"
    by (rule file_data_eq [OF ch]) (simp_all add: s'_def)
  ultimately show "used s' j \<and> slot_file s' j = slot_file s j \<and>
      slot_chain s' j = slot_chain s j \<and> file_data s' j = file_data s j" by simp
qed

section \<open>Writing\<close>

text \<open>The files other than the one in slot \<open>i\<close> are as before.\<close>

definition others_same :: "nat \<Rightarrow> fs \<Rightarrow> fs \<Rightarrow> bool" where
  "others_same i s s' \<longleftrightarrow>
     (\<forall>j. j \<noteq> i \<longrightarrow> used s' j = used s j) \<and>
     (\<forall>j. used s j \<longrightarrow> j \<noteq> i \<longrightarrow> slot_file s' j = slot_file s j \<and>
       slot_chain s' j = slot_chain s j \<and> file_data s' j = file_data s j)"

lemma others_same_trans: "others_same i s s1 \<Longrightarrow> others_same i s1 s2 \<Longrightarrow> others_same i s s2"
  by (simp add: others_same_def)

lemma same_files_others: "same_files s s' \<Longrightarrow> others_same i s s'"
  by (simp add: others_same_def same_files_simps)

lemma kept_trans: "kept s s1 \<Longrightarrow> kept s1 s2 \<Longrightarrow> kept s s2"
  by (simp add: kept_def the_sb_def)

lemma resize_ok:
  fixes n :: u32
  assumes "fs_ok s" and "used s i"
  defines "s' \<equiv> set_file (slot_addr s i) ((slot_file s i)\<lparr>file_size := n\<rparr>) s"
  shows "fs_ok s'" and "kept s s'" and "others_same i s s'" and "used s' i"
    and "slot_file s' i = (slot_file s i)\<lparr>file_size := n\<rparr>" and "slot_chain s' i = slot_chain s i"
    and "file_data s' i = file_data s i"
proof -
  note ok = fs_okD [OF assms(1)]
  have i: "i < FS_FILE_MAX_COUNT" "slot_name s i \<noteq> []" using assms(2) by (simp_all add: used_def)
  let ?f = "(slot_file s i)\<lparr>file_size := n\<rparr>"
  have eq: "s' = update_slot (the_fat s) i ?f (dev s) s"
    using fat_okD(2) [OF ok(2)] by (simp add: s'_def update_slot_def set_file_def)
  have f: "file_ok ?f" "c_text (filename ?f) = slot_name s i"
    using files_ok_slot(3) [OF ok(3) i(1)] by (simp_all add: file_ok_def slot_name_def)
  have name: "slot_name s j \<noteq> c_text (filename ?f)" if "j < FS_FILE_MAX_COUNT" "j \<noteq> i" for j
    unfolding f(2) using names_distinctD [OF ok(5), of i j] i that by metis
  note ch = chains_okD [OF ok(7) assms(2)]
  have up: "fs_ok s' \<and> (\<forall>j. used s' j \<longrightarrow> slot_chain s' j = slot_chain s j)"
    unfolding eq
    using update_slot_ok [OF assms(1) i(1) f(1) refl ok(15,10,11) refl, of "slot_chain s i"]
      name ch chains_okD(1) [OF ok(7)] i(2) [unfolded slot_name_def]
    by auto
  then show "fs_ok s'" by simp
  show "kept s s'" unfolding eq by (rule update_slot_kept [OF assms(1) i(1) refl]) simp
  have us: "used s' j = used s j" for j
    using update_slot_used [OF ok(3) i(1), of _ ?f _ j] assms(2) i(2) by (simp add: eq slot_name_def)
  show "used s' i" using us assms(2) by simp
  have sf: "slot_file s' j = (if j = i then ?f else slot_file s j)" if "j < FS_FILE_MAX_COUNT" for j
    unfolding eq by (rule update_slot_file(1) [OF ok(3) i(1) that])
  then show "slot_file s' i = ?f" using i(1) by simp
  show sc: "slot_chain s' i = slot_chain s i" using up us assms(2) by simp
  have fd: "file_data s' j = file_data s j" if "used s j" for j
    by (rule file_data_eq) (use up us that in \<open>simp_all add: eq\<close>)
  then show "file_data s' i = file_data s i" using assms(2) by simp
  show "others_same i s s'"
    using up us sf fd by (simp add: others_same_def) (simp add: used_def)
qed

lemma fresh_blocks_free:
  assumes "fat_ok s" and "x \<in> set (fresh_blocks (the_fat s) n)"
  shows "unat x \<in> set (free_entries (the_fat s))"
proof -
  from assms(2) obtain k where k: "k \<in> set (free_entries (the_fat s))" "x = of_nat k"
    by (auto simp: fresh_blocks_def dest: in_set_takeD)
  with free_block(1) [OF assms(1) k(1)] show ?thesis by simp
qed

text \<open>The chain of a file after it has grown is apart from the chains of the others.\<close>

lemma grown_apart:
  assumes "fs_ok s" and "used s i" and "used s j" and "i \<noteq> j"
    and ys: "ys = slot_chain s i @ fresh_blocks (the_fat s) m"
    and "grown (the_fat s) F (first_of ys) ys"
  shows "set ys \<inter> set (slot_chain s j) = {}"
    and "chain F (first_index (slot_file s j)) (slot_chain s j)"
proof -
  note ok = fs_okD [OF assms(1)]
  note c = chains_okD(1) [OF ok(7) assms(3)]
  have "x \<notin> set (slot_chain s j)" if "x \<in> set ys" for x
  proof
    assume x: "x \<in> set (slot_chain s j)"
    then have "x \<notin> set (slot_chain s i)" using chains_okD(2) [OF ok(7) assms(2,3,4)] by auto
    with that have "unat x \<in> set (free_entries (the_fat s))"
      using fresh_blocks_free [OF ok(2)] by (auto simp: ys)
    with free_not_in_chain [OF c _ x] show False by blast
  qed
  then show dis: "set ys \<inter> set (slot_chain s j) = {}" by auto
  show "chain F (first_index (slot_file s j)) (slot_chain s j)"
  proof (rule chain_frame [OF c])
    show "length F = length (the_fat s)" using assms(6) by (simp add: grown_def)
    fix x assume x: "x \<in> set (slot_chain s j)"
    with chain_members [OF c x] have "unat x < length (the_fat s)" by simp
    moreover have "unat x \<notin> unat ` set ys" using dis x by (auto dest!: unsigned_word_eqI)
    ultimately show "F ! unat x = the_fat s ! unat x" using assms(6) by (simp add: grown_def)
  qed
qed

text \<open>
  The chain a write of \<open>cnt\<close> bytes at the descriptor's offset leaves, and what the disk already holds in
  the blocks it adds.
\<close>

definition fd_pos :: "fs \<Rightarrow> int \<Rightarrow> nat" where
  "fd_pos s fd = unat (fd_offset (the_fd s fd))"

definition chain_for :: "fs \<Rightarrow> nat \<Rightarrow> nat \<Rightarrow> u16 list" where
  "chain_for s i n =
     slot_chain s i @ fresh_blocks (the_fat s) (blocks_needed n - length (slot_chain s i))"

definition stale_data :: "fs \<Rightarrow> nat \<Rightarrow> nat \<Rightarrow> byte list" where
  "stale_data s i n = blocks_content (block_at (dev s))
     (disk_blocks s (fresh_blocks (the_fat s) (blocks_needed n - length (slot_chain s i))))"

lemma chain_for_content:
  "blocks_content (block_at (dev s)) (disk_blocks s (chain_for s i n)) = file_data s i @ stale_data s i n"
  by (simp add: chain_for_def file_data_def stale_data_def blocks_content_def disk_blocks_def)

text \<open>The state after the allocation and the transfer, before the size and the offset are updated.\<close>

lemma grown_first_entry:
  assumes "grown F F' first ys" and "0 < length F" and "F ! 0 = FAT_EOC"
  shows "F' ! 0 = FAT_EOC"
proof -
  from assms(1) have "chain F' first ys" by (simp add: grown_def)
  then have "0 \<notin> unat ` set ys" by (auto simp: unat_eq_0 dest!: chain_members)
  with assms show ?thesis by (simp add: grown_def)
qed

lemma slot_names_apart:
  assumes "names_distinct s" and "used s i" and "j < FS_FILE_MAX_COUNT" and "j \<noteq> i"
  shows "slot_name s j \<noteq> slot_name s i"
  using names_distinctD [OF assms(1), of i j] assms(2-4) by (auto simp: used_def)

lemma write_transfer_ok:
  assumes "fs_ok s" and "used s i" and ys: "ys = chain_for s i n"
    and "grown (the_fat s) F (first_of ys) ys" and "rewritten (disk_blocks s ys) C (dev s) d"
  defines "s' \<equiv> update_slot F i ((slot_file s i)\<lparr>first_index := first_of ys\<rparr>) d s"
  shows "fs_ok s'" and "kept s s'" and "others_same i s s'" and "used s' i"
    and "slot_file s' i = (slot_file s i)\<lparr>first_index := first_of ys\<rparr>" and "slot_chain s' i = ys"
    and "file_data s' i = C"
proof -
  note ok = fs_okD [OF assms(1)]
  have i: "i < FS_FILE_MAX_COUNT" "slot_name s i \<noteq> []" using assms(2) by (simp_all add: used_def)
  let ?f = "(slot_file s i)\<lparr>first_index := first_of ys\<rparr>"
  from assms(4) have g: "length F = length (the_fat s)" "chain F (first_of ys) ys"
    by (simp_all add: grown_def)
  have F0: "F ! 0 = FAT_EOC" by (rule grown_first_entry [OF assms(4) ok(14,15)])
  from assms(5) have d: "disk_ok d" "calm d" "blocks d = blocks (dev s)"
    by (simp_all add: rewritten_def blocks_def)
  have f: "file_ok ?f" "c_text (filename (slot_file s i)) \<noteq> []"
    using files_ok_slot(3) [OF ok(3) i(1)] i(2) by (simp_all add: file_ok_def slot_name_def)
  have name: "slot_name s j \<noteq> c_text (filename ?f)" if "j < FS_FILE_MAX_COUNT" "j \<noteq> i" for j
    using slot_names_apart [OF ok(5) assms(2) that] by (simp add: slot_name_def)
  note apart = grown_apart [OF assms(1,2) _ _ ys [unfolded chain_for_def] assms(4)]
  have up: "fs_ok s' \<and> (\<forall>j. used s' j \<longrightarrow> slot_chain s' j = (if j = i then ys else slot_chain s j))"
    unfolding s'_def
    using update_slot_ok [OF assms(1) i(1) f(1) g(1) F0 d, of ys] name apart g(2) f(2) by auto
  then show "fs_ok s'" by simp
  have us: "used s' j = used s j" for j
    using update_slot_used [OF ok(3) i(1), of _ ?f _ j] assms(2) f(2) by (simp add: s'_def)
  show "used s' i" using us assms(2) by simp
  have sf: "slot_file s' j = (if j = i then ?f else slot_file s j)" if "j < FS_FILE_MAX_COUNT" for j
    unfolding s'_def by (rule update_slot_file(1) [OF ok(3) i(1) that])
  then show "slot_file s' i = ?f" using i(1) by simp
  show sc: "slot_chain s' i = ys" using up us assms(2) by simp
  have db: "disk_blocks s' = disk_blocks s" by (simp add: disk_blocks_def fun_eq_iff s'_def)
  show "file_data s' i = C" using assms(5) by (simp add: file_data_def sc db rewritten_def) (simp add: s'_def)
  have blk: "block_at (dev s') b = block_at (dev s) b" if "b \<notin> set (disk_blocks s ys)" for b
    using assms(5) that by (simp add: s'_def rewritten_def)
  have fd: "file_data s' j = file_data s j" if "used s j" "j \<noteq> i" for j
  proof (rule file_data_eq)
    show "slot_chain s' j = slot_chain s j" using up us that by simp
    fix b assume "b \<in> set (disk_blocks s (slot_chain s j))"
    moreover have "set ys \<inter> set (slot_chain s j) = {}" using apart(1) that by simp
    ultimately have "b \<notin> set (disk_blocks s ys)" by (auto simp: disk_blocks_def dest!: unsigned_word_eqI)
    then show "block_at (dev s') b = block_at (dev s) b" by (rule blk)
  qed (simp add: s'_def)
  show "others_same i s s'"
    using up us sf fd by (simp add: others_same_def) (simp add: used_def)
  have "b \<notin> set (disk_blocks s ys)" if "b \<le> unat (data_start_index (the_sb s))" for b
    using that by (auto simp: disk_blocks_def unat_eq_0 dest!: chain_members [OF g(2)])
  then show "kept s s'"
    using assms(5) blk g(1) sf by (simp add: kept_def rewritten_def) (simp add: s'_def)
qed

text \<open>The descriptor and the size after a complete write.\<close>

lemma advanced_ok:
  fixes fd :: int and s :: fs and i n :: nat
  assumes "fs_ok s" and "open_fd s fd" and "used s i"
  defines "s' \<equiv> advanced (nat fd) (slot_addr s i) (slot_file s i) (the_fd s fd) n s"
  shows "fs_ok s'" and "kept s s'" and "others_same i s s'" and "used s' i"
    and "slot_file s' i = (slot_file s i)\<lparr>file_size := file_size (slot_file s i) + of_nat n\<rparr>"
    and "slot_chain s' i = slot_chain s i" and "file_data s' i = file_data s i"
    and "open_files s' = (open_files s)[nat fd := Some ((the_fd s fd)\<lparr>fd_offset := fd_offset (the_fd s fd) + of_nat n\<rparr>)]"
    and "slot_addr s' = slot_addr s" and "the_fat s' = the_fat s"
proof -
  define t where "t = set_fd_entry (nat fd) (Some ((the_fd s fd)\<lparr>fd_offset := fd_offset (the_fd s fd) + of_nat n\<rparr>)) s"
  note o = set_offset_ok [OF assms(1,2), of "fd_offset (the_fd s fd) + of_nat n", folded t_def]
  note sf = same_files_simps [OF o(3)]
  have "used t i" using assms(3) by (simp add: sf)
  note r = resize_ok [OF o(1) this, of "file_size (slot_file t i) + of_nat n"]
  have eq: "s' = set_file (slot_addr t i) ((slot_file t i)\<lparr>file_size := file_size (slot_file t i) + of_nat n\<rparr>) t"
    by (simp add: s'_def advanced_def sf) (simp add: t_def)
  show "fs_ok s'" "used s' i" "slot_chain s' i = slot_chain s i" "file_data s' i = file_data s i"
    "slot_file s' i = (slot_file s i)\<lparr>file_size := file_size (slot_file s i) + of_nat n\<rparr>"
    using r by (simp_all add: eq sf)
  show "kept s s'" using kept_trans [OF o(2) r(2)] by (simp only: eq)
  show "others_same i s s'"
    using others_same_trans [OF same_files_others [OF o(3)] r(3)] by (simp only: eq)
  show "open_files s' = (open_files s)[nat fd := Some ((the_fd s fd)\<lparr>fd_offset := fd_offset (the_fd s fd) + of_nat n\<rparr>)]"
    "slot_addr s' = slot_addr s" "the_fat s' = the_fat s"
    by (simp_all add: s'_def advanced_def slot_addr_def the_fat_def fun_eq_iff)
qed

text \<open>
  \<open>fs_write\<close> on an open descriptor: \<open>r\<close> bytes are written; size and offset follow only when that is
  the whole request.
\<close>

lemma write_ok_table:
  assumes "fs_ok s" and "open_fd s fd" and "fd_slot s fd = Some i" and "small_count count"
    and "0 < unat count" and "unat count \<le> length buf"
  defines "n \<equiv> fd_pos s fd + unat count"
  defines "ys \<equiv> chain_for s i n"
  defines "r \<equiv> min (unat count) (BLOCK_SIZE * length ys - fd_pos s fd)"
  obtains s' where "fs_write fd (Some buf) count s = Inr (int r, s')"
    and "fs_ok s'" and "kept s s'" and "others_same i s s'" and "used s' i" and "slot_chain s' i = ys"
    and "slot_file s' i = (slot_file s i)\<lparr>first_index := first_of ys,
      file_size := file_size (slot_file s i) + (if r = unat count then of_nat r else 0)\<rparr>"
    and "file_data s' i = put_data (file_data s i @ stale_data s i n) (fd_pos s fd) r buf"
    and "open_files s' = (open_files s)[nat fd := Some ((the_fd s fd)\<lparr>fd_offset :=
      fd_offset (the_fd s fd) + (if r = unat count then of_nat r else 0)\<rparr>)]"
    and "slot_addr s' = slot_addr s" and "grown (the_fat s) (the_fat s') (first_of ys) ys"
proof -
  note ok = fs_okD [OF assms(1)]
  from fs_ok_open [OF assms(1,2)] assms(3) have fd: "used s i" "fd_rejected fd s = Inr False"
    "fd_entry (nat fd) s = Inr (the_fd s fd)"
    "opened_file (nat fd) s = Inr (slot_addr s i, slot_file s i)" by auto
  let ?f = "(slot_file s i)\<lparr>first_index := first_of ys\<rparr>"
  have ys': "ys = slot_chain s i @ fresh_blocks (the_fat s)
      (blocks_needed (fd_pos s fd + unat count) - length (slot_chain s i))"
    by (simp add: ys_def chain_for_def n_def)
  obtain F d where w: "fs_write fd (Some buf) count s =
      Inr (int r, if r = unat count
        then advanced (nat fd) (slot_addr s i) ?f (the_fd s fd) (unat count)
          ((allocated F (slot_addr s i) (slot_file s i) ys s)\<lparr>dev := d\<rparr>)
        else (allocated F (slot_addr s i) (slot_file s i) ys s)\<lparr>dev := d\<rparr>)"
    and g: "grown (the_fat s) F (first_of ys) ys"
    and rw: "rewritten (disk_blocks s ys) (put_data (file_data s i @ stale_data s i n) (fd_pos s fd) r buf) (dev s) d"
    using fs_write_ok [OF ok(12) fd(2,3,4) chains_okD(1) [OF ok(7) fd(1)] assms(4-6) fd_pos_def refl ys'
          chain_for_content [of s i n, folded ys_def, symmetric] r_def [THEN meta_eq_to_obj_eq]]
    by blast
  define s1 where "s1 = update_slot F i ?f d s"
  have s1: "(allocated F (slot_addr s i) (slot_file s i) ys s)\<lparr>dev := d\<rparr> = s1"
    by (simp add: s1_def allocated_def update_slot_def)
  note t1 = write_transfer_ok [OF assms(1) fd(1) ys_def [THEN meta_eq_to_obj_eq] g rw, folded s1_def]
  have e1: "open_files s1 = open_files s" "slot_addr s1 = slot_addr s" "the_fat s1 = F" "the_fd s1 fd = the_fd s fd"
    "open_fd s1 fd"
    using assms(2) by (simp_all add: s1_def the_fd_def open_fd_def)
  have k: "(open_files s)[nat fd := Some (the_fd s fd)] = open_files s"
    using assms(2) list_update_id [of "open_files s" "nat fd"] by (simp add: open_fd_def the_fd_def)
  note adv = advanced_ok [OF t1(1) e1(5) t1(4), of "unat count", unfolded t1(5-7) e1(1,2,4)]
  show ?thesis
  proof (cases "r = unat count")
    case False
    show ?thesis
      by (rule that [of s1]) (use w s1 False t1 e1 k g in simp_all)
  next
    case True
    then show ?thesis
      using w s1 adv(1,4-8) adv(9,10) e1(3) g kept_trans [OF t1(2) adv(2)] others_same_trans [OF t1(3) adv(3)]
      by (intro that [of "advanced (nat fd) (slot_addr s i) ?f (the_fd s fd) (unat count) s1"]) simp_all
  qed
qed

lemma write_ok:
  assumes "fs_ok s" and "open_fd s fd" and "fd_slot s fd = Some i" and "small_count count"
    and "0 < unat count" and "unat count \<le> length buf"
  defines "n \<equiv> fd_pos s fd + unat count"
  defines "ys \<equiv> chain_for s i n"
  defines "r \<equiv> min (unat count) (BLOCK_SIZE * length ys - fd_pos s fd)"
  obtains s' where "fs_write fd (Some buf) count s = Inr (int r, s')"
    and "fs_ok s'" and "kept s s'" and "others_same i s s'" and "used s' i" and "slot_chain s' i = ys"
    and "slot_file s' i = (slot_file s i)\<lparr>first_index := first_of ys,
      file_size := file_size (slot_file s i) + (if r = unat count then of_nat r else 0)\<rparr>"
    and "file_data s' i = put_data (file_data s i @ stale_data s i n) (fd_pos s fd) r buf"
    and "open_files s' = (open_files s)[nat fd := Some ((the_fd s fd)\<lparr>fd_offset :=
      fd_offset (the_fd s fd) + (if r = unat count then of_nat r else 0)\<rparr>)]"
    and "slot_addr s' = slot_addr s"
  by (rule write_ok_table [OF assms(1-6)]) (simp add: that n_def ys_def r_def)

section \<open>Deleting a longer file\<close>

text \<open>
  Of a chain of two blocks or more \<open>fs_delete\<close> releases the first block only, and it clears entry 0 of
  the table. The other blocks stay marked as used and belong to no file. The next deletion of such a
  file does not return.
\<close>

definition broken :: "u16 list \<Rightarrow> u16 \<Rightarrow> u16 list" where
  "broken F x = F[unat x := 0, 0 := 0]"

lemma fs_delete_long:
  assumes "fs_ok s" and "valid_name n" and "catalog s (c_text n) = Some i" and "\<not> is_open s i"
    and "slot_chain s i = x # y # ys"
  defines "s' \<equiv> update_slot (broken (the_fat s) x) i (emptied (slot_file s i)) (dev s) s"
  shows "fs_delete (Some n) s = Inr (0, s')"
    and "the_fat s' ! 0 = 0" and "z \<in> set (y # ys) \<Longrightarrow> the_fat s' ! unat z \<noteq> 0"
    and "used s' j \<longleftrightarrow> used s j \<and> j \<noteq> i"
    and "used s' j \<Longrightarrow> slot_file s' j = slot_file s j \<and> set (slot_chain s j) \<inter> set (y # ys) = {} \<and>
      chain (the_fat s') (first_index (slot_file s' j)) (slot_chain s j)"
proof -
  note ok = fs_okD [OF assms(1)]
  from catalog_SomeD [OF assms(3)] have i: "i < FS_FILE_MAX_COUNT" "used s i" by (auto simp: used_def)
  note c = chains_okD(1) [OF ok(7) i(2)]
  have "free_file_blocks (first_index (slot_file s i)) s = Inr (with_fat (broken (the_fat s) x) s)"
    unfolding free_file_blocks_with_fat [OF ok(2) c ok(15)] by (simp add: assms(5) broken_def)
  moreover have "set_file (slot_addr s i) f (with_fat F s) = update_slot F i f (dev s) s" for F f
    by (simp add: update_slot_def set_file_def)
  ultimately show "fs_delete (Some n) s = Inr (0, s')"
    using assms(2-4) by (simp add: fs_delete_eq [OF ok(1,3,4,5)] s'_def)
  show "the_fat s' ! 0 = 0" using ok(14) by (simp add: s'_def broken_def)
  show "the_fat s' ! unat z \<noteq> 0" if z: "z \<in> set (y # ys)"
  proof -
    have "x \<noteq> z" "z \<noteq> 0" using z chain_distinct [OF c] chain_members [OF c, of z] assms(5) by auto
    then have "unat x \<noteq> unat z" "unat z \<noteq> 0" by (auto simp: unat_eq_0 dest: unsigned_word_eqI)
    moreover have "the_fat s ! unat z \<noteq> 0" using chain_entry_nonzero [OF c, of z] z assms(5) by simp
    ultimately show ?thesis by (simp add: s'_def broken_def)
  qed
  show u: "used s' j \<longleftrightarrow> used s j \<and> j \<noteq> i"
    using update_slot_used [OF ok(3) i(1)] emptied_ok(2) [OF files_ok_slot(3) [OF ok(3) i(1)]] by (auto simp: s'_def)
  assume "used s' j"
  with u have uj: "used s j" "j \<noteq> i" by simp_all
  note cj = chains_okD(1) [OF ok(7) uj(1)]
  have apart: "x \<notin> set (slot_chain s j)" "set (slot_chain s j) \<inter> set (y # ys) = {}"
    using chains_okD(2) [OF ok(7) i(2) uj(1)] uj(2) assms(5) by auto
  have "chain (broken (the_fat s) x) (first_index (slot_file s j)) (slot_chain s j)"
    unfolding broken_def
  proof (intro chain_update_other [OF chain_update_other [OF cj]])
    show "unat z \<noteq> unat x" if "z \<in> set (slot_chain s j)" for z
      using that apart(1) by (auto dest: unsigned_word_eqI)
    show "unat z \<noteq> 0" if "z \<in> set (slot_chain s j)" for z
      using chain_members [OF cj that] by (simp add: unat_eq_0)
  qed
  moreover have "slot_file s' j = slot_file s j"
    using update_slot_file(1) [OF ok(3) i(1)] uj by (simp add: s'_def used_def)
  ultimately show "slot_file s' j = slot_file s j \<and> set (slot_chain s j) \<inter> set (y # ys) = {} \<and>
      chain (the_fat s') (first_index (slot_file s' j)) (slot_chain s j)"
    using apart(2) by (simp add: s'_def)
qed

lemma fs_delete_twice:
  assumes "fs_ok s" and "valid_name n" and "catalog s (c_text n) = Some i" and "\<not> is_open s i"
    and "slot_chain s i = x # y # ys"
    and "valid_name m" and "catalog s (c_text m) = Some j" and "\<not> is_open s j"
    and "slot_chain s j = v # w # vs" and "i \<noteq> j"
  shows "\<exists>s'. fs_delete (Some n) s = Inr (0, s') \<and> fs_delete (Some m) s' = Inl Diverges"
proof -
  note ok = fs_okD [OF assms(1)]
  define s' where "s' = update_slot (broken (the_fat s) x) i (emptied (slot_file s i)) (dev s) s"
  note d = fs_delete_long [OF assms(1-5), folded s'_def]
  from catalog_SomeD [OF assms(3)] have i: "i < FS_FILE_MAX_COUNT" "slot_name s i = c_text n" by auto
  from catalog_SomeD [OF assms(7)] have j: "j < FS_FILE_MAX_COUNT" "slot_name s j = c_text m" "used s j"
    by (auto simp: used_def)
  note em = emptied_ok [OF files_ok_slot(3) [OF ok(3) i(1)]]
  have uj: "used s' j" using update_slot_used [OF ok(3) i(1)] j(3) assms(10) by (simp add: s'_def)
  have f: "fat_ok s'"
    using ok(2) fat_okD(1,3) [OF ok(2)] by (simp add: fat_ok_def s'_def update_slot_def broken_def)
  have fo: "files_ok s'"
    using files_ok_set_file [OF ok(3) em(1), of "slot_addr s i"]
    by (simp add: s'_def update_slot_def files_ok_def)
  have so: "slots_ok s'" using ok(4) by (simp add: slots_ok_def s'_def)
  have nd: "names_distinct s'" unfolding s'_def
    by (rule update_slot_names(1) [OF ok(3,5) i(1)]) (simp add: em(2))
  have "c_text m \<noteq> c_text n"
    using names_distinctD [OF ok(5), of i j] i j assms(10) valid_name_text [OF assms(2)] by auto
  then have "catalog s' (c_text m) = Some j"
    using update_slot_names(2) [OF ok(3,5) i(1), of "emptied (slot_file s i)"] em(2) assms(7) i(2)
    by (simp add: s'_def)
  moreover have "\<not> is_open s' j" using assms(8) by (simp add: is_open_def s'_def)
  moreover have c: "chain (the_fat s') (first_index (slot_file s' j)) (v # w # vs)"
    using d(5) [OF uj] unfolding assms(9) by blast
  have "free_file_blocks (first_index (slot_file s' j)) s' = Inl Diverges"
    by (rule free_file_blocks_diverges [OF f c]) (simp add: d(2) FAT_EOC_def)
  moreover have "is_disk_mounted s'" using ok(1) by (simp add: s'_def)
  ultimately have "fs_delete (Some m) s' = Inl Diverges"
    using assms(6) by (simp add: fs_delete_eq [OF _ fo so nd])
  with d(1) show ?thesis by blast
qed

end
