(* ===== verification/System.thy ===== *)
theory System
  imports Invariant
begin

text \<open>
  The API as a state machine: the calls on a mounted disk, the step relation, and what holds in every
  state a program can reach through them; mounting as the source of good states, and the round trip
  through the disk (\<open>fs_umount\<close> and \<open>fs_mount\<close> again).
\<close>

section \<open>Calls\<close>

datatype call =
    Create c_str
  | Delete c_str
  | Ls
  | Info
  | Open c_str
  | Close int
  | Stat int
  | Lseek int u64
  | Write int "byte list option" u64
  | Read int "byte list option" u64

fun run_call :: "call \<Rightarrow> fs \<Rightarrow> (int \<times> fs) res" where
  "run_call (Create name) s = fs_create name s"
| "run_call (Delete name) s = fs_delete name s"
| "run_call Ls s = fs_ls s"
| "run_call Info s = fs_info s"
| "run_call (Open name) s = fs_open name s"
| "run_call (Close fd) s = fs_close fd s"
| "run_call (Stat fd) s = bnd (fs_stat fd s) (\<lambda>r. Inr (r, s))"
| "run_call (Lseek fd offset) s = fs_lseek fd offset s"
| "run_call (Write fd buf count) s = fs_write fd buf count s"
| "run_call (Read fd buf count) s = bnd (fs_read fd buf count s) (\<lambda>(r, buf, s). Inr (r, s))"

text \<open>
  The calls for which the code works as intended: descriptors that are in the table or out of the range
  checked, buffers of at least \<open>count\<close> bytes, reads of at least one byte, and deletions of files of at
  most one block.
\<close>

definition fd_arg :: "int \<Rightarrow> bool" where
  "fd_arg fd \<longleftrightarrow> \<not> (int FS_OPEN_MAX_COUNT \<le> fd \<and> fd < int FS_FILE_MAX_COUNT)"

definition buf_arg :: "byte list option \<Rightarrow> u64 \<Rightarrow> bool" where
  "buf_arg buf count \<longleftrightarrow>
     (case buf of None \<Rightarrow> True | Some b \<Rightarrow> unat count \<le> length b \<and> small_count count)"

fun admissible :: "call \<Rightarrow> fs \<Rightarrow> bool" where
  "admissible (Delete name) s =
     (case name of
       None \<Rightarrow> True
     | Some n \<Rightarrow>
         (case catalog s (c_text n) of None \<Rightarrow> True | Some i \<Rightarrow> length (slot_chain s i) \<le> 1))"
| "admissible (Close fd) s = fd_arg fd"
| "admissible (Stat fd) s = fd_arg fd"
| "admissible (Lseek fd offset) s = fd_arg fd"
| "admissible (Write fd buf count) s = (fd_arg fd \<and> buf_arg buf count)"
| "admissible (Read fd buf count) s = (fd_arg fd \<and> buf_arg buf count \<and> 0 < count)"
| "admissible c s = True"

inductive step_call :: "fs \<Rightarrow> call \<Rightarrow> int \<Rightarrow> fs \<Rightarrow> bool" where
  step: "admissible c s \<Longrightarrow> run_call c s = Inr (r, s') \<Longrightarrow> step_call s c r s'"

inductive reachable :: "fs \<Rightarrow> fs \<Rightarrow> bool" for s0 where
  start: "reachable s0 s0"
| call: "reachable s0 s \<Longrightarrow> step_call s c r s' \<Longrightarrow> reachable s0 s'"

inductive_cases step_callE: "step_call s c r s'"

section \<open>One call\<close>

text \<open>The invariant of the state machine: the one of theory \<open>Invariant\<close>, and names that end.\<close>

definition sound :: "fs \<Rightarrow> bool" where
  "sound s \<longleftrightarrow> fs_ok s \<and> names_terminated s"

lemma names_terminated_iff:
  assumes "files_ok s"
  shows "names_terminated s \<longleftrightarrow> (\<forall>i. used s i \<longrightarrow> 0 \<in> set (filename (slot_file s i)))"
proof -
  have "0 \<in> set (filename (slot_file s i))" if "i < FS_FILE_MAX_COUNT" "\<not> used s i" for i
  proof -
    have "filename (slot_file s i) ! 0 = 0"
      using that slot_name_Nil_iff [OF assms that(1)] by (simp add: used_def)
    then show ?thesis
      using file_ok_filename [OF files_ok_slot(3) [OF assms that(1)]] by (metis length_greater_0_conv nth_mem)
  qed
  then show ?thesis by (auto simp: names_terminated_def used_def)
qed

definition step_fine :: "fs \<Rightarrow> (int \<times> fs) res \<Rightarrow> bool" where
  "step_fine s m \<longleftrightarrow> (\<exists>r s'. m = Inr (r, s') \<and> sound s' \<and> kept s s')"

lemma kept_refl [simp]: "kept s s"
  by (simp add: kept_def)

lemma step_fine_same [simp]: "sound s \<Longrightarrow> step_fine s (Inr (r, s))"
  by (simp add: step_fine_def)

lemma same_files_sound:
  assumes "sound s" and "fs_ok s'" and "same_files s s'"
  shows "sound s'"
  using assms same_files_simps(6) [OF assms(3)] by (simp add: sound_def names_terminated_def)

lemma step_fine_same_files:
  "sound s \<Longrightarrow> fs_ok s' \<Longrightarrow> kept s s' \<Longrightarrow> same_files s s' \<Longrightarrow> step_fine s (Inr (r, s'))"
  using same_files_sound by (auto simp: step_fine_def)

lemma others_sound:
  assumes "sound s" and "fs_ok s'" and "\<And>j. used s' j \<Longrightarrow> j \<noteq> i \<Longrightarrow> used s j"
    and "\<And>j. used s j \<Longrightarrow> j \<noteq> i \<Longrightarrow> slot_file s' j = slot_file s j"
    and "used s' i \<Longrightarrow> 0 \<in> set (filename (slot_file s' i))"
  shows "sound s'"
proof -
  have "files_ok s" "files_ok s'" using assms(1,2) fs_okD(3) by (auto simp: sound_def)
  with assms show ?thesis by (metis names_terminated_iff sound_def)
qed

lemma create_fine: "sound s \<Longrightarrow> step_fine s (fs_create name s)"
proof -
  assume s: "sound s"
  then have ok: "fs_ok s" by (simp add: sound_def)
  note o = fs_okD [OF ok]
  show ?thesis
  proof (cases "\<exists>n i. name = Some n \<and> valid_name n \<and> catalog s (c_text n) = None \<and> free_slot s = Some i")
    case True
    then obtain n i where n: "name = Some n" "valid_name n" "catalog s (c_text n) = None" "free_slot s = Some i"
      by blast
    let ?f = "new_entry n (slot_file s i)"
    note c = create_ok [OF ok n(2-4)]
    from free_slot_SomeD [OF n(4)] have i: "i < FS_FILE_MAX_COUNT" by simp
    have eq: "set_file (slot_addr s i) ?f s = update_slot (the_fat s) i ?f (dev s) s"
      using fat_okD(2) [OF o(2)] by (simp add: update_slot_def set_file_def)
    have "sound (set_file (slot_addr s i) ?f s)"
    proof (rule others_sound [OF s c(1)])
      show "0 \<in> set (filename (slot_file (set_file (slot_addr s i) ?f s) i))"
        using new_entry_ok(3) [OF n(2) files_ok_slot(3) [OF o(3) i]] slot_file_set_file(1) [OF o(3) i i]
        by simp
    qed (use c(5) update_slot_used [OF o(3) i] eq in auto)
    with c(2) show ?thesis
      by (simp add: step_fine_def fs_create_eq [OF o(1,3)] n)
  next
    case False
    with s show ?thesis
      by (auto simp: fs_create_eq [OF o(1,3)] split: option.splits)
  qed
qed

lemma delete_fine: "sound s \<Longrightarrow> admissible (Delete name) s \<Longrightarrow> step_fine s (fs_delete name s)"
proof -
  assume s: "sound s" and ad: "admissible (Delete name) s"
  then have ok: "fs_ok s" by (simp add: sound_def)
  note o = fs_okD [OF ok]
  show ?thesis
  proof (cases "\<exists>n i. name = Some n \<and> valid_name n \<and> catalog s (c_text n) = Some i \<and> \<not> is_open s i")
    case True
    then obtain n i where n: "name = Some n" "valid_name n" "catalog s (c_text n) = Some i" "\<not> is_open s i"
      by blast
    with ad have l: "length (slot_chain s i) \<le> 1" by simp
    note d = delete_ok [OF ok n(3,4) l]
    from catalog_SomeD [OF n(3)] have i: "i < FS_FILE_MAX_COUNT" by simp
    have "sound (update_slot (released (the_fat s) (slot_chain s i)) i (emptied (slot_file s i)) (dev s) s)"
      by (rule others_sound [OF s d(1), of i])
        (use d(4) update_slot_used [OF o(3) i] emptied_ok(2) [OF files_ok_slot(3) [OF o(3) i]] in auto)
    with d(2) show ?thesis
      by (simp add: step_fine_def n fs_delete_short [OF ok n(2-4) l])
  next
    case False
    with s show ?thesis
      by (auto simp: fs_delete_eq [OF o(1,3,4,5)] split: option.splits)
  qed
qed

lemma open_fine: "sound s \<Longrightarrow> step_fine s (fs_open name s)"
proof -
  assume s: "sound s"
  then have ok: "fs_ok s" by (simp add: sound_def)
  note o = fs_okD [OF ok]
  have n: "unat (num_open_files s) \<le> FS_OPEN_MAX_COUNT"
    using o(6) used_fds_le [OF o(13)] by (simp add: count_ok_def)
  have "step_fine s (Inr (int k, opened k i s))" if "catalog s t = Some i" "free_fd s = Some k" for t i k
  proof -
    have "used s i" using catalog_SomeD [OF that(1)] by (auto simp: used_def)
    from opened_fs_ok [OF ok this that(2)] s show ?thesis by (intro step_fine_same_files)
  qed
  with s show ?thesis by (auto simp: fs_open_eq [OF o(1,3,4,11) n] split: option.split)
qed

lemma fd_rejected_cases:
  assumes "fs_ok s" and "fd_arg fd"
  shows "fd_rejected fd s = Inr (\<not> open_fd s fd)"
  using fd_rejected_eq [OF fs_okD(13,1) [OF assms(1)]] assms(2) by (simp add: fd_arg_def)

lemma close_fine: "sound s \<Longrightarrow> fd_arg fd \<Longrightarrow> step_fine s (fs_close fd s)"
proof -
  assume s: "sound s" and fd: "fd_arg fd"
  then have ok: "fs_ok s" by (simp add: sound_def)
  have "step_fine s (Inr (0, closed fd s))" if "open_fd s fd"
    using closed_fs_ok [OF ok that] s by (intro step_fine_same_files)
  with s fd show ?thesis
    by (auto simp: fs_close_eq [OF fs_okD(1,4) [OF ok]] fd_arg_def)
qed

lemma stat_fine: "sound s \<Longrightarrow> fd_arg fd \<Longrightarrow> step_fine s (bnd (fs_stat fd s) (\<lambda>r. Inr (r, s)))"
proof -
  assume s: "sound s" and fd: "fd_arg fd"
  then have ok: "fs_ok s" by (simp add: sound_def)
  show ?thesis
  proof (cases "open_fd s fd")
    case True
    from fs_ok_open [OF ok this] obtain i where "fd_slot s fd = Some i" by blast
    with s True show ?thesis by (simp add: fs_stat_eq [OF fs_okD(1,3,4) [OF ok]])
  next
    case False
    with s show ?thesis by (simp add: fs_stat_def fd_rejected_cases [OF ok fd])
  qed
qed

lemma lseek_fine: "sound s \<Longrightarrow> fd_arg fd \<Longrightarrow> step_fine s (fs_lseek fd offset s)"
proof -
  assume s: "sound s" and fd: "fd_arg fd"
  then have ok: "fs_ok s" by (simp add: sound_def)
  show ?thesis
  proof (cases "open_fd s fd")
    case True
    from fs_ok_open [OF ok this] obtain i where "fd_slot s fd = Some i" by blast
    moreover have "step_fine s (Inr (0, set_fd_entry (nat fd)
        (Some ((the_fd s fd)\<lparr>fd_offset := ucast offset\<rparr>)) s))"
      using set_offset_ok [OF ok True] s by (intro step_fine_same_files)
    ultimately show ?thesis using s True by (simp add: fs_lseek_eq [OF fs_okD(1,3,4) [OF ok]])
  next
    case False
    with s show ?thesis by (simp add: fs_lseek_def fd_rejected_cases [OF ok fd])
  qed
qed

lemma stdout_fine: "sound s \<Longrightarrow> step_fine s (Inr (r, s\<lparr>stdout := out\<rparr>))"
proof -
  assume s: "sound s"
  then have ok: "fs_ok s" by (simp add: sound_def)
  show ?thesis using stdout_ok [OF ok] s by (intro step_fine_same_files) (simp_all add: same_files_def)
qed

lemma read_ok:
  assumes "fs_ok s" and "open_fd s fd" and "fd_slot s fd = Some i" and "small_count count"
    and "0 < count" and "unat count \<le> length buf"
    and r: "r = min (unat count) (length (file_data s i) - fd_pos s fd)"
  shows "fs_read fd (Some buf) count s =
    Inr (int r, Some (got (file_data s i) (fd_pos s fd) r buf),
         if r = unat count
         then set_fd_entry (nat fd) (Some ((the_fd s fd)\<lparr>fd_offset := fd_offset (the_fd s fd) + ucast count\<rparr>)) s
         else s)"
proof -
  from fs_ok_open [OF assms(1,2)] assms(3) have t: "fd_rejected fd s = Inr False"
    "fd_entry (nat fd) s = Inr (the_fd s fd)" "transfer s (nat fd) (slot_chain s i) (file_data s i)" by auto
  have c: "0 < unat count" using assms(5) by (simp add: word_less_nat_alt)
  show ?thesis
    by (rule fs_read_ok [OF t(3,1,2) assms(4) c assms(6) fd_pos_def refl])
      (simp add: r transfer_length [OF t(3)])
qed

lemma read_fine:
  assumes "sound s" and "fd_arg fd" and "buf_arg buf count" and "0 < count"
  shows "step_fine s (bnd (fs_read fd buf count s) (\<lambda>(r, buf, s). Inr (r, s)))"
proof -
  from assms(1) have ok: "fs_ok s" by (simp add: sound_def)
  show ?thesis
  proof (cases "open_fd s fd \<and> buf \<noteq> None")
    case True
    then obtain b where b: "open_fd s fd" "buf = Some b" by auto
    with assms(3) have sz: "small_count count" "unat count \<le> length b" by (simp_all add: buf_arg_def)
    from fs_ok_open [OF ok b(1)] obtain i where "fd_slot s fd = Some i" by blast
    note rd = read_ok [OF ok b(1) this sz(1) assms(4) sz(2) refl]
    have "step_fine s (Inr (n, set_fd_entry (nat fd) (Some ((the_fd s fd)\<lparr>fd_offset := x\<rparr>)) s))" for n x
      using set_offset_ok [OF ok b(1)] assms(1) by (intro step_fine_same_files)
    with assms(1) show ?thesis by (simp add: b(2) rd)
  next
    case False
    with assms(1) show ?thesis
      by (auto simp: fs_read_def fd_rejected_cases [OF ok assms(2)] split: option.split)
  qed
qed

lemma write_fine:
  assumes "sound s" and "fd_arg fd" and "buf_arg buf count"
  shows "step_fine s (fs_write fd buf count s)"
proof -
  from assms(1) have ok: "fs_ok s" by (simp add: sound_def)
  note o = fs_okD [OF ok]
  show ?thesis
  proof (cases "open_fd s fd \<and> buf \<noteq> None \<and> count \<noteq> 0")
    case True
    then obtain b where b: "open_fd s fd" "buf = Some b" "0 < unat count"
      by (auto simp: unat_gt_0)
    with assms(3) have sz: "small_count count" "unat count \<le> length b" by (simp_all add: buf_arg_def)
    from fs_ok_open [OF ok b(1)] obtain i where i: "fd_slot s fd = Some i" "i < FS_FILE_MAX_COUNT" "used s i"
      by blast
    from write_ok [OF ok b(1) i(1) sz(1) b(3) sz(2)] obtain n s' ys m where w:
      "fs_write fd (Some b) count s = Inr (n, s')" "fs_ok s'" "kept s s'" "others_same i s s'"
      "slot_file s' i = (slot_file s i)\<lparr>first_index := ys, file_size := m\<rparr>" by metis
    have z: "0 \<in> set (filename (slot_file s i))"
      using assms(1) i(2) by (simp add: sound_def names_terminated_def)

    have "sound s'"
      by (rule others_sound [OF assms(1) w(2), of i])
        (use w(4,5) z in \<open>simp_all add: others_same_def\<close>)
    with w(1,3) show ?thesis by (simp add: step_fine_def b(2))
  next
    case False
    with assms(1) show ?thesis
      by (auto simp: fs_write_def fd_rejected_cases [OF ok assms(2)] split: option.split)
  qed
qed

text \<open>
  An admissible call in a sound state always returns, without a fault, and leaves a sound state.
\<close>

lemma call_fine:
  assumes "sound s" and "admissible c s"
  shows "step_fine s (run_call c s)"
proof -
  from assms(1) have ok: "fs_ok s" and nt: "names_terminated s" by (simp_all add: sound_def)
  show ?thesis
  proof (cases c)
    case Ls
    with stdout_fine [OF assms(1)] show ?thesis by (simp add: fs_ls_eq [OF fs_okD(3) [OF ok] nt])
  next
    case Info
    with stdout_fine [OF assms(1)] show ?thesis by (simp add: fs_info_eq [OF fs_okD(1,2,3) [OF ok]])
  qed (use assms create_fine delete_fine open_fine close_fine stat_fine lseek_fine write_fine read_fine
      in simp_all)
qed

lemma step_call_sound:
  assumes "step_call s c r s'" and "sound s"
  shows "sound s'" and "kept s s'"
proof -
  from assms(1) have "admissible c s" "run_call c s = Inr (r, s')" by (auto elim: step_callE)
  with call_fine [OF assms(2), of c] show "sound s'" and "kept s s'" by (auto simp: step_fine_def)
qed

lemma reachable_sound:
  assumes "reachable s0 s" and "sound s0"
  shows "sound s" and "kept s0 s"
  using assms(1)
proof (induction rule: reachable.induct)
  case start
  {
    case 1
    show ?case by (rule assms(2))
  next
    case 2
    show ?case by simp
  }
next
  case (call s c r s')
  {
    case 1
    show ?case by (rule step_call_sound(1) [OF call.hyps(2) call.IH(1)])
  next
    case 2
    show ?case by (rule kept_trans [OF call.IH(2) step_call_sound(2) [OF call.hyps(2) call.IH(1)]])
  }
qed

section \<open>Mounting a formatted disk\<close>

text \<open>
  The table, the entries and the chains in a disk file, and the files that hold a consistent file
  system: blocks in the order superblock, table, directory, data, all on the disk; names that end and
  differ; chains that exist and share no block.
\<close>

definition image_sb :: "byte list \<Rightarrow> SuperBlock" where
  "image_sb c = parse_super_block (content_block c 0)"

definition image_fat :: "byte list \<Rightarrow> u16 list" where
  "image_fat c = fat_of_block (unat (num_data_blocks (image_sb c))) (content_block c 1)"

definition image_file :: "byte list \<Rightarrow> nat \<Rightarrow> File" where
  "image_file c i = dir_entry (content_block c 2) i"

lemma mountable_image:
  "mountable c \<longleftrightarrow> length c mod BLOCK_SIZE = 0 \<and> 2 < length c div BLOCK_SIZE \<and>
     super_block_ok (image_sb c) (int (length c div BLOCK_SIZE)) \<and> num_fat_blocks (image_sb c) = 1 \<and>
     0 < num_data_blocks (image_sb c) \<and> 2 * unat (num_data_blocks (image_sb c)) \<le> BLOCK_SIZE \<and>
     image_fat c ! 0 = FAT_EOC \<and>
     (\<forall>i < FS_FILE_MAX_COUNT. \<forall>x \<in> set (file_padding (image_file c i)). x = 0)"
proof -
  have "super_block_ok (image_sb c) (int (length c div BLOCK_SIZE)) \<Longrightarrow>
      2 < num_blocks (image_sb c) \<longleftrightarrow> 2 < length c div BLOCK_SIZE"
    by (simp add: super_block_ok_def word_less_def)
  then show ?thesis
    by (auto simp: mountable_def Let_def image_fat_def image_file_def dir_ok_def word_less_nat_alt simp flip: image_sb_def)
qed

definition image_used :: "byte list \<Rightarrow> nat \<Rightarrow> bool" where
  "image_used c i \<longleftrightarrow> i < FS_FILE_MAX_COUNT \<and> c_text (filename (image_file c i)) \<noteq> []"

definition image_chain :: "byte list \<Rightarrow> nat \<Rightarrow> u16 list" where
  "image_chain c i = chain_of (image_fat c) (first_index (image_file c i))"

definition formatted :: "byte list \<Rightarrow> bool" where
  "formatted c \<longleftrightarrow>
     mountable c \<and> root_index (image_sb c) = 2 \<and> 2 < unat (data_start_index (image_sb c)) \<and>
     unat (data_start_index (image_sb c)) + length (image_fat c) \<le> length c div BLOCK_SIZE \<and>
     (\<forall>i < FS_FILE_MAX_COUNT. image_used c i \<longrightarrow>
       0 \<in> set (filename (image_file c i)) \<and>
       chain (image_fat c) (first_index (image_file c i)) (image_chain c i)) \<and>
     (\<forall>i < FS_FILE_MAX_COUNT. \<forall>j < FS_FILE_MAX_COUNT.
       image_used c i \<longrightarrow> image_used c j \<longrightarrow> i \<noteq> j \<longrightarrow>
       c_text (filename (image_file c i)) \<noteq> c_text (filename (image_file c j)) \<and>
       set (image_chain c i) \<inter> set (image_chain c j) = {})"

text \<open>A mounted disk in a sound state, with the data blocks behind the directory.\<close>

definition in_session :: "string \<Rightarrow> fs \<Rightarrow> bool" where
  "in_session path s \<longleftrightarrow>
     sound s \<and> mounted_on path s \<and> 2 < unat (data_start_index (the_sb s))"

lemma mountable_length_fat:
  assumes "mountable c"
  shows "length (image_fat c) = unat (num_data_blocks (image_sb c))"
proof -
  note b = mountable_blocks [OF assms]
  have "2 * unat (num_data_blocks (image_sb c)) \<le> BLOCK_SIZE"
    using assms by (simp add: mountable_def Let_def image_sb_def)
  moreover have "length (content_block c 1) = BLOCK_SIZE"
    using mult_le_mono2 [of 2 "length c div BLOCK_SIZE" BLOCK_SIZE] b(2,3) by (simp add: content_block_def)
  ultimately show ?thesis by (simp add: image_fat_def fat_of_block_def)
qed

lemma all_closed_open_used: "all_closed s \<Longrightarrow> open_used s"
  by (auto simp: all_closed_def open_used_def)

lemma mount_in_session:
  assumes "\<not> is_disk_mounted s" and "disk_fd (disk (dev s)) = INVALID_FD" and "calm (dev s)"
    and "0 \<le> host_next (host (dev s))" and "host_files (host (dev s)) path = Some c"
    and "formatted c" and "length (root s) = FS_FILE_MAX_COUNT"
    and "length (open_files s) = FS_OPEN_MAX_COUNT" and "num_open_files s = 0"
  obtains s' where "fs_mount (Some path) s = Inr (0, s')" and "in_session path s'" and "all_closed s'"
    and "\<And>i. i < FS_FILE_MAX_COUNT \<Longrightarrow> slot_file s' i = image_file c i"
    and "the_fat s' = image_fat c" and "the_sb s' = image_sb c" and "disk_image (dev s') = c"
proof -
  from assms(6) have m: "mountable c" by (simp add: formatted_def)
  note mb = mountable_blocks [OF m]
  obtain s' where run: "fs_mount (Some path) s = Inr (0, s')" "num_open_files s' = num_open_files s"
    and im: "holds_image path c s'"
    by (rule fs_mount_ok [OF assms(1-5) m assms(7,8)])
  from im have s': "is_disk_mounted s'" "sb s' = Ptr (image_sb c)"
    "fat s' = Ptr (fat_of_block (unat (num_data_blocks (the_sb s'))) (content_block c 1))"
    "files_ok s'" "\<And>i. i < FS_FILE_MAX_COUNT \<Longrightarrow> slot_file s' i = image_file c i" "all_closed s'"
    and hd: "disk_ok (dev s')" "calm (dev s')" "disk_image (dev s') = c" "blocks (dev s') = length c div BLOCK_SIZE"
      "0 \<le> host_next (host (dev s'))" "host_fds (host (dev s')) (disk_fd (disk (dev s'))) = Some path"
    unfolding holds_image_def holds_disk_def image_sb_def image_file_def by blast+
  have sb: "the_sb s' = image_sb c" using s'(2) by (simp add: the_sb_def)
  have fat: "the_fat s' = image_fat c" using s'(3) sb by (simp add: the_fat_def image_fat_def)
  have f: "fat_ok s'" using s'(2,3) fat mountable_length_fat [OF m] sb
    by (simp add: fat_ok_def the_fat_def)
  have us: "used s' i = image_used c i" for i
    using s'(5) by (auto simp: used_def image_used_def slot_name_def)
  have sc: "slot_chain s' i = image_chain c i" if "i < FS_FILE_MAX_COUNT" for i
    using s'(5) [OF that] by (simp add: slot_chain_def image_chain_def fat)
  have nd: "names_distinct s'"
    using assms(6) us s'(5) unfolding names_distinct_def formatted_def slot_name_def image_used_def
    by metis
  have ch: "chains_ok s'"
    using assms(6) us s'(5) sc fat by (simp add: chains_ok_def formatted_def chain_ok_def)
  have lo: "layout_ok s'"
    using assms(6) hd(4) mb(1) by (simp add: layout_ok_def formatted_def sb fat)
  have co: "count_ok s'"
    using s'(6) run(2) assms(9) by (simp add: count_ok_def used_fds_def all_closed_def)
  have of: "length (open_files s') = FS_OPEN_MAX_COUNT" using s'(6) by (simp add: all_closed_def)
  have m': "0 < length (the_fat s')" "the_fat s' ! 0 = FAT_EOC" "2 * length (the_fat s') \<le> BLOCK_SIZE"
    "super_block_ok (image_sb c) (int (length c div BLOCK_SIZE))" "num_fat_blocks (image_sb c) = 1"
    "dir_ok (content_block c 2)"
    using m mountable_length_fat [OF m] by (simp_all add: mountable_def Let_def image_sb_def image_fat_def fat)
  have ok: "fs_ok s'"
    using s' hd f nd ch lo co of m' all_closed_open_used by (simp add: fs_ok_def)
  moreover have "names_terminated s'"
    unfolding names_terminated_iff [OF s'(4)] us
    using assms(6) s'(5) by (simp add: formatted_def) (simp add: image_used_def)
  ultimately have "sound s'" by (simp add: sound_def)
  moreover have "mounted_on path s'"
    using s' hd f of m' assms(6) mb(2)
    by (simp add: mounted_on_def sb formatted_def block_at_content image_sb_def [symmetric] dir_ok_def
        image_file_def)
  moreover have "2 < unat (data_start_index (the_sb s'))" using assms(6) by (simp add: formatted_def sb)
  ultimately have "in_session path s'" by (simp add: in_session_def)
  then show ?thesis by (rule that [OF run(1) _ s'(6,5) fat sb hd(3)])
qed

section \<open>A session\<close>

lemma mounted_on_kept:
  assumes "mounted_on path s" and "fs_ok s'" and "kept s s'"
  shows "mounted_on path s'"
proof -
  note ok = fs_okD [OF assms(2)]
  from assms(3) have k: "sb s' = sb s" "length (the_fat s') = length (the_fat s)"
    "disk (dev s') = disk (dev s)" "host_fds (host (dev s')) = host_fds (host (dev s))"
    "host_next (host (dev s')) = host_next (host (dev s))" "block_at (dev s') 0 = block_at (dev s) 0"
    "\<And>i. i < FS_FILE_MAX_COUNT \<Longrightarrow> file_padding (slot_file s' i) = file_padding (slot_file s i)"
    by (simp_all add: kept_def)
  then have "the_sb s' = the_sb s" "blocks (dev s') = blocks (dev s)"
    by (simp_all add: the_sb_def blocks_def)
  with assms(1) ok k show ?thesis by (simp add: mounted_on_def)
qed

lemma in_session_kept:
  assumes "in_session path s" and "sound s'" and "kept s s'"
  shows "in_session path s'"
proof -
  from assms(3) have "the_sb s' = the_sb s" by (simp add: kept_def the_sb_def)
  with mounted_on_kept [OF _ _ assms(3)] assms(1,2) show ?thesis by (simp add: in_session_def sound_def)
qed

lemma session_call:
  assumes "in_session path s" and "reachable s s'"
  shows "in_session path s'"
proof -
  from assms(1) have s: "sound s" "mounted_on path s" "2 < unat (data_start_index (the_sb s))"
    by (simp_all add: in_session_def)
  note r = reachable_sound [OF assms(2) s(1)]
  then have "the_sb s' = the_sb s" by (simp add: kept_def the_sb_def)
  with mounted_on_kept [OF s(2) _ r(2)] r(1) s(3) show ?thesis by (simp add: in_session_def sound_def)
qed

lemma in_session_step:
  assumes "in_session path s" and "admissible c s" and "run_call c s = Inr (r, s')"
  shows "in_session path s'"
  using assms by (intro session_call [OF assms(1)] reachable.call [OF reachable.start step_call.step])

text \<open>
  Two states with the same superblock, table, entries and data blocks hold the same files.
\<close>

lemma same_contents:
  assumes "the_sb s2 = the_sb s" and "the_fat s2 = the_fat s" and "2 < unat (data_start_index (the_sb s))"
    and "\<And>i. i < FS_FILE_MAX_COUNT \<Longrightarrow> slot_file s2 i = slot_file s i"
    and "\<And>b. 2 < b \<Longrightarrow> block_at (dev s2) b = block_at (dev s) b"
  shows "catalog s2 = catalog s" and "used s2 = used s"
    and "\<And>i. i < FS_FILE_MAX_COUNT \<Longrightarrow> slot_chain s2 i = slot_chain s i"
    and "\<And>i. used s i \<Longrightarrow> file_data s2 i = file_data s i"
proof -
  have nm: "slot_name s2 i = slot_name s i" if "i < FS_FILE_MAX_COUNT" for i
    using assms(4) [OF that] by (simp add: slot_name_def)
  then show "catalog s2 = catalog s" by (rule catalog_cong)
  show "used s2 = used s" using nm by (auto simp: used_def fun_eq_iff)
  show sc: "slot_chain s2 i = slot_chain s i" if "i < FS_FILE_MAX_COUNT" for i
    using assms(4) [OF that] assms(1,2) by (simp add: slot_chain_def)
  show "file_data s2 i = file_data s i" if "used s i" for i
  proof (rule file_data_eq)
    show "slot_chain s2 i = slot_chain s i" using sc that by (simp add: used_def)
    fix b assume "b \<in> set (disk_blocks s (slot_chain s i))"
    then have "2 < b" using assms(3) by (auto simp: disk_blocks_def)
    then show "block_at (dev s2) b = block_at (dev s) b" by (rule assms(5))
  qed (rule assms(1))
qed

text \<open>
  Unmounting and mounting again brings back every file with its size, its chain and its data.
\<close>

lemma session_remount:
  assumes "in_session path s"
  obtains s1 s2 where "fs_umount s = Inr (0, s1)" and "fs_mount (Some path) s1 = Inr (0, s2)"
    and "mounted_on path s2" and "catalog s2 = catalog s"
    and "\<And>i. i < FS_FILE_MAX_COUNT \<Longrightarrow> slot_file s2 i = slot_file s i"
    and "\<And>i. i < FS_FILE_MAX_COUNT \<Longrightarrow> slot_chain s2 i = slot_chain s i"
    and "\<And>i. used s i \<Longrightarrow> file_data s2 i = file_data s i"
    and "all_closed s2" and "num_open_files s = 0 \<Longrightarrow> in_session path s2"
proof -
  from assms have s: "sound s" "fs_ok s" "mounted_on path s" "2 < unat (data_start_index (the_sb s))"
    by (simp_all add: in_session_def sound_def)
  note ok = fs_okD [OF s(2)]
  from umount_mount [OF s(3)] obtain s1 s2 where r: "fs_umount s = Inr (0, s1)"
    "fs_mount (Some path) s1 = Inr (0, s2)" "mounted_on path s2" "sb s2 = sb s" "fat s2 = fat s"
    "\<And>i. i < FS_FILE_MAX_COUNT \<Longrightarrow> slot_file s2 i = slot_file s i"
    "\<And>b. b \<noteq> 1 \<Longrightarrow> b \<noteq> 2 \<Longrightarrow> block_at (dev s2) b = block_at (dev s) b"
    "all_closed s2" "num_open_files s2 = num_open_files s" by blast
  have e: "the_sb s2 = the_sb s" "the_fat s2 = the_fat s" using r(4,5) by (simp_all add: the_sb_def the_fat_def)
  have data: "block_at (dev s2) b = block_at (dev s) b" if "2 < b" for b using r(7) that by simp
  note same = same_contents [OF e s(4) r(6) data]
  note cat = same(1) and us = same(2) and sc = same(3) and fd = same(4)
  have nm: "slot_name s2 i = slot_name s i" if "i < FS_FILE_MAX_COUNT" for i
    using r(6) [OF that] by (simp add: slot_name_def)
  have "in_session path s2" if n: "num_open_files s = 0"
  proof -
    from r(3) have m: "is_disk_mounted s2" "fat_ok s2" "files_ok s2" "disk_ok (dev s2)" "calm (dev s2)"
      "length (open_files s2) = FS_OPEN_MAX_COUNT" "0 < length (the_fat s2)" "the_fat s2 ! 0 = FAT_EOC"
      by (simp_all add: mounted_on_def)
    have "super_block_ok (the_sb s2) (int (blocks (dev s2)))" "super_block_ok (the_sb s) (int (blocks (dev s)))"
      using r(3) s(3) by (simp_all add: mounted_on_def)
    then have "blocks (dev s2) = blocks (dev s)" by (simp add: super_block_ok_def e)
    then have "layout_ok s2" using ok(9) e by (simp add: layout_ok_def)
    moreover have "names_distinct s2" using ok(5) nm by (simp add: names_distinct_def)
    moreover have "chains_ok s2" using ok(7) us sc r(6) e by (simp add: chains_ok_def chain_ok_def)
    moreover have "count_ok s2" using r(8,9) n by (simp add: count_ok_def used_fds_def all_closed_def)
    moreover have "names_terminated s2" using s(1) r(6) by (simp add: sound_def names_terminated_def)
    ultimately show ?thesis
      using m r(3,8) s(4) all_closed_open_used e by (simp add: in_session_def sound_def fs_ok_def)
  qed
  with r(1-3,6,8) cat sc fd show ?thesis by (intro that) simp_all
qed

section \<open>Another process\<close>

text \<open>What \<open>fs_umount\<close> leaves in the disk file is again a consistent file system.\<close>

lemma umount_image:
  assumes "mounted_on path s"
  defines "c \<equiv> disk_image (umount_dev s)"
  shows "image_sb c = the_sb s" and "image_fat c = the_fat s"
    and "\<And>i. i < FS_FILE_MAX_COUNT \<Longrightarrow> image_file c i = slot_file s i"
    and "\<And>b. 2 < b \<Longrightarrow> content_block c b = block_at (dev s) b"
    and "length c = BLOCK_SIZE * blocks (dev s)"
proof -
  note u = umount_dev_blocks [OF assms(1)]
  from assms(1) have m: "fat_ok s" "files_ok s" "parse_super_block (block_at (dev s) 0) = the_sb s"
    "2 * length (the_fat s) \<le> BLOCK_SIZE"
    by (simp_all add: mounted_on_def)
  show sb: "image_sb c = the_sb s"
    using u(5) [of 0] m(3) by (simp add: c_def image_sb_def block_at_content)
  show "image_fat c = the_fat s"
    using u(3) fat_of_fat_block_mem [OF m(4), of "junk s"] fat_okD(3) [OF m(1)]
    by (simp add: image_fat_def sb) (simp add: c_def block_at_content)
  show "image_file c i = slot_file s i" if "i < FS_FILE_MAX_COUNT" for i
    using u(4) dir_image_entry [OF m(2) that] by (simp add: image_file_def c_def block_at_content)
  show "content_block c b = block_at (dev s) b" if "2 < b" for b
    using u(5) [of b] that by (simp add: c_def block_at_content)
  show "length c = BLOCK_SIZE * blocks (dev s)"
    using u(1,2) by (simp add: c_def disk_ok_def)
qed

lemma umount_formatted:
  assumes "in_session path s"
  shows "formatted (disk_image (umount_dev s))"
proof -
  let ?c = "disk_image (umount_dev s)"
  from assms have s: "sound s" "fs_ok s" "mounted_on path s" "2 < unat (data_start_index (the_sb s))"
    by (simp_all add: in_session_def sound_def)
  note ok = fs_okD [OF s(2)] and im = umount_image [OF s(3)]
  have us: "image_used ?c i = used s i" for i
    using im(3) by (auto simp: image_used_def used_def slot_name_def)
  have ch: "image_chain ?c i = slot_chain s i" if "i < FS_FILE_MAX_COUNT" for i
    using im(3) [OF that] by (simp add: image_chain_def im(2) slot_chain_def)
  have "mountable ?c" by (rule umount_dev_mountable [OF s(3)])
  moreover have "root_index (the_sb s) = 2" using s(3) by (simp add: mounted_on_def)
  moreover have "unat (data_start_index (the_sb s)) + length (the_fat s) \<le> length ?c div BLOCK_SIZE"
    using ok(9) by (simp add: layout_ok_def im(5))
  moreover have "0 \<in> set (filename (image_file ?c i))" if "used s i" for i
    using s(1) that by (simp add: im(3) sound_def names_terminated_def used_def)
  moreover have "chain (the_fat s) (first_index (image_file ?c i)) (image_chain ?c i)" if "used s i" for i
    using chains_okD(1) [OF ok(7) that] that by (simp add: im(3) ch used_def)
  moreover have "c_text (filename (image_file ?c i)) \<noteq> c_text (filename (image_file ?c j)) \<and>
      set (image_chain ?c i) \<inter> set (image_chain ?c j) = {}" if "used s i" "used s j" "i \<noteq> j" for i j
    using names_distinctD [OF ok(5), of i j] chains_okD(2) [OF ok(7) that(1,2)] that
    by (auto simp: im(3) ch used_def slot_name_def)
  ultimately show ?thesis
    using s(4) unfolding formatted_def us im(1,2) by blast
qed

text \<open>A program that starts after the disk was unmounted, on the same host.\<close>

lemma fs_init_mount:
  assumes "host_files h path = Some c" and "formatted c" and "host_faults h = []" and "0 \<le> host_next h"
  obtains s where "fs_mount (Some path) (fs_init j h) = Inr (0, s)" and "in_session path s" and "all_closed s"
    and "\<And>i. i < FS_FILE_MAX_COUNT \<Longrightarrow> slot_file s i = image_file c i"
    and "the_fat s = image_fat c" and "the_sb s = image_sb c" and "disk_image (dev s) = c"
proof -
  have pre: "\<not> is_disk_mounted (fs_init j h)" "disk_fd (disk (dev (fs_init j h))) = INVALID_FD"
    "calm (dev (fs_init j h))" "0 \<le> host_next (host (dev (fs_init j h)))"
    "host_files (host (dev (fs_init j h))) path = Some c"
    "length (root (fs_init j h)) = FS_FILE_MAX_COUNT"
    "length (open_files (fs_init j h)) = FS_OPEN_MAX_COUNT" "num_open_files (fs_init j h) = 0"
    using assms by (simp_all add: fs_init_def disk_init_def calm_def)
  show ?thesis by (rule mount_in_session [OF pre(1-5) assms(2) pre(6-8)]) (rule that)
qed

lemma session_restart:
  assumes "in_session path s"
  obtains s1 where "fs_umount s = Inr (0, s1)"
    and "\<And>j. \<exists>s2. fs_mount (Some path) (fs_init j (host (dev s1))) = Inr (0, s2) \<and> in_session path s2 \<and>
      all_closed s2 \<and> catalog s2 = catalog s \<and> the_fat s2 = the_fat s \<and>
      (\<forall>i. used s i \<longrightarrow> used s2 i \<and> slot_file s2 i = slot_file s i \<and> file_data s2 i = file_data s i)"
proof -
  let ?c = "disk_image (umount_dev s)"
  from assms have s: "mounted_on path s" "2 < unat (data_start_index (the_sb s))"
    by (simp_all add: in_session_def)
  from s(1) have m: "is_disk_mounted s" "fat_ok s" "files_ok s" "disk_ok (dev s)" "calm (dev s)"
    "unat (num_fat_blocks (the_sb s)) < blocks (dev s)" "unat (root_index (the_sb s)) < blocks (dev s)"
    "0 \<le> host_next (host (dev s))"
    by (simp_all add: mounted_on_def)
  note im = umount_image [OF s(1)] and u = umount_dev_blocks [OF s(1)]
  show ?thesis
  proof (rule fs_umount_ok [OF m(1-7)])
    fix s1 assume s1: "fs_umount s = Inr (0, s1)" "calm (dev s1)"
      "host_files (host (dev s1)) = host_files (host (umount_dev s))"
      "host_next (host (dev s1)) = host_next (host (umount_dev s))"
    have h: "host_files (host (dev s1)) path = Some ?c" "host_faults (host (dev s1)) = []"
      "0 \<le> host_next (host (dev s1))"
      using s1(2-4) u(6,7) m(8) by (simp_all add: calm_def)
    have "\<exists>s2. fs_mount (Some path) (fs_init j (host (dev s1))) = Inr (0, s2) \<and> in_session path s2 \<and>
      all_closed s2 \<and> catalog s2 = catalog s \<and> the_fat s2 = the_fat s \<and>
      (\<forall>i. used s i \<longrightarrow> used s2 i \<and> slot_file s2 i = slot_file s i \<and> file_data s2 i = file_data s i)" for j
    proof (rule fs_init_mount [OF h(1) umount_formatted [OF assms] h(2,3), of j])
      fix s2 assume s2: "fs_mount (Some path) (fs_init j (host (dev s1))) = Inr (0, s2)" "in_session path s2"
        "all_closed s2" "\<And>i. i < FS_FILE_MAX_COUNT \<Longrightarrow> slot_file s2 i = image_file ?c i"
        "the_fat s2 = image_fat ?c" "the_sb s2 = image_sb ?c" "disk_image (dev s2) = ?c"
      have "slot_file s2 i = slot_file s i" if "i < FS_FILE_MAX_COUNT" for i
        using s2(4) [OF that] im(3) [OF that] by simp
      moreover have "block_at (dev s2) b = block_at (dev s) b" if "2 < b" for b
        using im(4) [OF that] s2(7) by (simp add: block_at_content)
      moreover have "the_sb s2 = the_sb s" "the_fat s2 = the_fat s" using s2(5,6) im(1,2) by simp_all
      ultimately show ?thesis
        using same_contents [of s2 s] s(2) s2(1-3) by (intro exI [of _ s2]) (simp add: used_def)
    qed
    with s1(1) show ?thesis by (rule that)
  qed
qed

section \<open>Reading nothing\<close>

text \<open>
  \<open>fs_read\<close> does not return early for a count of 0. At an offset inside a block that is not the last
  one of the chain, it reads a whole block into the caller's buffer.
\<close>

lemma count_full_blocks_0:
  fixes offset :: u16
  assumes "unat offset mod BLOCK_SIZE \<noteq> 0"
  shows "count_full_blocks (int (blocks_needed (unat offset))) offset 0 0 = Inr 1"
proof -
  have "unat offset div BLOCK_SIZE \<le> 65536 div BLOCK_SIZE"
    using unat_u16_bound [of offset] by (intro div_le_mono) simp
  then show ?thesis
    using assms by (simp add: count_full_blocks_def blocks_needed_def c_int_def INT_MAX_def BLOCK_SIZE_def)
qed

lemma fs_read_zero:
  assumes "fs_ok s" and "open_fd s fd" and "fd_slot s fd = Some i"
    and "fd_pos s fd mod BLOCK_SIZE \<noteq> 0"
    and "Suc (fd_pos s fd div BLOCK_SIZE) < length (slot_chain s i)" and "length buf < BLOCK_SIZE"
  shows "fs_read fd (Some buf) 0 s = Inl Out_of_bounds"
proof -
  from fs_ok_open [OF assms(1,2)] assms(3) have t: "fd_rejected fd s = Inr False"
    "fd_entry (nat fd) s = Inr (the_fd s fd)" "transfer s (nat fd) (slot_chain s i) (file_data s i)" by auto
  let ?off = "fd_pos s fd" and ?offset = "fd_offset (the_fd s fd)"
  let ?q = "?off div BLOCK_SIZE"
  have z: "small_count 0" by (simp add: small_count_def)
  have pb: "part_bytes ?off 0 (blocks_needed ?off) = 0" by (simp add: part_bytes_def)
  have first: "read_first_block (nat fd) buf 0 ?offset s = Inr (Next 0, buf, s)"
    using read_first_block_ok [OF t(3) z, of ?offset buf] assms(4,5) pb
    by (simp add: fd_pos_def [symmetric])
  have bn: "blocks_needed ?off = Suc ?q" using assms(4) by (simp add: blocks_needed_def)
  have q: "?q \<le> 65536 div BLOCK_SIZE"
    using unat_u16_bound [of ?offset] unfolding fd_pos_def by (intro div_le_mono) simp
  from transfer_block(1) [OF t(3) assms(5)] obtain index where index:
    "data_block (nat fd) (int (Suc ?q)) s = Inr (Some index)"
    "block_read (ucast index) (dev s) = (0, take BLOCK_SIZE (drop (BLOCK_SIZE * Suc ?q) (file_data s i)), dev s)"
    by blast
  have "BLOCK_SIZE * Suc ?q + BLOCK_SIZE \<le> length (file_data s i)"
    using block_end_le [OF assms(5)] transfer_length [OF t(3)] by simp
  then have "length (take BLOCK_SIZE (drop (BLOCK_SIZE * Suc ?q) (file_data s i))) = BLOCK_SIZE" by simp
  then have "store_bytes buf 0 (take BLOCK_SIZE (drop (BLOCK_SIZE * Suc ?q) (file_data s i))) = Inl Out_of_bounds"
    using assms(6) by (simp only: store_bytes_def) simp
  then have full: "read_full_blocks (nat fd) buf (int (Suc ?q)) (1 + int (Suc ?q)) 0 s = Inl Out_of_bounds"
    by (subst read_full_blocks.simps) (simp only: index bnd_simps option.case prod.case, simp)
  have "uint (of_nat (unat ?offset div BLOCK_SIZE) + 1 :: u16) = int (Suc ?q)"
    using uint_full_start [of ?offset] assms(4) bn by (simp add: fd_pos_def [symmetric])
  moreover have "c_int (1 + int (Suc ?q)) = Inr (1 + int (Suc ?q))"
    using q by (subst c_int_ok) (simp_all add: INT_MAX_def BLOCK_SIZE_def)
  moreover have "count_full_blocks (int (blocks_needed ?off)) ?offset 0 0 = Inr 1"
    using count_full_blocks_0 [of ?offset] assms(4) by (simp add: fd_pos_def)
  ultimately have "read_rest (nat fd) 0 ?offset (int (blocks_needed ?off))
      (of_nat (unat ?offset div BLOCK_SIZE) + 1) 0 buf s = Inl Out_of_bounds"
    using full by (simp add: read_rest_def and_then_buf_def del: of_nat_Suc)
  with assms(4) first show ?thesis
    by (simp add: fs_read_def t(1,2) find_num_target_blocks_eq [OF z] Let_def and_then_buf_def fd_pos_def)
qed

section \<open>Writing and reading back\<close>

lemma take_drop_put_data:
  assumes "off + k \<le> length C" and "k \<le> length buf"
  shows "take k (drop off (put_data C off k buf)) = take k buf"
  using take_drop_overwrite [of off "take k buf" C] assms by (simp add: put_data_def)

lemma length_chain_for:
  assumes "fs_ok s" and "used s i"
  shows "length (file_data s i @ stale_data s i n) = BLOCK_SIZE * length (chain_for s i n)"
proof -
  note ok = fs_okD [OF assms(1)]
  have "unat x < length (the_fat s)" if "x \<in> set (chain_for s i n)" for x
    using that chain_members [OF chains_okD(1) [OF ok(7) assms(2)]] fresh_blocks_free [OF ok(2), of x]
      free_entriesD by (fastforce simp: chain_for_def)
  then have "b < blocks (dev s)" if "b \<in> set (disk_blocks s (chain_for s i n))" for b
    using that ok(9) by (fastforce simp: disk_blocks_def layout_ok_def)
  then show ?thesis
    using vd.length_content [OF ok(10), of "disk_blocks s (chain_for s i n)"]
    unfolding chain_for_content by simp
qed

lemma fd_slot_cong:
  assumes "files_ok s" and "files_ok s'" and "slot_addr s' = slot_addr s" and "fd_file (the_fd s' fd) = fd_file (the_fd s fd)"
  shows "fd_slot s' fd = fd_slot s fd"
  unfolding fd_slot_def
proof (rule find_cong)
  fix i assume "i \<in> set [0..<FS_FILE_MAX_COUNT]"
  then have "root s ! i = Some (slot_addr s i)" "root s' ! i = Some (slot_addr s' i)"
    using files_ok_slot(1) [OF assms(1)] files_ok_slot(1) [OF assms(2)] by simp_all
  with assms(3,4) show "(root s' ! i = fd_file (the_fd s' fd)) = (root s ! i = fd_file (the_fd s fd))" by simp
qed simp

text \<open>A seek to an offset of 16 bits inside the file.\<close>

lemma seek_to:
  fixes x :: u16
  assumes "fs_ok s" and "open_fd s fd" and "fd_slot s fd = Some i" and "unat x \<le> unat (file_size (slot_file s i))"
  obtains s' where "fs_lseek fd (of_nat (unat x)) s = Inr (0, s')" and "fs_ok s'" and "same_files s s'"
    and "open_fd s' fd" and "fd_slot s' fd = Some i" and "fd_pos s' fd = unat x"
proof -
  have n: "nat fd < length (open_files s)" "0 \<le> fd" "fd < int FS_OPEN_MAX_COUNT"
    using assms(2) fs_okD(13) [OF assms(1)] by (auto simp: open_fd_def)
  have x: "unat (ucast x :: u64) = unat x" "ucast (ucast x :: u64) = x"
    using unat_u16_bound [of x]
    by (simp_all add: unsigned_ucast_eq take_bit_word_eq_self take_bit_nat_eq_self word_unat_eq_iff)
  define s' where "s' = set_fd_entry (nat fd) (Some ((the_fd s fd)\<lparr>fd_offset := x\<rparr>)) s"
  note so = set_offset_ok [OF assms(1,2), of x, folded s'_def]
  have fd: "the_fd s' fd = (the_fd s fd)\<lparr>fd_offset := x\<rparr>" "open_fd s' fd"
    using n by (simp_all add: the_fd_def open_fd_def s'_def)
  have "fd_slot s' fd = fd_slot s fd"
    by (rule fd_slot_cong [OF fs_okD(3) [OF assms(1)] fs_okD(3) [OF so(1)]])
      (simp_all add: same_files_simps [OF so(3)] fd)
  with assms fd so(1,3) show ?thesis
    by (intro that [of s']) (simp_all add: fs_lseek_eq [OF fs_okD(1,3,4) [OF assms(1)] assms(2,3)] x s'_def fd_pos_def)
qed

text \<open>
  A complete write, a seek back to where it started, and a read of the same length return the bytes
  written.
\<close>

lemma write_seek_read:
  assumes "fs_ok s" and "open_fd s fd" and "fd_slot s fd = Some i" and "small_count count"
    and "0 < count" and "unat count \<le> length buf" and "unat count \<le> length buf'"
    and "unat count \<le> BLOCK_SIZE * length (chain_for s i (fd_pos s fd + unat count)) - fd_pos s fd"
  obtains s1 where "fs_write fd (Some buf) count s = Inr (int (unat count), s1)"
    and "file_size (slot_file s1 i) = file_size (slot_file s i) + of_nat (unat count)"
    and "unat (file_size (slot_file s i) + of_nat (unat count)) < fd_pos s fd \<Longrightarrow>
      fs_lseek fd (of_nat (fd_pos s fd)) s1 = Inr (-1, s1)"
    and "fd_pos s fd \<le> unat (file_size (slot_file s i) + of_nat (unat count)) \<Longrightarrow>
      \<exists>s2 s3. fs_lseek fd (of_nat (fd_pos s fd)) s1 = Inr (0, s2) \<and> fs_read fd (Some buf') count s2 =
        Inr (int (unat count), Some (overwrite buf' 0 (take (unat count) buf)), s3)"
proof -
  let ?cnt = "unat count" and ?pos = "fd_pos s fd"
  let ?ys = "chain_for s i (?pos + ?cnt)"
  have c: "0 < ?cnt" using assms(5) by (simp add: word_less_nat_alt)
  have r: "min ?cnt (BLOCK_SIZE * length ?ys - ?pos) = ?cnt" using assms(8) by simp
  obtain s1 where w:
    "fs_write fd (Some buf) count s = Inr (int ?cnt, s1)" "fs_ok s1" "slot_chain s1 i = ?ys"
    "slot_file s1 i = (slot_file s i)\<lparr>first_index := first_of ?ys,
      file_size := file_size (slot_file s i) + of_nat ?cnt\<rparr>"
    "file_data s1 i = put_data (file_data s i @ stale_data s i (?pos + ?cnt)) ?pos ?cnt buf"
    "open_files s1 = (open_files s)[nat fd := Some ((the_fd s fd)\<lparr>fd_offset :=
      fd_offset (the_fd s fd) + of_nat ?cnt\<rparr>)]" "slot_addr s1 = slot_addr s" "used s1 i"
    by (rule write_ok [OF assms(1-4) c assms(6), unfolded r if_P [OF refl]])
  have fdn: "nat fd < length (open_files s)" "0 \<le> fd" "fd < int FS_OPEN_MAX_COUNT"
    using assms(2) fs_okD(13) [OF assms(1)] by (auto simp: open_fd_def)
  have o1: "open_fd s1 fd" using fdn by (simp add: open_fd_def w(6))
  have "fd_slot s1 fd = fd_slot s fd"
    by (rule fd_slot_cong [OF fs_okD(3) [OF assms(1)] fs_okD(3) [OF w(2)]]) (use fdn in \<open>simp_all add: w(6,7) the_fd_def\<close>)
  with assms(3) have i1: "fd_slot s1 fd = Some i" by simp
  show ?thesis
  proof (rule that [OF w(1)])
    show "file_size (slot_file s1 i) = file_size (slot_file s i) + of_nat ?cnt" by (simp add: w(4))
  next
    assume small: "unat (file_size (slot_file s i) + of_nat ?cnt) < ?pos"
    have "unat (of_nat ?pos :: u64) = ?pos"
      using unat_u16_bound [of "fd_offset (the_fd s fd)"]
      by (simp add: fd_pos_def unsigned_ucast_eq take_bit_nat_eq_self)
    then show "fs_lseek fd (of_nat ?pos) s1 = Inr (-1, s1)"
      using small fs_lseek_eq [OF fs_okD(1,3,4) [OF w(2)] o1 i1, of "of_nat ?pos"] by (simp add: w(4))
  next
    assume "?pos \<le> unat (file_size (slot_file s i) + of_nat ?cnt)"
    then have "?pos \<le> unat (file_size (slot_file s1 i))" by (simp add: w(4))
    from seek_to [OF w(2) o1 i1 this [unfolded fd_pos_def], folded fd_pos_def]
    obtain s2 where l: "fs_lseek fd (of_nat ?pos) s1 = Inr (0, s2)" "fs_ok s2" "same_files s1 s2" "open_fd s2 fd"
      "fd_slot s2 fd = Some i" "fd_pos s2 fd = ?pos" .
    note sf = same_files_simps [OF l(3)]
    have ld: "length (file_data s2 i) = BLOCK_SIZE * length ?ys"
      using length_file_data [OF fs_okD(12) [OF w(2)], of i] chains_okD(1) [OF fs_okD(7) [OF w(2)] w(8)]
      by (simp add: sf w(3) chain_ok_def)
    then obtain s3 where rd: "fs_read fd (Some buf') count s2 =
        Inr (int ?cnt, Some (got (file_data s2 i) ?pos ?cnt buf'), s3)"
      using read_ok [OF l(2,4,5) assms(4,5,7) refl] l(6) assms(8) by (auto simp: min_absorb1)
    have "?pos + ?cnt \<le> BLOCK_SIZE * length ?ys" using assms(8) c by linarith
    moreover have "used s i" using fs_ok_open [OF assms(1,2)] assms(3) by auto
    then have "length (file_data s i @ stale_data s i (?pos + ?cnt)) = BLOCK_SIZE * length ?ys"
      by (rule length_chain_for [OF assms(1)])
    ultimately have "got (file_data s2 i) ?pos ?cnt buf' = overwrite buf' 0 (take ?cnt buf)"
      using take_drop_put_data [of ?pos ?cnt "file_data s i @ stale_data s i (?pos + ?cnt)" buf] assms(6)
      by (simp add: got_def sf w(5))
    with l(1) rd show "\<exists>s2 s3. fs_lseek fd (of_nat ?pos) s1 = Inr (0, s2) \<and> fs_read fd (Some buf') count s2 =
        Inr (int ?cnt, Some (overwrite buf' 0 (take ?cnt buf)), s3)" by simp
  qed
qed

section \<open>After a long deletion\<close>

text \<open>
  Deleting a file of two blocks or more clears entry 0 of the table; \<open>fs_umount\<close> writes that to the
  disk, and \<open>load_fat\<close> of every later mount refuses it.
\<close>

lemma umount_bad_table:
  assumes "mounted_on path s0" and "dev s = dev s0" and "the_sb s = the_sb s0"
    and "is_disk_mounted s" and "fat_ok s" and "files_ok s" and "the_fat s ! 0 \<noteq> FAT_EOC"
  obtains s' where "fs_umount s = Inr (0, s')"
    and "\<And>j. \<exists>s2. fs_mount (Some path) (fs_init j (host (dev s'))) = Inr (-1, s2)"
proof -
  from assms(1) have sb: "num_fat_blocks (the_sb s) = 1" "root_index (the_sb s) = 2" "2 < blocks (dev s)"
    "host_fds (host (dev s)) (disk_fd (disk (dev s))) = Some path" "0 \<le> host_next (host (dev s))"
    "parse_super_block (block_at (dev s) 0) = the_sb s" "disk_ok (dev s)" "calm (dev s)"
    "uint (num_blocks (the_sb s)) = int (blocks (dev s))" "fat_ok s0" "0 < length (the_fat s0)"
    "2 * length (the_fat s0) \<le> BLOCK_SIZE"
    by (simp_all add: mounted_on_def assms(2,3) super_block_ok_def)
  have len: "length (the_fat s) = unat (num_data_blocks (the_sb s))" "length (the_fat s) = length (the_fat s0)"
    using fat_okD(3) [OF assms(5)] fat_okD(3) [OF sb(10)] assms(3) by simp_all
  note u = umount_dev_written [OF sb(7,3) assms(6) sb(1,2,4)]
  let ?c = "disk_image (umount_dev s)"
  have c: "length ?c = BLOCK_SIZE * blocks (dev s)" using u(1,2) by (simp add: disk_ok_def)
  have b: "parse_super_block (content_block ?c 0) = the_sb s"
    using u(5) [of 0] sb(6) by (simp add: block_at_content)
  have t: "fat_of_block (unat (num_data_blocks (the_sb s))) (content_block ?c 1) = the_fat s"
    using u(3) fat_of_fat_block_mem [of "the_fat s" "junk s"] len sb(12) by (simp add: block_at_content)
  have n: "blocks (dev s) < 65536"
    using sb(9) unat_u16_bound [of "num_blocks (the_sb s)"] by (simp add: uint_eq_int_iff)
  have pre: "unat (num_fat_blocks (the_sb s)) < blocks (dev s)" "unat (root_index (the_sb s)) < blocks (dev s)"
    using sb(1-3) by simp_all
  show ?thesis
  proof (rule fs_umount_ok [OF assms(4-6) sb(7,8) pre])
    fix s' assume s': "fs_umount s = Inr (0, s')" "calm (dev s')"
      "host_files (host (dev s')) = host_files (host (umount_dev s))"
      "host_next (host (dev s')) = host_next (host (umount_dev s))"
    have "\<exists>s2. fs_mount (Some path) (fs_init j (host (dev s'))) = Inr (-1, s2)" for j
    proof -
      let ?t = "fs_init j (host (dev s'))"
      have q: "\<not> is_disk_mounted ?t" "disk_fd (disk (dev ?t)) = INVALID_FD" "calm (dev ?t)"
        "0 \<le> host_next (host (dev ?t))" "host_files (host (dev ?t)) path = Some ?c"
        using s'(2-4) u(6,7) sb(5) by (simp_all add: fs_init_def disk_init_def calm_def)
      have l: "length ?c mod BLOCK_SIZE = 0" "BLOCK_SIZE < length ?c" "length ?c div BLOCK_SIZE < 65536"
        using sb(3) n by (simp_all add: c)
      show ?thesis
        using fs_mount_rejects [OF q l, unfolded b t] sb(1,11,12) len assms(7) by (auto simp: word_less_nat_alt)
    qed
    with s'(1) show ?thesis by (rule that)
  qed
qed

lemma long_delete_unmountable:
  assumes "in_session path s" and "valid_name n" and "catalog s (c_text n) = Some i" and "\<not> is_open s i"
    and "slot_chain s i = x # y # ys"
  obtains s1 s2 where "fs_delete (Some n) s = Inr (0, s1)" and "fs_umount s1 = Inr (0, s2)"
    and "\<And>j. \<exists>s3. fs_mount (Some path) (fs_init j (host (dev s2))) = Inr (-1, s3)"
proof -
  from assms(1) have ok: "fs_ok s" and m: "mounted_on path s" by (simp_all add: in_session_def sound_def)
  note o = fs_okD [OF ok]
  from catalog_SomeD [OF assms(3)] have i: "i < FS_FILE_MAX_COUNT" by simp
  define s1 where "s1 = update_slot (broken (the_fat s) x) i (emptied (slot_file s i)) (dev s) s"
  note d = fs_delete_long [OF ok assms(2-5), folded s1_def]
  have s1: "dev s1 = dev s" "the_sb s1 = the_sb s" "is_disk_mounted s1" using o(1) by (simp_all add: s1_def)
  have "fat_ok s1"
    using o(2) fat_okD(1,3) [OF o(2)] by (simp add: fat_ok_def s1_def update_slot_def broken_def)
  moreover have "files_ok s1"
    using files_ok_set_file [OF o(3) emptied_ok(1) [OF files_ok_slot(3) [OF o(3) i]], of "slot_addr s i"]
    by (simp add: s1_def update_slot_def files_ok_def)
  moreover have "the_fat s1 ! 0 \<noteq> FAT_EOC" by (simp add: d(2) FAT_EOC_def)
  ultimately show ?thesis
    by (rule umount_bad_table [OF m s1]) (use d(1) in \<open>auto intro: that\<close>)
qed

end
