(* ===== verification/Abstract_Fs.thy ===== *)
theory Abstract_Fs
  imports System
begin

text \<open>
  What the API promises, without blocks, tables and pointers: a file system is a map from names to files
  (a size and the bytes of its blocks), a map from descriptors to a name and an offset, and the number of
  blocks that are left. Every call of theory \<open>System\<close> has a specification on such states, with the return
  values and the caller's buffer the code produces. Blocks a write adds hold what the disk held there
  before: \<open>stale\<close>, the only choice the specification leaves open.
\<close>

section \<open>States\<close>

record afile =
  a_size :: u32
  a_data :: "byte list"

record afs =
  a_files :: "byte list \<rightharpoonup> afile"
  a_descs :: "nat \<rightharpoonup> byte list \<times> u16"
  a_room :: nat

definition a_desc :: "afs \<Rightarrow> int \<Rightarrow> (byte list \<times> u16) option" where
  "a_desc A fd = (if 0 \<le> fd then a_descs A (nat fd) else None)"

definition a_move :: "int \<Rightarrow> byte list \<Rightarrow> u16 \<Rightarrow> afs \<Rightarrow> afs" where
  "a_move fd n pos A = A\<lparr>a_descs := (a_descs A)(nat fd \<mapsto> (n, pos))\<rparr>"

section \<open>Calls\<close>

definition a_create :: "c_str \<Rightarrow> afs \<Rightarrow> int \<times> afs" where
  "a_create name A =
     (case name of
       None \<Rightarrow> (-1, A)
     | Some n \<Rightarrow>
         if \<not> valid_name n \<or> a_files A (c_text n) \<noteq> None \<or> FS_FILE_MAX_COUNT \<le> card (dom (a_files A))
         then (-1, A)
         else (0, A\<lparr>a_files := (a_files A)(c_text n \<mapsto> \<lparr>a_size = 0, a_data = []\<rparr>)\<rparr>))"

definition a_delete :: "c_str \<Rightarrow> afs \<Rightarrow> int \<times> afs" where
  "a_delete name A =
     (case name of
       None \<Rightarrow> (-1, A)
     | Some n \<Rightarrow>
         if \<not> valid_name n then (-1, A)
         else case a_files A (c_text n) of
           None \<Rightarrow> (-1, A)
         | Some f \<Rightarrow>
             if \<exists>k < FS_OPEN_MAX_COUNT. map_option fst (a_descs A k) = Some (c_text n) then (-1, A)
             else (0, A\<lparr>a_files := (a_files A)(c_text n := None),
                        a_room := a_room A + length (a_data f) div BLOCK_SIZE\<rparr>))"

definition a_open :: "c_str \<Rightarrow> afs \<Rightarrow> int \<times> afs" where
  "a_open name A =
     (case name of
       None \<Rightarrow> (-1, A)
     | Some n \<Rightarrow>
         if \<not> valid_name n \<or> a_files A (c_text n) = None then (-1, A)
         else case List.find (\<lambda>k. a_descs A k = None) [0..<FS_OPEN_MAX_COUNT] of
           None \<Rightarrow> (-1, A)
         | Some k \<Rightarrow> (int k, a_move (int k) (c_text n) 0 A))"

definition a_close :: "int \<Rightarrow> afs \<Rightarrow> int \<times> afs" where
  "a_close fd A =
     (case a_desc A fd of
       None \<Rightarrow> (-1, A)
     | Some _ \<Rightarrow> (0, A\<lparr>a_descs := (a_descs A)(nat fd := None)\<rparr>))"

definition a_stat :: "int \<Rightarrow> afs \<Rightarrow> int \<times> afs" where
  "a_stat fd A =
     (case a_desc A fd of
       None \<Rightarrow> (-1, A)
     | Some (n, _) \<Rightarrow> (to_int (a_size (the (a_files A n))), A))"

definition a_lseek :: "int \<Rightarrow> u64 \<Rightarrow> afs \<Rightarrow> int \<times> afs" where
  "a_lseek fd offset A =
     (case a_desc A fd of
       None \<Rightarrow> (-1, A)
     | Some (n, _) \<Rightarrow>
         if unat (a_size (the (a_files A n))) < unat offset then (-1, A)
         else (0, a_move fd n (ucast offset) A))"

text \<open>
  A write gets as many new blocks as it needs and as there are; what does not fit is cut off, and then
  neither the size nor the offset changes.
\<close>

definition a_write :: "(nat \<Rightarrow> byte) \<Rightarrow> int \<Rightarrow> byte list option \<Rightarrow> u64 \<Rightarrow> afs \<Rightarrow> int \<times> afs" where
  "a_write stale fd buf count A =
     (case (a_desc A fd, buf) of
       (Some (n, pos), Some b) \<Rightarrow>
         if count = 0 then (0, A)
         else
         let f = the (a_files A n);
             more = min (blocks_needed (unat pos + unat count) - length (a_data f) div BLOCK_SIZE) (a_room A);
             data = a_data f @ map stale [0..<BLOCK_SIZE * more];
             r = min (unat count) (length data - unat pos);
             counted = (if r = unat count then r else 0)
         in (int r, a_move fd n (pos + of_nat counted)
              (A\<lparr>a_files := (a_files A)(n \<mapsto> \<lparr>a_size = a_size f + of_nat counted,
                                              a_data = overwrite data (unat pos) (take r b)\<rparr>),
                 a_room := a_room A - more\<rparr>))
     | _ \<Rightarrow> (-1, A))"

definition a_read :: "int \<Rightarrow> byte list option \<Rightarrow> u64 \<Rightarrow> afs \<Rightarrow> int \<times> byte list option \<times> afs" where
  "a_read fd buf count A =
     (case (a_desc A fd, buf) of
       (Some (n, pos), Some b) \<Rightarrow>
         let data = a_data (the (a_files A n));
             r = min (unat count) (length data - unat pos)
         in (int r, Some (overwrite b 0 (take r (drop (unat pos) data))),
             if r = unat count then a_move fd n (pos + ucast count) A else A)
     | _ \<Rightarrow> (-1, buf, A))"

fun a_call :: "(nat \<Rightarrow> byte) \<Rightarrow> call \<Rightarrow> afs \<Rightarrow> int \<times> byte list option \<times> afs" where
  "a_call stale (Create name) A = (case a_create name A of (r, A) \<Rightarrow> (r, None, A))"
| "a_call stale (Delete name) A = (case a_delete name A of (r, A) \<Rightarrow> (r, None, A))"
| "a_call stale Ls A = (0, None, A)"
| "a_call stale Info A = (0, None, A)"
| "a_call stale (Open name) A = (case a_open name A of (r, A) \<Rightarrow> (r, None, A))"
| "a_call stale (Close fd) A = (case a_close fd A of (r, A) \<Rightarrow> (r, None, A))"
| "a_call stale (Stat fd) A = (case a_stat fd A of (r, A) \<Rightarrow> (r, None, A))"
| "a_call stale (Lseek fd offset) A = (case a_lseek fd offset A of (r, A) \<Rightarrow> (r, None, A))"
| "a_call stale (Write fd buf count) A = (case a_write stale fd buf count A of (r, A) \<Rightarrow> (r, None, A))"
| "a_call stale (Read fd buf count) A = a_read fd buf count A"

text \<open>The same observations of the code: the return value, and the buffer of \<open>fs_read\<close>.\<close>

fun observe :: "call \<Rightarrow> fs \<Rightarrow> (int \<times> byte list option \<times> fs) res" where
  "observe (Read fd buf count) s = fs_read fd buf count s"
| "observe c s = bnd (run_call c s) (\<lambda>(r, s). Inr (r, None, s))"

section \<open>Sequences of calls\<close>

text \<open>
  Runs of a machine with calls \<open>'c\<close> and answers \<open>'o\<close>. A forward simulation carries them over to the
  states of the specification.
\<close>

inductive runs_through :: "('s \<Rightarrow> 'c \<Rightarrow> 'o \<Rightarrow> 's \<Rightarrow> bool) \<Rightarrow> 's \<Rightarrow> ('c \<times> 'o) list \<Rightarrow> 's \<Rightarrow> bool" for step where
  none: "runs_through step s [] s"
| some: "step s c r s' \<Longrightarrow> runs_through step s' tr s'' \<Longrightarrow> runs_through step s ((c, r) # tr) s''"

locale simulation =
  fixes step :: "'s \<Rightarrow> 'c \<Rightarrow> 'o \<Rightarrow> 's \<Rightarrow> bool" and spec :: "'a \<Rightarrow> 'c \<Rightarrow> 'o \<Rightarrow> 'a \<Rightarrow> bool"
    and good :: "'s \<Rightarrow> bool" and abs :: "'s \<Rightarrow> 'a"
  assumes good_step: "good s \<Longrightarrow> step s c r s' \<Longrightarrow> good s'"
    and spec_step: "good s \<Longrightarrow> step s c r s' \<Longrightarrow> spec (abs s) c r (abs s')"
begin

lemma good_run: "runs_through step s tr s' \<Longrightarrow> good s \<Longrightarrow> good s'"
  by (induction rule: runs_through.induct) (auto intro: good_step)

lemma spec_run: "runs_through step s tr s' \<Longrightarrow> good s \<Longrightarrow> runs_through spec (abs s) tr (abs s')"
  by (induction rule: runs_through.induct) (auto intro: runs_through.intros good_step spec_step)

end

text \<open>The two machines: the code on admissible calls, and the specification.\<close>

inductive code_step :: "fs \<Rightarrow> call \<Rightarrow> int \<times> byte list option \<Rightarrow> fs \<Rightarrow> bool" where
  code: "admissible c s \<Longrightarrow> observe c s = Inr (r, out, s') \<Longrightarrow> code_step s c (r, out) s'"

inductive a_step :: "afs \<Rightarrow> call \<Rightarrow> int \<times> byte list option \<Rightarrow> afs \<Rightarrow> bool" where
  a: "a_call stale c A = (r, out, A') \<Longrightarrow> a_step A c (r, out) A'"

inductive_cases code_stepE: "code_step s c r s'"

section \<open>The abstraction\<close>

definition fd_name :: "fs \<Rightarrow> FileDescriptor \<Rightarrow> byte list" where
  "fd_name s d = c_text (filename (the (heap s (the (fd_file d)))))"

definition abs_file :: "fs \<Rightarrow> nat \<Rightarrow> afile" where
  "abs_file s i = \<lparr>a_size = file_size (slot_file s i), a_data = file_data s i\<rparr>"

definition abs_fs :: "fs \<Rightarrow> afs" where
  "abs_fs s =
     \<lparr>a_files = (\<lambda>n. map_option (abs_file s) (catalog s n)),
      a_descs = (\<lambda>k. if k < FS_OPEN_MAX_COUNT
        then map_option (\<lambda>d. (fd_name s d, fd_offset d)) (open_files s ! k) else None),
      a_room = length (free_entries (the_fat s))\<rparr>"

end
