(* ===== verification/Refinement.thy ===== *)
theory Refinement
  imports Abstract_Fs
begin

text \<open>
  The code implements the specification of theory \<open>Abstract_Fs\<close>: \<open>abs_fs\<close> maps a mounted file system to
  an abstract one, and every admissible call answers and ends as the specified one does. The locale
  \<open>simulation\<close> carries this over to sequences of calls.
\<close>

section \<open>What the abstraction shows\<close>

lemma abs_fs_simps:
  "a_files (abs_fs s) n = map_option (abs_file s) (catalog s n)"
  "a_descs (abs_fs s) k = (if k < FS_OPEN_MAX_COUNT
     then map_option (\<lambda>d. (fd_name s d, fd_offset d)) (open_files s ! k) else None)"
  "a_room (abs_fs s) = length (free_entries (the_fat s))"
  by (simp_all add: abs_fs_def)

lemma afs_eqI:
  "a_files A = a_files B \<Longrightarrow> a_descs A = a_descs B \<Longrightarrow> a_room A = a_room B \<Longrightarrow> A = (B :: afs)"
  by simp

lemma fd_name_eq: "fd_file d = Some (slot_addr s i) \<Longrightarrow> fd_name s d = slot_name s i"
  by (simp add: fd_name_def slot_name_def slot_file_def)

lemma used_catalog: "fs_ok s \<Longrightarrow> used s i \<Longrightarrow> catalog s (slot_name s i) = Some i"
  using fs_okD(5) catalog_eqI by (auto simp: used_def)

text \<open>Every file has a name, and different names stand for different slots: the directory is full when
  it has 128 names.\<close>

lemma card_files:
  assumes "fs_ok s"
  shows "free_slot s = None \<longleftrightarrow> FS_FILE_MAX_COUNT \<le> card (dom (a_files (abs_fs s)))"
proof -
  note ok = fs_okD [OF assms]
  let ?U = "{i. used s i}"
  have U: "?U \<subseteq> {..<FS_FILE_MAX_COUNT}" by (auto simp: used_def)
  have "dom (a_files (abs_fs s)) = slot_name s ` ?U"
  proof (intro set_eqI iffI)
    fix n assume "n \<in> dom (a_files (abs_fs s))"
    then show "n \<in> slot_name s ` ?U"
      by (auto simp: abs_fs_simps used_def dest!: catalog_SomeD)
  next
    fix n assume "n \<in> slot_name s ` ?U"
    then show "n \<in> dom (a_files (abs_fs s))" using used_catalog [OF assms] by (auto simp: abs_fs_simps)
  qed
  moreover have "inj_on (slot_name s) ?U"
    using names_distinctD [OF ok(5)] by (auto simp: inj_on_def used_def)
  ultimately have "card (dom (a_files (abs_fs s))) = card ?U" by (simp add: card_image)
  moreover have "FS_FILE_MAX_COUNT \<le> card ?U \<longleftrightarrow> ?U = {..<FS_FILE_MAX_COUNT}"
  proof
    assume "FS_FILE_MAX_COUNT \<le> card ?U"
    then show "?U = {..<FS_FILE_MAX_COUNT}" by (intro card_seteq [OF finite_lessThan U]) simp
  next
    assume "?U = {..<FS_FILE_MAX_COUNT}"
    then have "card ?U = FS_FILE_MAX_COUNT" by (simp only: card_lessThan)
    then show "FS_FILE_MAX_COUNT \<le> card ?U" by simp
  qed
  moreover have "?U = {..<FS_FILE_MAX_COUNT} \<longleftrightarrow> free_slot s = None"
    by (auto simp: free_slot_def find_upt_None_iff used_def)
  ultimately show ?thesis by simp
qed

text \<open>Descriptors.\<close>

lemma abs_desc:
  assumes "fs_ok s"
  shows "open_fd s fd \<Longrightarrow> fd_slot s fd = Some i \<Longrightarrow>
      a_desc (abs_fs s) fd = Some (slot_name s i, fd_offset (the_fd s fd)) \<and>
      a_files (abs_fs s) (slot_name s i) = Some (abs_file s i)"
    and "\<not> open_fd s fd \<Longrightarrow> a_desc (abs_fs s) fd = None"
proof -
  assume a: "open_fd s fd" "fd_slot s fd = Some i"
  obtain j where j: "used s j" "fd_slot s fd = Some j" "fd_file (the_fd s fd) = Some (slot_addr s j)"
    by (rule fs_ok_open [OF assms a(1)]) blast
  with a have "i = j" by simp
  with j a show "a_desc (abs_fs s) fd = Some (slot_name s i, fd_offset (the_fd s fd)) \<and>
      a_files (abs_fs s) (slot_name s i) = Some (abs_file s i)"
    by (auto simp: a_desc_def abs_fs_simps fd_name_eq open_fd_def the_fd_def used_catalog [OF assms])
next
  assume "\<not> open_fd s fd"
  then show "a_desc (abs_fs s) fd = None" by (auto simp: a_desc_def abs_fs_simps open_fd_def)
qed

lemma abs_free_fd: "List.find (\<lambda>k. a_descs (abs_fs s) k = None) [0..<FS_OPEN_MAX_COUNT] = free_fd s"
  by (auto simp: free_fd_def abs_fs_simps intro!: find_cong)

lemma abs_is_open:
  assumes "fs_ok s" and "used s i"
  shows "(\<exists>k < FS_OPEN_MAX_COUNT. map_option fst (a_descs (abs_fs s) k) = Some (slot_name s i)) \<longleftrightarrow> is_open s i"
proof -
  note ok = fs_okD [OF assms(1)]
  have *: "fd_name s d = slot_name s i \<longleftrightarrow> fd_file d = Some (slot_addr s i)" if d: "Some d \<in> set (open_files s)" for d
  proof -
    from ok(8) d obtain j where j: "used s j" "fd_file d = Some (slot_addr s j)" by (auto simp: open_used_def)
    then have "fd_name s d = slot_name s i \<longleftrightarrow> j = i"
      using names_distinctD [OF ok(5), of j i] assms(2) by (auto simp: fd_name_eq used_def)
    moreover have "slot_addr s j = slot_addr s i \<longleftrightarrow> j = i"
      using slot_addr_inject [OF ok(3)] j(1) assms(2) by (simp add: used_def)
    ultimately show ?thesis using j(2) by simp
  qed
  have "(\<exists>k < FS_OPEN_MAX_COUNT. map_option fst (a_descs (abs_fs s) k) = Some (slot_name s i)) \<longleftrightarrow>
      (\<exists>d. Some d \<in> set (open_files s) \<and> fd_name s d = slot_name s i)"
    using ok(13) by (auto simp: abs_fs_simps in_set_conv_nth)
  also have "\<dots> \<longleftrightarrow> is_open s i" using * by (auto simp: is_open_def)
  finally show ?thesis .
qed

text \<open>Changes of the descriptor table, and of one file.\<close>

lemma abs_same_files:
  assumes "same_files s s'"
  shows "abs_fs s' = (abs_fs s)\<lparr>a_descs := a_descs (abs_fs s')\<rparr>"
proof -
  have "abs_file s' = abs_file s" by (simp add: abs_file_def fun_eq_iff same_files_simps [OF assms])
  then show ?thesis by (simp add: abs_fs_def same_files_simps [OF assms])
qed

lemma fd_name_cong:
  "fd_file d = Some (slot_addr s j) \<Longrightarrow> slot_addr s' j = slot_addr s j \<Longrightarrow> slot_name s' j = slot_name s j \<Longrightarrow>
    fd_name s' d = fd_name s d"
  using fd_name_eq [of d s j] fd_name_eq [of d s' j] by simp

lemma open_d_name:
  assumes "open_used s" and "Some d \<in> set (open_files s)" and "slot_addr s' = slot_addr s"
    and "\<And>j. used s j \<Longrightarrow> is_open s j \<Longrightarrow> slot_name s' j = slot_name s j"
  shows "fd_name s' d = fd_name s d"
proof -
  from assms(1,2) obtain j where j: "used s j" "fd_file d = Some (slot_addr s j)" by (auto simp: open_used_def)
  then have "is_open s j" using assms(2) by (auto simp: is_open_def)
  with j assms(3,4) show ?thesis by (intro fd_name_cong [OF j(2)]) simp_all
qed

lemma abs_descs_cong:
  assumes "fs_ok s" and "open_files s' = open_files s" and "slot_addr s' = slot_addr s"
    and "\<And>j. used s j \<Longrightarrow> is_open s j \<Longrightarrow> slot_name s' j = slot_name s j"
  shows "a_descs (abs_fs s') = a_descs (abs_fs s)"
  using open_d_name [OF fs_okD(8) [OF assms(1)] _ assms(3,4)] fs_okD(13) [OF assms(1)]
  by (auto simp: abs_fs_simps assms(2) fun_eq_iff option.map_comp intro!: option.map_cong)
    (metis nth_mem)

lemma abs_files_update:
  assumes "fs_ok s" and "used s i" and "catalog s' = catalog s"
    and "\<And>j. used s j \<Longrightarrow> j \<noteq> i \<Longrightarrow> abs_file s' j = abs_file s j"
  shows "a_files (abs_fs s') = (a_files (abs_fs s))(slot_name s i \<mapsto> abs_file s' i)"
proof
  fix n
  show "a_files (abs_fs s') n = ((a_files (abs_fs s))(slot_name s i \<mapsto> abs_file s' i)) n"
  proof (cases "n = slot_name s i")
    case True
    then show ?thesis using assms(3) used_catalog [OF assms(1,2)] by (simp add: abs_fs_simps)
  next
    case False
    with assms(4) show ?thesis
      by (cases "catalog s n") (auto simp: abs_fs_simps assms(3) used_def dest!: catalog_SomeD)
  qed
qed

section \<open>The directory\<close>

lemma create_abs:
  assumes "fs_ok s" and "valid_name n" and "catalog s (c_text n) = None" and "free_slot s = Some i"
  defines "s' \<equiv> set_file (slot_addr s i) (new_entry n (slot_file s i)) s"
  shows "abs_fs s' = (abs_fs s)\<lparr>a_files := (a_files (abs_fs s))(c_text n \<mapsto> \<lparr>a_size = 0, a_data = []\<rparr>)\<rparr>"
proof (rule afs_eqI)
  note ok = fs_okD [OF assms(1)]
  from free_slot_SomeD [OF assms(4)] have i: "i < FS_FILE_MAX_COUNT" by simp
  note c = create_ok [OF assms(1-4), folded s'_def]
  have "file_size (slot_file s' i) = 0"
    unfolding s'_def using slot_file_set_file(1) [OF ok(3) i i] by (simp add: new_entry_def)
  moreover have "file_data s' i = []" by (simp add: file_data_def disk_blocks_def blocks_content_def c(4))
  ultimately have "abs_file s' i = \<lparr>a_size = 0, a_data = []\<rparr>" by (simp add: abs_file_def)
  moreover have "abs_file s' j = abs_file s j" if "catalog s m = Some j" for m j
    using c(5) [of j] catalog_SomeD [OF that] by (auto simp: abs_file_def used_def)
  ultimately show "a_files (abs_fs s') = a_files ((abs_fs s)
      \<lparr>a_files := (a_files (abs_fs s))(c_text n \<mapsto> \<lparr>a_size = 0, a_data = []\<rparr>)\<rparr>)"
    by (auto simp: abs_fs_def c(3) fun_eq_iff intro!: option.map_cong)
  have "a_descs (abs_fs s') = a_descs (abs_fs s)"
  proof (rule abs_descs_cong [OF assms(1)])
    fix j assume "used s j"
    with c(5) show "slot_name s' j = slot_name s j" by (simp add: slot_name_def)
  qed (simp_all add: s'_def slot_addr_def fun_eq_iff)
  then show "a_descs (abs_fs s') = a_descs ((abs_fs s)
      \<lparr>a_files := (a_files (abs_fs s))(c_text n \<mapsto> \<lparr>a_size = 0, a_data = []\<rparr>)\<rparr>)" by simp
qed (simp add: abs_fs_simps s'_def the_fat_def)

lemma create_refines:
  assumes "fs_ok s"
  shows "\<exists>r s'. fs_create name s = Inr (r, s') \<and> a_create name (abs_fs s) = (r, abs_fs s')"
proof -
  note ok = fs_okD [OF assms]
  show ?thesis
  proof (cases "\<exists>n i. name = Some n \<and> valid_name n \<and> catalog s (c_text n) = None \<and> free_slot s = Some i")
    case True
    then obtain n i where n: "name = Some n" "valid_name n" "catalog s (c_text n) = None" "free_slot s = Some i"
      by blast
    have "\<not> FS_FILE_MAX_COUNT \<le> card (dom (a_files (abs_fs s)))" using card_files [OF assms] n(4) by simp
    then show ?thesis
      using n create_abs [OF assms n(2-4)] by (simp add: fs_create_eq [OF ok(1,3)] a_create_def abs_fs_simps)
  next
    case False
    then show ?thesis
      using card_files [OF assms]
      by (auto simp: fs_create_eq [OF ok(1,3)] a_create_def abs_fs_simps split: option.splits)
  qed
qed

lemma delete_abs:
  assumes "fs_ok s" and "catalog s t = Some i" and "\<not> is_open s i" and "length (slot_chain s i) \<le> 1"
  defines "s' \<equiv> update_slot (released (the_fat s) (slot_chain s i)) i (emptied (slot_file s i)) (dev s) s"
  shows "abs_fs s' = (abs_fs s)\<lparr>a_files := (a_files (abs_fs s))(t := None),
    a_room := a_room (abs_fs s) + length (file_data s i) div BLOCK_SIZE\<rparr>"
proof (rule afs_eqI)
  note ok = fs_okD [OF assms(1)]
  note d = delete_ok [OF assms(1-4), folded s'_def]
  from catalog_SomeD [OF assms(2)] have u: "used s i" by (auto simp: used_def)
  have "abs_file s' j = abs_file s j" if "catalog s m = Some j" "m \<noteq> t" for m j
  proof -
    have "j \<noteq> i" using catalog_SomeD [OF that(1)] catalog_SomeD [OF assms(2)] that(2) by auto
    with d(4) [of j] catalog_SomeD [OF that(1)] show ?thesis by (auto simp: abs_file_def used_def)
  qed
  then show "a_files (abs_fs s') = a_files ((abs_fs s)\<lparr>a_files := (a_files (abs_fs s))(t := None),
      a_room := a_room (abs_fs s) + length (file_data s i) div BLOCK_SIZE\<rparr>)"
    by (auto simp: abs_fs_def d(3) fun_eq_iff intro!: option.map_cong)
  have "a_descs (abs_fs s') = a_descs (abs_fs s)"
  proof (rule abs_descs_cong [OF assms(1)])
    fix j assume j: "used s j" "is_open s j"
    then have "j \<noteq> i" using assms(3) by auto
    with d(4) j(1) show "slot_name s' j = slot_name s j" by (simp add: slot_name_def)
  qed (simp_all add: s'_def)
  then show "a_descs (abs_fs s') = a_descs ((abs_fs s)\<lparr>a_files := (a_files (abs_fs s))(t := None),
      a_room := a_room (abs_fs s) + length (file_data s i) div BLOCK_SIZE\<rparr>)" by simp
  note c = chains_okD(1) [OF ok(7) u]
  have "length (free_entries (the_fat s')) = length (free_entries (the_fat s)) + length (slot_chain s i)"
  proof (cases "slot_chain s i")
    case Nil
    then show ?thesis by (simp add: s'_def released_def)
  next
    case (Cons x xs)
    with assms(4) have x: "slot_chain s i = [x]" by simp
    from chain_members [OF c, of x] chain_entry_nonzero [OF c, of x] x
    have "0 < unat x" "unat x < length (the_fat s)" "the_fat s ! unat x \<noteq> 0"
      by (auto simp: unat_gt_0)
    then show ?thesis by (simp add: s'_def released_def x length_free_entries_release)
  qed
  moreover have "length (file_data s i) = BLOCK_SIZE * length (slot_chain s i)"
    using length_file_data [OF ok(12), of i] c by (simp add: chain_ok_def)
  ultimately show "a_room (abs_fs s') = a_room ((abs_fs s)\<lparr>a_files := (a_files (abs_fs s))(t := None),
      a_room := a_room (abs_fs s) + length (file_data s i) div BLOCK_SIZE\<rparr>)"
    by (simp add: abs_fs_simps)
qed

lemma delete_refines:
  assumes "fs_ok s" and "admissible (Delete name) s"
  shows "\<exists>r s'. fs_delete name s = Inr (r, s') \<and> a_delete name (abs_fs s) = (r, abs_fs s')"
proof -
  note ok = fs_okD [OF assms(1)]
  show ?thesis
  proof (cases "\<exists>n i. name = Some n \<and> valid_name n \<and> catalog s (c_text n) = Some i")
    case True
    then obtain n i where n: "name = Some n" "valid_name n" "catalog s (c_text n) = Some i" by blast
    then have i: "used s i" "slot_name s i = c_text n" using catalog_SomeD by (auto simp: used_def)
    have l: "length (slot_chain s i) \<le> 1" using assms(2) n by simp
    show ?thesis
    proof (cases "is_open s i")
      case True
      with n abs_is_open [OF assms(1) i(1)] i(2) show ?thesis
        by (simp add: fs_delete_eq [OF ok(1,3,4,5)] a_delete_def abs_fs_simps(1))
    next
      case False
      with n abs_is_open [OF assms(1) i(1)] i(2) delete_abs [OF assms(1) n(3) False l] show ?thesis
        by (simp add: fs_delete_short [OF assms(1) n(2,3) False l] a_delete_def abs_fs_simps(1) abs_file_def)
    qed
  next
    case False
    then show ?thesis
      by (auto simp: fs_delete_eq [OF ok(1,3,4,5)] a_delete_def abs_fs_simps(1) split: option.splits)
  qed
qed

section \<open>Descriptors\<close>

lemma open_refines:
  assumes "fs_ok s"
  shows "\<exists>r s'. fs_open name s = Inr (r, s') \<and> a_open name (abs_fs s) = (r, abs_fs s')"
proof -
  note ok = fs_okD [OF assms]
  have n: "unat (num_open_files s) \<le> FS_OPEN_MAX_COUNT"
    using ok(6) used_fds_le [OF ok(13)] by (simp add: count_ok_def)
  have "abs_fs (opened k i s) = a_move (int k) t 0 (abs_fs s)" if c: "catalog s t = Some i" and k: "free_fd s = Some k" for t i k
  proof -
    from catalog_SomeD [OF c] have u: "used s i" "slot_name s i = t" by (auto simp: used_def)
    have k': "k < FS_OPEN_MAX_COUNT" using free_fd_SomeD [OF k] by simp
    have name: "fd_name (opened k i s) d = fd_name s d" for d by (simp add: fd_name_def opened_def)
    have "fd_name s \<lparr>fd_file = Some (slot_addr s i), fd_offset = 0\<rparr> = t" using fd_name_eq u(2) by simp
    then have "a_descs (abs_fs (opened k i s)) = (a_descs (abs_fs s))(k \<mapsto> (t, 0))"
      using k' ok(13) by (auto simp: abs_fs_simps fun_eq_iff name) (simp_all add: opened_def)
    with abs_same_files [OF opened_fs_ok(3) [OF assms u(1) k]] show ?thesis by (simp add: a_move_def)
  qed
  then show ?thesis
    by (auto simp: fs_open_eq [OF ok(1,3,4,11) n] a_open_def abs_free_fd abs_fs_simps(1) split: option.split)
qed

lemma close_refines:
  assumes "fs_ok s" and "fd_arg fd"
  shows "\<exists>r s'. fs_close fd s = Inr (r, s') \<and> a_close fd (abs_fs s) = (r, abs_fs s')"
proof -
  note ok = fs_okD [OF assms(1)]
  show ?thesis
  proof (cases "open_fd s fd")
    case True
    obtain i where "fd_slot s fd = Some i" by (rule fs_ok_open [OF assms(1) True]) blast
    note a = abs_desc(1) [OF assms(1) True this]
    have name: "fd_name (closed fd s) d = fd_name s d" for d by (simp add: fd_name_def closed_def)
    have "nat fd < FS_OPEN_MAX_COUNT" using True by (auto simp: open_fd_def)
    then have "a_descs (abs_fs (closed fd s)) = (a_descs (abs_fs s))(nat fd := None)"
      using ok(13) by (auto simp: abs_fs_simps fun_eq_iff name) (simp_all add: closed_def)
    with abs_same_files [OF closed_fs_ok(3) [OF assms(1) True]] a True assms(2) show ?thesis
      by (simp add: fs_close_eq [OF ok(1,4)] a_close_def fd_arg_def)
  next
    case False
    with abs_desc(2) [OF assms(1)] assms(2) show ?thesis
      by (simp add: fs_close_eq [OF ok(1,4)] a_close_def fd_arg_def)
  qed
qed

lemma stat_refines:
  assumes "fs_ok s" and "fd_arg fd"
  shows "\<exists>r. fs_stat fd s = Inr r \<and> a_stat fd (abs_fs s) = (r, abs_fs s)"
proof -
  note ok = fs_okD [OF assms(1)]
  show ?thesis
  proof (cases "open_fd s fd")
    case True
    obtain i where "fd_slot s fd = Some i" by (rule fs_ok_open [OF assms(1) True]) blast
    with abs_desc(1) [OF assms(1) True] True show ?thesis
      by (simp add: fs_stat_eq [OF ok(1,3,4)] a_stat_def abs_file_def)
  next
    case False
    with abs_desc(2) [OF assms(1)] show ?thesis
      by (simp add: fs_stat_def fd_rejected_cases [OF assms] a_stat_def)
  qed
qed

text \<open>Moving the offset of an open descriptor.\<close>

lemma move_abs:
  assumes "fs_ok s" and "open_fd s fd" and "fd_slot s fd = Some i"
  shows "abs_fs (set_fd_entry (nat fd) (Some ((the_fd s fd)\<lparr>fd_offset := x\<rparr>)) s) = a_move fd (slot_name s i) x (abs_fs s)"
proof -
  let ?s = "set_fd_entry (nat fd) (Some ((the_fd s fd)\<lparr>fd_offset := x\<rparr>)) s"
  obtain j where j: "fd_slot s fd = Some j" "fd_file (the_fd s fd) = Some (slot_addr s j)"
    by (rule fs_ok_open [OF assms(1,2)]) blast
  have name: "fd_name ?s d = fd_name s d" for d by (simp add: fd_name_def)
  have "fd_name s ((the_fd s fd)\<lparr>fd_offset := x\<rparr>) = slot_name s i" using j assms(3) by (intro fd_name_eq) simp
  moreover have "nat fd < FS_OPEN_MAX_COUNT" using assms(2) by (auto simp: open_fd_def)
  ultimately have "a_descs (abs_fs ?s) = (a_descs (abs_fs s))(nat fd \<mapsto> (slot_name s i, x))"
    using fs_okD(13) [OF assms(1)] by (auto simp: abs_fs_simps fun_eq_iff name)
  with abs_same_files [OF set_offset_ok(3) [OF assms(1,2), of x]] show ?thesis by (simp add: a_move_def)
qed

lemma lseek_refines:
  assumes "fs_ok s" and "fd_arg fd"
  shows "\<exists>r s'. fs_lseek fd offset s = Inr (r, s') \<and> a_lseek fd offset (abs_fs s) = (r, abs_fs s')"
proof -
  note ok = fs_okD [OF assms(1)]
  show ?thesis
  proof (cases "open_fd s fd")
    case True
    obtain i where i: "fd_slot s fd = Some i" by (rule fs_ok_open [OF assms(1) True]) blast
    with abs_desc(1) [OF assms(1) True i] move_abs [OF assms(1) True i] True show ?thesis
      by (simp add: fs_lseek_eq [OF ok(1,3,4)] a_lseek_def abs_file_def)
  next
    case False
    with abs_desc(2) [OF assms(1)] show ?thesis
      by (simp add: fs_lseek_def fd_rejected_cases [OF assms] a_lseek_def)
  qed
qed

section \<open>Reading and writing\<close>

lemma read_refines:
  assumes "fs_ok s" and "fd_arg fd" and "buf_arg buf count" and "0 < count"
  shows "\<exists>r out s'. fs_read fd buf count s = Inr (r, out, s') \<and> a_read fd buf count (abs_fs s) = (r, out, abs_fs s')"
proof (cases "open_fd s fd \<and> buf \<noteq> None")
  case True
  then obtain b where b: "open_fd s fd" "buf = Some b" by auto
  with assms(3) have sz: "small_count count" "unat count \<le> length b" by (simp_all add: buf_arg_def)
  obtain i where i: "fd_slot s fd = Some i" by (rule fs_ok_open [OF assms(1) b(1)]) blast
  note rd = read_ok [OF assms(1) b(1) i sz(1) assms(4) sz(2) refl]
  from abs_desc(1) [OF assms(1) b(1) i] move_abs [OF assms(1) b(1) i] show ?thesis
    by (simp add: b(2) rd a_read_def Let_def abs_file_def got_def fd_pos_def)
next
  case False
  then show ?thesis
    using abs_desc [OF assms(1)]
    by (auto simp: fs_read_def fd_rejected_cases [OF assms(1,2)] a_read_def split: option.split)
qed

text \<open>What every write, complete or not, does to the names, the other files and the free blocks.\<close>

lemma write_frame_abs:
  assumes "fs_ok s" and "used s i" and "others_same i s s'" and "used s' i"
    and "filename (slot_file s' i) = filename (slot_file s i)"
    and "grown (the_fat s) (the_fat s') (first_of ys) ys"
    and ys: "ys = slot_chain s i @ fresh_blocks (the_fat s) m"
  shows "\<And>j. j < FS_FILE_MAX_COUNT \<Longrightarrow> slot_name s' j = slot_name s j"
    and "a_files (abs_fs s') = (a_files (abs_fs s))(slot_name s i \<mapsto> abs_file s' i)"
    and "a_room (abs_fs s') = a_room (abs_fs s) - length (fresh_blocks (the_fat s) m)"
proof -
  note ok = fs_okD [OF assms(1)]
  show name: "slot_name s' j = slot_name s j" if "j < FS_FILE_MAX_COUNT" for j
  proof (cases "j = i")
    case True
    with assms(5) show ?thesis by (simp add: slot_name_def)
  next
    case False
    with assms(3) that show ?thesis by (cases "used s j") (auto simp: others_same_def slot_name_def used_def)
  qed
  have cat: "catalog s' = catalog s" by (rule catalog_cong) (rule name)
  show "a_files (abs_fs s') = (a_files (abs_fs s))(slot_name s i \<mapsto> abs_file s' i)"
    using abs_files_update [OF assms(1,2) cat] assms(3) by (simp add: others_same_def abs_file_def)
  show "a_room (abs_fs s') = a_room (abs_fs s) - length (fresh_blocks (the_fat s) m)"
    using length_free_entries_grown [OF ok(2) chains_okD(1) [OF ok(7) assms(2)] assms(6) [unfolded ys]]
    by (simp add: abs_fs_simps(3))
qed

text \<open>A write leaves the other descriptors as they are.\<close>

lemma write_descs:
  assumes "fs_ok s" and "open_fd s fd" and "used s i" and "fd_file (the_fd s fd) = Some (slot_addr s i)"
    and "slot_addr s' = slot_addr s" and "\<And>j. used s j \<Longrightarrow> slot_name s' j = slot_name s j"
    and "open_files s' = (open_files s)[nat fd := Some ((the_fd s fd)\<lparr>fd_offset := x\<rparr>)]"
  shows "a_descs (abs_fs s') = (a_descs (abs_fs s))(nat fd \<mapsto> (slot_name s i, x))"
proof -
  note ok = fs_okD [OF assms(1)]
  have dn: "fd_name s' d = fd_name s d" if "Some d \<in> set (open_files s)" for d
    by (rule open_d_name [OF ok(8) that assms(5)]) (simp add: assms(6))
  have "fd_name s' ((the_fd s fd)\<lparr>fd_offset := x\<rparr>) = slot_name s i"
    using fd_name_eq [of "(the_fd s fd)\<lparr>fd_offset := x\<rparr>" s' i] assms(3-6) by simp
  then show ?thesis
    using ok(13) assms(2) dn
    by (auto simp: abs_fs_simps fun_eq_iff assms(7) open_fd_def nth_list_update intro!: option.map_cong) (metis nth_mem)
qed

lemma write_abs:
  assumes "fs_ok s" and "open_fd s fd" and "fd_slot s fd = Some i" and "small_count count"
    and "0 < unat count" and "unat count \<le> length buf"
  shows "\<exists>stale r s'. fs_write fd (Some buf) count s = Inr (r, s') \<and>
    a_write stale fd (Some buf) count (abs_fs s) = (r, abs_fs s')"
proof -
  note ok = fs_okD [OF assms(1)]
  let ?pos = "fd_pos s fd"
  let ?n = "?pos + unat count"
  let ?fresh = "fresh_blocks (the_fat s) (blocks_needed ?n - length (slot_chain s i))"
  let ?r = "min (unat count) (BLOCK_SIZE * length (chain_for s i ?n) - ?pos)"
  let ?step = "of_nat (if ?r = unat count then ?r else 0)"
  obtain i' where "used s i'" "fd_slot s fd = Some i'" "fd_file (the_fd s fd) = Some (slot_addr s i')"
    by (rule fs_ok_open [OF assms(1,2)]) blast
  with assms(3) have u: "used s i" "fd_file (the_fd s fd) = Some (slot_addr s i)" by auto
  obtain s' where w: "fs_write fd (Some buf) count s = Inr (int ?r, s')" "others_same i s s'" "used s' i"
    "slot_file s' i = (slot_file s i)\<lparr>first_index := first_of (chain_for s i ?n),
      file_size := file_size (slot_file s i) + (if ?r = unat count then of_nat ?r else 0)\<rparr>"
    "file_data s' i = put_data (file_data s i @ stale_data s i ?n) ?pos ?r buf"
    "open_files s' = (open_files s)[nat fd := Some ((the_fd s fd)\<lparr>fd_offset :=
      fd_offset (the_fd s fd) + (if ?r = unat count then of_nat ?r else 0)\<rparr>)]"
    "slot_addr s' = slot_addr s" "grown (the_fat s) (the_fat s') (first_of (chain_for s i ?n)) (chain_for s i ?n)"
    by (rule write_ok_table [OF assms])
  have len: "length (file_data s i) = BLOCK_SIZE * length (slot_chain s i)"
    using length_file_data [OF ok(12), of i] chains_okD(1) [OF ok(7) u(1)] by (simp add: chain_ok_def)
  have ys: "chain_for s i ?n = slot_chain s i @ ?fresh" by (simp add: chain_for_def)
  have ld: "length (file_data s i @ stale_data s i ?n) = BLOCK_SIZE * length (chain_for s i ?n)"
    by (rule length_chain_for [OF assms(1) u(1)])
  then have ls: "length (stale_data s i ?n) = BLOCK_SIZE * length ?fresh"
    by (simp add: len ys add_mult_distrib2)
  have more: "min (blocks_needed ?n - length (slot_chain s i)) (a_room (abs_fs s)) = length ?fresh"
    by (simp add: length_fresh_blocks abs_fs_simps(3))
  define stale where "stale = (\<lambda>k. stale_data s i ?n ! k)"
  have st: "map stale [0..<BLOCK_SIZE * length ?fresh] = stale_data s i ?n"
    unfolding stale_def ls [symmetric] by (rule map_nth)
  have "filename (slot_file s' i) = filename (slot_file s i)" by (simp add: w(4))
  note fr = write_frame_abs [OF assms(1) u(1) w(2,3) this w(8) ys]
  let ?f = "\<lparr>a_size = file_size (slot_file s i) + ?step,
      a_data = overwrite (file_data s i @ stale_data s i ?n) ?pos (take ?r buf)\<rparr>"
  have files: "a_files (abs_fs s') = (a_files (abs_fs s))(slot_name s i \<mapsto> ?f)"
    unfolding fr(2) by (simp add: abs_file_def w(4,5) put_data_def)
  have "a_descs (abs_fs s') = (a_descs (abs_fs s))(nat fd \<mapsto> (slot_name s i, fd_offset (the_fd s fd) + ?step))"
    using w(6) fr(1) by (intro write_descs [OF assms(1,2) u w(7)]) (simp_all add: used_def)
  then have A: "a_move fd (slot_name s i) (fd_offset (the_fd s fd) + ?step)
      ((abs_fs s)\<lparr>a_files := (a_files (abs_fs s))(slot_name s i \<mapsto> ?f), a_room := a_room (abs_fs s) - length ?fresh\<rparr>) = abs_fs s'"
    by (intro afs_eqI) (simp_all add: a_move_def files fr(3))
  have "a_write stale fd (Some buf) count (abs_fs s) = (int ?r, abs_fs s')"
    unfolding A [symmetric] using abs_desc(1) [OF assms(1-3)] assms(5) ld
    by (simp add: a_write_def abs_file_def fd_pos_def [symmetric] len more st Let_def unat_gt_0
        del: length_append of_nat_min)
  with w(1) show ?thesis by blast
qed

lemma write_refines:
  assumes "fs_ok s" and "fd_arg fd" and "buf_arg buf count"
  shows "\<exists>stale r s'. fs_write fd buf count s = Inr (r, s') \<and> a_write stale fd buf count (abs_fs s) = (r, abs_fs s')"
proof (cases "open_fd s fd \<and> buf \<noteq> None")
  case True
  then obtain b where b: "open_fd s fd" "buf = Some b" by auto
  with assms(3) have sz: "small_count count" "unat count \<le> length b" by (simp_all add: buf_arg_def)
  obtain i where i: "fd_slot s fd = Some i" by (rule fs_ok_open [OF assms(1) b(1)]) blast
  show ?thesis
  proof (cases "count = 0")
    case True
    with abs_desc(1) [OF assms(1) b(1) i] b show ?thesis
      by (simp add: fs_write_def fd_rejected_cases [OF assms(1,2)] a_write_def)
  next
    case False
    with write_abs [OF assms(1) b(1) i sz(1) _ sz(2)] show ?thesis by (simp add: b(2) unat_gt_0)
  qed
next
  case False
  then show ?thesis
    using abs_desc [OF assms(1)]
    by (auto simp: fs_write_def fd_rejected_cases [OF assms(1,2)] a_write_def split: option.split)
qed

section \<open>The simulation\<close>

lemma abs_stdout [simp]: "abs_fs (s\<lparr>stdout := out\<rparr>) = abs_fs s"
proof -
  have "same_files s (s\<lparr>stdout := out\<rparr>)" by (simp add: same_files_def)
  from abs_same_files [OF this]
  have "abs_fs (s\<lparr>stdout := out\<rparr>) = (abs_fs s)\<lparr>a_descs := a_descs (abs_fs (s\<lparr>stdout := out\<rparr>))\<rparr>" .
  also have "a_descs (abs_fs (s\<lparr>stdout := out\<rparr>)) = a_descs (abs_fs s)"
    by (simp add: abs_fs_def fd_name_def fun_eq_iff)
  finally show ?thesis by simp
qed

lemma call_refines:
  assumes "sound s" and "admissible c s"
  shows "\<exists>stale r out s'. observe c s = Inr (r, out, s') \<and> a_call stale c (abs_fs s) = (r, out, abs_fs s')"
proof -
  from assms(1) have ok: "fs_ok s" and nt: "names_terminated s" by (simp_all add: sound_def)
  show ?thesis
  proof (cases c)
    case (Create name)
    with create_refines [OF ok, of name] show ?thesis by auto
  next
    case (Delete name)
    with delete_refines [OF ok, of name] assms(2) show ?thesis by auto
  next
    case Ls
    then show ?thesis by (simp add: fs_ls_eq [OF fs_okD(3) [OF ok] nt])
  next
    case Info
    then show ?thesis by (simp add: fs_info_eq [OF fs_okD(1,2,3) [OF ok]])
  next
    case (Open name)
    with open_refines [OF ok, of name] show ?thesis by auto
  next
    case (Close fd)
    with close_refines [OF ok, of fd] assms(2) show ?thesis by auto
  next
    case (Stat fd)
    with stat_refines [OF ok, of fd] assms(2) show ?thesis by auto
  next
    case (Lseek fd offset)
    with lseek_refines [OF ok, of fd offset] assms(2) show ?thesis by auto
  next
    case (Write fd buf count)
    with assms(2) have "fd_arg fd" "buf_arg buf count" by simp_all
    from write_refines [OF ok this] obtain stale r s' where
      "fs_write fd buf count s = Inr (r, s')" "a_write stale fd buf count (abs_fs s) = (r, abs_fs s')" by blast
    with Write show ?thesis by (intro exI [of _ stale]) simp
  next
    case (Read fd buf count)
    with read_refines [OF ok, of fd buf count] assms(2) show ?thesis by auto
  qed
qed

lemma observe_run_call: "observe c s = Inr (r, out, s') \<Longrightarrow> run_call c s = Inr (r, s')"
  by (cases c) (auto simp: bnd_eq_Inr_iff)

lemma code_step_sound: "sound s \<Longrightarrow> code_step s c r s' \<Longrightarrow> sound s'"
  by (auto elim!: code_stepE dest!: observe_run_call intro: step_call_sound(1) [OF step_call.step])

interpretation api: simulation code_step a_step sound abs_fs
proof
  show "sound s \<Longrightarrow> code_step s c r s' \<Longrightarrow> sound s'" for s c r s' by (rule code_step_sound)
  fix s c r s' assume s: "sound s" "code_step s c r s'"
  from s(2) obtain n out where c: "r = (n, out)" "admissible c s" "observe c s = Inr (n, out, s')"
    by (auto elim: code_stepE)
  from call_refines [OF s(1) c(2)] c(3) obtain stale where "a_call stale c (abs_fs s) = (n, out, abs_fs s')" by auto
  then show "a_step (abs_fs s) c r (abs_fs s')" unfolding c(1) by (rule a_step.intros)
qed

text \<open>The runs of the code are the reachable states of theory \<open>System\<close>, with what was seen on the way.\<close>

lemma runs_reachable:
  assumes "runs_through code_step s tr s'" and "reachable s0 s"
  shows "reachable s0 s'"
  using assms
  by (induction rule: runs_through.induct)
    (auto elim!: code_stepE dest!: observe_run_call intro: reachable.call step_call.step)

section \<open>What a disk file holds\<close>

text \<open>The abstract file system in the content of a disk file, which no descriptor is open on.\<close>

definition image_catalog :: "byte list \<Rightarrow> byte list \<rightharpoonup> nat" where
  "image_catalog c n =
     (if n = [] then None
      else List.find (\<lambda>i. c_text (filename (image_file c i)) = n) [0..<FS_FILE_MAX_COUNT])"

definition image_data :: "byte list \<Rightarrow> nat \<Rightarrow> byte list" where
  "image_data c i = blocks_content (content_block c)
     (map (\<lambda>x. unat x + unat (data_start_index (image_sb c))) (image_chain c i))"

definition image_afs :: "byte list \<Rightarrow> afs" where
  "image_afs c =
     \<lparr>a_files = (\<lambda>n. map_option (\<lambda>i. \<lparr>a_size = file_size (image_file c i), a_data = image_data c i\<rparr>)
        (image_catalog c n)),
      a_descs = Map.empty, a_room = length (free_entries (image_fat c))\<rparr>"

lemma image_afs_eq:
  assumes "image_sb c = the_sb s" and "image_fat c = the_fat s"
    and "\<And>i. i < FS_FILE_MAX_COUNT \<Longrightarrow> image_file c i = slot_file s i"
    and "\<And>i b. used s i \<Longrightarrow> b \<in> set (disk_blocks s (slot_chain s i)) \<Longrightarrow> content_block c b = block_at (dev s) b"
  shows "image_afs c = (abs_fs s)\<lparr>a_descs := Map.empty\<rparr>"
proof -
  have cat: "image_catalog c = catalog s"
    using assms(3) by (auto simp: image_catalog_def catalog_def slot_name_def fun_eq_iff intro!: find_cong)
  have data: "image_data c i = file_data s i" if "used s i" for i
  proof -
    have "image_chain c i = slot_chain s i"
      using assms(2,3) that by (simp add: image_chain_def slot_chain_def used_def)
    then show ?thesis
      using assms(4) [OF that]
      by (auto simp: image_data_def file_data_def disk_blocks_def blocks_content_def assms(1)
          intro!: arg_cong [of _ _ concat])
  qed
  have "map_option (\<lambda>i. \<lparr>a_size = file_size (image_file c i), a_data = image_data c i\<rparr>) (catalog s n) =
      map_option (abs_file s) (catalog s n)" for n
    using data assms(3) catalog_SomeD [of s n] by (cases "catalog s n") (auto simp: abs_file_def used_def)
  then show ?thesis by (simp add: image_afs_def abs_fs_def cat assms(2))
qed

text \<open>Mounting loads it, unmounting stores it.\<close>

lemma mount_abs:
  assumes "host_files h path = Some c" and "formatted c" and "host_faults h = []" and "0 \<le> host_next h"
  obtains s where "fs_mount (Some path) (fs_init j h) = Inr (0, s)" and "in_session path s"
    and "abs_fs s = image_afs c"
proof (rule fs_init_mount [OF assms, of j])
  fix s assume s: "fs_mount (Some path) (fs_init j h) = Inr (0, s)" "in_session path s" "all_closed s"
    "\<And>i. i < FS_FILE_MAX_COUNT \<Longrightarrow> slot_file s i = image_file c i" "the_fat s = image_fat c"
    "the_sb s = image_sb c" "disk_image (dev s) = c"
  have "image_afs c = (abs_fs s)\<lparr>a_descs := Map.empty\<rparr>"
    by (rule image_afs_eq) (simp_all add: s(4-7) block_at_content)
  also have "\<dots> = abs_fs s" using s(3) by (simp add: abs_fs_def all_closed_def fun_eq_iff)
  finally show ?thesis using s(1,2) that by simp
qed

lemma umount_abs:
  assumes "in_session path s"
  obtains s' c where "fs_umount s = Inr (0, s')" and "host_files (host (dev s')) path = Some c"
    and "formatted c" and "host_faults (host (dev s')) = []" and "0 \<le> host_next (host (dev s'))"
    and "image_afs c = (abs_fs s)\<lparr>a_descs := Map.empty\<rparr>"
proof -
  from assms have s: "mounted_on path s" "2 < unat (data_start_index (the_sb s))"
    by (simp_all add: in_session_def)
  from s(1) have m: "is_disk_mounted s" "fat_ok s" "files_ok s" "disk_ok (dev s)" "calm (dev s)"
    "unat (num_fat_blocks (the_sb s)) < blocks (dev s)" "unat (root_index (the_sb s)) < blocks (dev s)"
    "0 \<le> host_next (host (dev s))"
    by (simp_all add: mounted_on_def)
  note u = umount_dev_blocks [OF s(1)] and im = umount_image [OF s(1)]
  have "image_afs (disk_image (umount_dev s)) = (abs_fs s)\<lparr>a_descs := Map.empty\<rparr>"
  proof (rule image_afs_eq)
    fix i b assume "b \<in> set (disk_blocks s (slot_chain s i))"
    then have "2 < b" using s(2) by (auto simp: disk_blocks_def)
    then show "content_block (disk_image (umount_dev s)) b = block_at (dev s) b" by (rule im(4))
  qed (rule im)+
  note abs = this
  show ?thesis
  proof (rule fs_umount_ok [OF m(1-7)])
    fix s' assume s': "fs_umount s = Inr (0, s')" "calm (dev s')"
      "host_files (host (dev s')) = host_files (host (umount_dev s))"
      "host_next (host (dev s')) = host_next (host (umount_dev s))"
    show ?thesis
      by (rule that [OF s'(1) _ umount_formatted [OF assms] _ _ abs])
        (use s'(2-4) u(6,7) m(8) in \<open>simp_all add: calm_def\<close>)
  qed
qed

end
