(* ===== verification/Api_Rules.thy ===== *)
theory Api_Rules
  imports Refinement
begin

text \<open>
  \<open>holds path A s\<close>: the disk file \<open>path\<close> is mounted in state \<open>s\<close>, and what the caller can tell of it is \<open>A\<close>.
  For every call there is a rule that follows it on the abstract state, so that a program that uses
  the API can be verified without looking below it.
\<close>

definition holds :: "string \<Rightarrow> afs \<Rightarrow> fs \<Rightarrow> bool" where
  "holds path A s \<longleftrightarrow> in_session path s \<and> abs_fs s = A"

lemma runs_InrI: "m = Inr x \<Longrightarrow> Q x \<Longrightarrow> runs m Q"
  by simp

lemma runs_call:
  assumes "holds path A s" and "admissible c s"
    and "\<And>stale r out s'. a_call stale c A = (r, out, abs_fs s') \<Longrightarrow> observe c s = Inr (r, out, s') \<Longrightarrow>
      in_session path s' \<Longrightarrow> P"
  shows P
proof -
  from assms(1) have s: "in_session path s" "sound s" "abs_fs s = A"
    by (simp_all add: holds_def in_session_def)
  from call_refines [OF s(2) assms(2)] s(3) obtain stale r out s' where
    c: "observe c s = Inr (r, out, s')" "a_call stale c A = (r, out, abs_fs s')" by blast
  from assms(3) [OF c(2,1) in_session_step [OF s(1) assms(2) observe_run_call [OF c(1)]]] show P .
qed

lemma session_run_call:
  assumes "in_session path s" and "admissible c s"
  obtains r out s' where "observe c s = Inr (r, out, s')" and "run_call c s = Inr (r, s')" and "in_session path s'"
proof (rule runs_call [OF _ assms(2)])
  show "holds path (abs_fs s) s" using assms(1) by (simp add: holds_def)
qed (use observe_run_call that in blast)

lemma runs_create:
  assumes "holds path A s" and "a_create name A = (r, A')" and "\<And>s'. holds path A' s' \<Longrightarrow> Q (r, s')"
  shows "runs (fs_create name s) Q"
  by (rule runs_call [OF assms(1), of "Create name"])
    (use assms(2,3) in \<open>auto simp: bnd_eq_Inr_iff holds_def\<close>)

lemma runs_open:
  assumes "holds path A s" and "a_open name A = (r, A')" and "\<And>s'. holds path A' s' \<Longrightarrow> Q (r, s')"
  shows "runs (fs_open name s) Q"
  by (rule runs_call [OF assms(1), of "Open name"])
    (use assms(2,3) in \<open>auto simp: bnd_eq_Inr_iff holds_def\<close>)

lemma runs_close:
  assumes "holds path A s" and "fd_arg fd" and "a_close fd A = (r, A')" and "\<And>s'. holds path A' s' \<Longrightarrow> Q (r, s')"
  shows "runs (fs_close fd s) Q"
  by (rule runs_call [OF assms(1), of "Close fd"])
    (use assms(2-4) in \<open>auto simp: bnd_eq_Inr_iff holds_def\<close>)

lemma runs_stat:
  assumes "holds path A s" and "fd_arg fd" and "a_stat fd A = (r, A)" and "Q r"
  shows "runs (fs_stat fd s) Q"
  by (rule runs_call [OF assms(1), of "Stat fd"])
    (use assms(2-4) in \<open>auto simp: bnd_eq_Inr_iff holds_def\<close>)

lemma runs_lseek:
  assumes "holds path A s" and "fd_arg fd" and "a_lseek fd offset A = (r, A')" and "\<And>s'. holds path A' s' \<Longrightarrow> Q (r, s')"
  shows "runs (fs_lseek fd offset s) Q"
  by (rule runs_call [OF assms(1), of "Lseek fd offset"])
    (use assms(2-4) in \<open>auto simp: bnd_eq_Inr_iff holds_def\<close>)

lemma runs_read:
  assumes "holds path A s" and "fd_arg fd" and "buf_arg buf count" and "0 < count"
    and "a_read fd buf count A = (r, out, A')" and "\<And>s'. holds path A' s' \<Longrightarrow> Q (r, out, s')"
  shows "runs (fs_read fd buf count s) Q"
  by (rule runs_call [OF assms(1), of "Read fd buf count"])
    (use assms(2-6) in \<open>auto simp: holds_def\<close>)

lemma runs_write:
  assumes "holds path A s" and "fd_arg fd" and "buf_arg buf count"
    and "\<And>stale s'. holds path (snd (a_write stale fd buf count A)) s' \<Longrightarrow>
      Q (fst (a_write stale fd buf count A), s')"
  shows "runs (fs_write fd buf count s) Q"
proof (rule runs_call [OF assms(1), of "Write fd buf count"])
  fix stale r out s'
  assume "a_call stale (Write fd buf count) A = (r, out, abs_fs s')"
    "observe (Write fd buf count) s = Inr (r, out, s')" "in_session path s'"
  then have "a_write stale fd buf count A = (r, abs_fs s')" "fs_write fd buf count s = Inr (r, s')" "in_session path s'"
    by (simp_all add: bnd_eq_Inr_iff split: prod.splits)
  with assms(4) [of stale s'] show "runs (fs_write fd buf count s) Q" by (simp add: holds_def)
qed (use assms(2,3) in simp)

lemma short_delete_admissible:
  assumes "holds path A s"
    and "\<And>n f. name = Some n \<Longrightarrow> a_files A (c_text n) = Some f \<Longrightarrow> length (a_data f) \<le> BLOCK_SIZE"
  shows "admissible (Delete name) s"
proof -
  from assms(1) have ok: "fs_ok s" "abs_fs s = A" by (simp_all add: holds_def in_session_def sound_def)
  have "length (slot_chain s i) \<le> 1" if n: "name = Some n" "catalog s (c_text n) = Some i" for n i
  proof -
    have "used s i" using catalog_SomeD [OF n(2)] by (auto simp: used_def)
    then have "length (file_data s i) = BLOCK_SIZE * length (slot_chain s i)"
      using length_file_data [OF fs_okD(12) [OF ok(1)], of i] chains_okD(1) [OF fs_okD(7) [OF ok(1)]]
      by (simp add: chain_ok_def)
    moreover have "length (file_data s i) \<le> BLOCK_SIZE"
      using assms(2) [OF n(1), of "abs_file s i"] n(2) ok(2) by (auto simp: abs_fs_simps(1) abs_file_def)
    ultimately show ?thesis by simp
  qed
  then show ?thesis by (auto split: option.splits)
qed

lemma runs_delete:
  assumes "holds path A s" and "a_delete name A = (r, A')"
    and "\<And>n f. name = Some n \<Longrightarrow> a_files A (c_text n) = Some f \<Longrightarrow> length (a_data f) \<le> BLOCK_SIZE"
    and "\<And>s'. holds path A' s' \<Longrightarrow> Q (r, s')"
  shows "runs (fs_delete name s) Q"
  by (rule runs_call [OF assms(1) short_delete_admissible [OF assms(1,3)]])
    (use assms(2,4) in \<open>auto simp: bnd_eq_Inr_iff holds_def\<close>)

lemma runs_mount:
  assumes "host_files h path = Some c" and "formatted c" and "host_faults h = []" and "0 \<le> host_next h"
    and "\<And>s. holds path (image_afs c) s \<Longrightarrow> Q (0, s)"
  shows "runs (fs_mount (Some path) (fs_init j h)) Q"
  by (rule mount_abs [OF assms(1-4), of j]) (simp add: assms(5) holds_def)

lemma runs_umount:
  assumes "holds path A s"
    and "\<And>s' c. host_files (host (dev s')) path = Some c \<Longrightarrow> formatted c \<Longrightarrow>
      host_faults (host (dev s')) = [] \<Longrightarrow> 0 \<le> host_next (host (dev s')) \<Longrightarrow>
      image_afs c = A\<lparr>a_descs := Map.empty\<rparr> \<Longrightarrow> Q (0, s')"
  shows "runs (fs_umount s) Q"
  by (rule umount_abs [of path s]) (use assms in \<open>auto simp: holds_def\<close>)

section \<open>A new file\<close>

text \<open>What the specification says of the calls that store a file and read it.\<close>

lemma a_move_simps [simp]:
  "a_files (a_move fd n pos A) = a_files A" "a_room (a_move fd n pos A) = a_room A"
  "a_descs (a_move fd n pos A) = (a_descs A)(nat fd \<mapsto> (n, pos))"
  "0 \<le> fd \<Longrightarrow> a_desc (a_move fd n pos A) fd = Some (n, pos)"
  by (simp_all add: a_move_def a_desc_def)

lemma le_blocks_needed: "n \<le> BLOCK_SIZE * blocks_needed n"
  using blocks_needed_le_iff [of n "blocks_needed n"] by simp

lemma a_open_first:
  assumes "a_descs A = Map.empty" and "valid_name n" and "a_files A (c_text n) = Some f"
  shows "a_open (Some n) A = (0, a_move 0 (c_text n) 0 A)"
  using assms by (simp add: a_open_def FS_OPEN_MAX_COUNT_def upt_rec)

lemma a_write_new:
  assumes "a_desc A fd = Some (n, 0)" and "a_files A n = Some \<lparr>a_size = 0, a_data = []\<rparr>"
    and "blocks_needed (length d) \<le> a_room A" and "0 < length d" and "length d < 2147418112"
  obtains rest where "a_write stale fd (Some d) (of_nat (length d)) A = (int (length d),
      a_move fd n (of_nat (length d)) (A\<lparr>a_files := (a_files A)(n \<mapsto> \<lparr>a_size = of_nat (length d), a_data = d @ rest\<rparr>),
        a_room := a_room A - blocks_needed (length d)\<rparr>))"
    and "length (d @ rest) = BLOCK_SIZE * blocks_needed (length d)"
proof -
  let ?bn = "blocks_needed (length d)"
  let ?data = "map stale [0..<BLOCK_SIZE * ?bn]"
  have u: "unat (of_nat (length d) :: u64) = length d" using assms(5) by (simp add: unat_of_nat)
  have c: "(of_nat (length d) :: u64) \<noteq> 0" using assms(4) u by (metis less_irrefl unat_0)
  have "overwrite ?data 0 d = d @ drop (length d) ?data" by (simp add: overwrite_def)
  moreover have "length (d @ drop (length d) ?data) = BLOCK_SIZE * ?bn" using le_blocks_needed [of "length d"] by simp
  ultimately show ?thesis
    using assms(1-3) c le_blocks_needed [of "length d"]
    by (intro that [of "drop (length d) ?data"])
      (simp_all add: a_write_def u Let_def min_absorb1)
qed

lemma a_read_inside:
  assumes "a_desc A fd = Some (n, pos)" and "a_files A n = Some f"
    and "unat pos + unat count \<le> length (a_data f)"
  shows "a_read fd (Some b) count A = (int (unat count),
    Some (overwrite b 0 (take (unat count) (drop (unat pos) (a_data f)))), a_move fd n (pos + ucast count) A)"
  using assms by (simp add: a_read_def Let_def min_absorb1 le_diff_conv2)

text \<open>
  Room for one more file on a disk: its name is new, an entry and enough blocks are free.
\<close>

definition room_for :: "byte list \<Rightarrow> nat \<Rightarrow> afs \<Rightarrow> bool" where
  "room_for n len A \<longleftrightarrow>
     a_descs A = Map.empty \<and> valid_name n \<and> a_files A (c_text n) = None \<and>
     card (dom (a_files A)) < FS_FILE_MAX_COUNT \<and>
     0 < len \<and> len < 2147418112 \<and> blocks_needed len \<le> a_room A"

definition with_file :: "byte list \<Rightarrow> byte list \<Rightarrow> byte list \<Rightarrow> afs \<Rightarrow> afs" where
  "with_file n d rest A =
     A\<lparr>a_files := (a_files A)(c_text n \<mapsto> \<lparr>a_size = of_nat (length d), a_data = d @ rest\<rparr>),
       a_room := a_room A - blocks_needed (length d)\<rparr>"

text \<open>Creating a file, opening it, writing to it and closing it.\<close>

lemma store_file:
  assumes "holds path A s" and "room_for n (length d) A"
  obtains s1 s2 s3 s4 rest where "fs_create (Some n) s = Inr (0, s1)" and "fs_open (Some n) s1 = Inr (0, s2)"
    and "fs_write 0 (Some d) (of_nat (length d)) s2 = Inr (int (length d), s3)"
    and "fs_close 0 s3 = Inr (0, s4)" and "holds path (with_file n d rest A) s4"
    and "length (d @ rest) = BLOCK_SIZE * blocks_needed (length d)"
proof -
  let ?A1 = "A\<lparr>a_files := (a_files A)(c_text n \<mapsto> \<lparr>a_size = 0, a_data = []\<rparr>)\<rparr>"
  let ?A2 = "a_move 0 (c_text n) 0 ?A1"
  from assms(2) have A: "a_descs A = Map.empty" "valid_name n" "a_files A (c_text n) = None"
    "\<not> FS_FILE_MAX_COUNT \<le> card (dom (a_files A))" "0 < length d" "length d < 2147418112"
    "blocks_needed (length d) \<le> a_room A"
    by (simp_all add: room_for_def)
  have u: "unat (of_nat (length d) :: u64) = length d" using A(6) by (simp add: unat_of_nat)
  have fd: "fd_arg 0" "buf_arg (Some d) (of_nat (length d))"
    using A(6) u by (simp_all add: fd_arg_def buf_arg_def small_count_def FS_OPEN_MAX_COUNT_def)
  have "runs (fs_create (Some n) s) (\<lambda>(r, s). r = 0 \<and> holds path ?A1 s)"
    by (rule runs_create [OF assms(1), of _ 0]) (use A in \<open>simp_all add: a_create_def\<close>)
  then obtain s1 where s1: "fs_create (Some n) s = Inr (0, s1)" "holds path ?A1 s1" by (auto simp: runs_iff)
  have "runs (fs_open (Some n) s1) (\<lambda>(r, s). r = 0 \<and> holds path ?A2 s)"
    by (rule runs_open [OF s1(2) a_open_first]) (use A in simp_all)
  then obtain s2 where s2: "fs_open (Some n) s1 = Inr (0, s2)" "holds path ?A2 s2" by (auto simp: runs_iff)
  have "runs (fs_write 0 (Some d) (of_nat (length d)) s2) (\<lambda>(r, s). \<exists>stale.
      (r, s) = (fst (a_write stale 0 (Some d) (of_nat (length d)) ?A2), s) \<and>
      holds path (snd (a_write stale 0 (Some d) (of_nat (length d)) ?A2)) s)"
    by (rule runs_write [OF s2(2) fd]) auto
  then obtain stale s3 where
    s3: "fs_write 0 (Some d) (of_nat (length d)) s2 = Inr (fst (a_write stale 0 (Some d) (of_nat (length d)) ?A2), s3)"
      "holds path (snd (a_write stale 0 (Some d) (of_nat (length d)) ?A2)) s3"
    by (auto simp: runs_iff simp del: a_move_simps)
  obtain rest where r: "a_write stale 0 (Some d) (of_nat (length d)) ?A2 = (int (length d),
      a_move 0 (c_text n) (of_nat (length d)) (?A2\<lparr>a_files := (a_files ?A2)(c_text n \<mapsto>
        \<lparr>a_size = of_nat (length d), a_data = d @ rest\<rparr>), a_room := a_room ?A2 - blocks_needed (length d)\<rparr>))"
    "length (d @ rest) = BLOCK_SIZE * blocks_needed (length d)"
    by (rule a_write_new [of ?A2 0 "c_text n" d]) (use A in simp_all)
  note s3 = s3 [unfolded r(1) fst_conv snd_conv]
  have "runs (fs_close 0 s3) (\<lambda>(r, s). r = 0 \<and> holds path (with_file n d rest A) s)"
    by (rule runs_close [OF s3(2) fd(1), of 0])
      (simp_all add: a_close_def with_file_def, simp add: a_move_def A(1))
  then obtain s4 where "fs_close 0 s3 = Inr (0, s4)" "holds path (with_file n d rest A) s4" by (auto simp: runs_iff)
  with s1(1) s2(1) s3(1) r(2) show ?thesis by (intro that)
qed

end
