(* ===== verification/Clients.thy ===== *)
theory Clients
  imports Api_Rules
begin

text \<open>
  The example programs \<open>src/apps/simple_writer.c\<close> and \<open>src/apps/simple_reader.c\<close>: their \<open>main\<close> functions as
  compositions of API calls that end with an exit status (1 where \<open>ASSERT\<close> fails; its message on the error
  stream is not modelled). Their behaviour follows from the rules of theory \<open>Api_Rules\<close>.
\<close>

section \<open>The programs\<close>

text \<open>The bytes of a string literal, without the terminating zero.\<close>

definition literal :: "string \<Rightarrow> byte list" where
  "literal str = map of_char str"

text \<open>\<open>strncmp(a, b, n) == 0\<close>: at most \<open>n\<close> bytes of either array are read.\<close>

fun strncmp_eq :: "nat \<Rightarrow> byte list \<Rightarrow> byte list \<Rightarrow> bool res" where
  "strncmp_eq 0 _ _ = Inr True"
| "strncmp_eq (Suc n) (a # as) (b # bs) =
     (if a \<noteq> b then Inr False else if a = 0 then Inr True else strncmp_eq n as bs)"
| "strncmp_eq _ _ _ = Inl Out_of_bounds"

definition argument :: "nat \<Rightarrow> string list \<Rightarrow> string option" where
  "argument i argv = (if i < length argv then Some (argv ! i) else None)"

text \<open>\<open>ASSERT(cond, func)\<close>: the message is on the error stream; the program goes on with \<open>rest\<close> or exits.\<close>

definition ASSERT :: "bool \<Rightarrow> fs \<Rightarrow> (int \<times> fs) res \<Rightarrow> (int \<times> fs) res" where
  "ASSERT cond s rest = (if \<not> cond then Inr (1, s) else rest)"

definition simple_writer :: "string list \<Rightarrow> fs \<Rightarrow> (int \<times> fs) res" where
  "simple_writer argv s =
     (if length argv < 1 then Inl Null_deref
      else
      let data = literal ''abcdefghijklmnopqrstuvwxyz'';
          diskname = argument 1 argv in
      bnd (fs_mount diskname s) (\<lambda>(ret, s).
      ASSERT (ret = 0) s (
      bnd (fs_create (Some (literal ''myfile'')) s) (\<lambda>(ret, s).
      ASSERT (ret = 0) s (
      bnd (fs_open (Some (literal ''myfile'')) s) (\<lambda>(fd, s).
      ASSERT (fd \<ge> 0) s (
      bnd (fs_write fd (Some data) (of_nat (length data)) s) (\<lambda>(ret, s).
      ASSERT ((of_int ret :: u64) = of_nat (length data)) s (
      bnd (fs_close fd s) (\<lambda>(_, s).
      bnd (fs_umount s) (\<lambda>(_, s). Inr (0, s))))))))))))"

definition simple_reader :: "string list \<Rightarrow> fs \<Rightarrow> (int \<times> fs) res" where
  "simple_reader argv s =
     (if length argv < 1 then Inl Null_deref
      else
      let data = stack_buffer 26 s;
          diskname = argument 1 argv in
      bnd (fs_mount diskname s) (\<lambda>(ret, s).
      ASSERT (ret = 0) s (
      bnd (fs_open (Some (literal ''myfile'')) s) (\<lambda>(fd, s).
      ASSERT (fd \<ge> 0) s (
      bnd (fs_lseek fd 12 s) (\<lambda>(_, s).
      bnd (fs_read fd (Some data) 10 s) (\<lambda>(ret, data, s).
      ASSERT (ret = 10) s (
      bnd (strncmp_eq 10 (the data) (c_mem (literal ''mnopqrstuv''))) (\<lambda>equal.
      ASSERT equal s (
      bnd (fs_close fd s) (\<lambda>(_, s).
      bnd (fs_umount s) (\<lambda>(_, s). Inr (0, s)))))))))))))"

lemma literals [simp]:
  "length (literal str) = length str"
  "literal ''myfile'' = [109, 121, 102, 105, 108, 101]"
  "literal ''mnopqrstuv'' = [109, 110, 111, 112, 113, 114, 115, 116, 117, 118]"
  "take 10 (drop 12 (literal ''abcdefghijklmnopqrstuvwxyz'')) = literal ''mnopqrstuv''"
  by (simp_all add: literal_def)

lemma myfile [simp]:
  "c_text [109, 121, 102, 105, 108, 101] = [109, 121, 102, 105, 108, 101]"
  "valid_name [109, 121, 102, 105, 108, 101]"
  by (simp_all add: c_text_def valid_name_iff FS_FILENAME_LEN_def)

section \<open>The writer and the reader\<close>

abbreviation alphabet :: "byte list" where
  "alphabet \<equiv> literal ''abcdefghijklmnopqrstuvwxyz''"

lemma simple_writer_ok:
  assumes "host_files h path = Some c" and "formatted c" and "host_faults h = []" and "0 \<le> host_next h"
    and "room_for (literal ''myfile'') 26 (image_afs c)"
  obtains s c' rest where "simple_writer [prog, path] (fs_init j h) = Inr (0, s)"
    and "host_files (host (dev s)) path = Some c'" and "formatted c'"
    and "host_faults (host (dev s)) = []" and "0 \<le> host_next (host (dev s))"
    and "image_afs c' = with_file (literal ''myfile'') alphabet rest (image_afs c)"
proof -
  let ?n = "literal ''myfile''"
  have l: "length alphabet = 26" by simp
  have "runs (fs_mount (Some path) (fs_init j h)) (\<lambda>(r, s). r = 0 \<and> holds path (image_afs c) s)"
    by (rule runs_mount [OF assms(1-4)]) simp
  then obtain s0 where s0: "fs_mount (Some path) (fs_init j h) = Inr (0, s0)" "holds path (image_afs c) s0"
    by (auto simp: runs_iff)
  show ?thesis
  proof (rule store_file [OF s0(2) assms(5) [folded l]])
    fix s1 s2 s3 s4 rest
    assume st: "fs_create (Some ?n) s0 = Inr (0, s1)" "fs_open (Some ?n) s1 = Inr (0, s2)"
      "fs_write 0 (Some alphabet) (of_nat (length alphabet)) s2 = Inr (int (length alphabet), s3)"
      "fs_close 0 s3 = Inr (0, s4)" "holds path (with_file ?n alphabet rest (image_afs c)) s4"
    from umount_abs [of path s4] st(5) obtain s5 c' where u: "fs_umount s4 = Inr (0, s5)"
      "host_files (host (dev s5)) path = Some c'" "formatted c'" "host_faults (host (dev s5)) = []"
      "0 \<le> host_next (host (dev s5))"
      "image_afs c' = (with_file ?n alphabet rest (image_afs c))\<lparr>a_descs := Map.empty\<rparr>"
      by (auto simp: holds_def)
    have "simple_writer [prog, path] (fs_init j h) = Inr (0, s5)"
      using s0(1) st(1-4) u(1) by (simp add: simple_writer_def ASSERT_def argument_def Let_def)
    moreover have "image_afs c' = with_file ?n alphabet rest (image_afs c)"
      using u(6) assms(5) by (simp add: with_file_def room_for_def)
    ultimately show ?thesis using u(2-5) by (intro that)
  qed
qed

lemma strncmp_eq_same:
  "0 \<notin> set xs \<Longrightarrow> strncmp_eq (length xs) (xs @ ys) (xs @ zs) = Inr True"
  by (induction xs) auto

lemma simple_reader_ok:
  assumes "host_files h path = Some c" and "formatted c" and "host_faults h = []" and "0 \<le> host_next h"
    and "a_files (image_afs c) (literal ''myfile'') = Some f" and "a_size f = 26"
    and "take 26 (a_data f) = alphabet" and "26 \<le> length (a_data f)"
  shows "\<exists>s. simple_reader [prog, path] (fs_init j h) = Inr (0, s)"
proof -
  let ?n = "literal ''myfile''" and ?A = "image_afs c" and ?s = "fs_init j h"
  let ?buf = "stack_buffer 26 ?s"
  let ?A1 = "a_move 0 ?n 0 ?A" and ?A2 = "a_move 0 ?n 12 ?A" and ?A3 = "a_move 0 ?n 22 ?A"
  have fd: "fd_arg 0" "buf_arg (Some ?buf) 10"
    by (simp_all add: fd_arg_def buf_arg_def small_count_def FS_OPEN_MAX_COUNT_def)
  have "take 10 (drop 12 (a_data f)) = take 10 (drop 12 (take 26 (a_data f)))" by (simp add: drop_take)
  then have t: "take 10 (drop 12 (a_data f)) = literal ''mnopqrstuv''"
    unfolding assms(7) literals(4) .
  have m: "length (literal ''mnopqrstuv'') = 10" "0 \<notin> set (literal ''mnopqrstuv'')" by simp_all
  have eq: "strncmp_eq 10 (overwrite ?buf 0 (literal ''mnopqrstuv'')) (c_mem (literal ''mnopqrstuv'')) = Inr True"
    unfolding overwrite_def c_mem_def take_0 append_Nil
    by (rule strncmp_eq_same [OF m(2), unfolded m(1)])
  have "runs (fs_mount (Some path) ?s) (\<lambda>(r, s). r = 0 \<and> holds path ?A s)"
    by (rule runs_mount [OF assms(1-4)]) simp
  then obtain s0 where s0: "fs_mount (Some path) ?s = Inr (0, s0)" "holds path ?A s0" by (auto simp: runs_iff)
  have "runs (fs_open (Some ?n) s0) (\<lambda>(r, s). r = 0 \<and> holds path ?A1 s)"
    by (rule runs_open [OF s0(2), of _ 0 ?A1])
      (use assms(5) a_open_first [of ?A ?n f] in \<open>simp_all add: image_afs_def [of c]\<close>)
  then obtain s1 where s1: "fs_open (Some ?n) s0 = Inr (0, s1)" "holds path ?A1 s1" by (auto simp: runs_iff)
  have "runs (fs_lseek 0 12 s1) (\<lambda>(r, s). r = 0 \<and> holds path ?A2 s)"
    by (rule runs_lseek [OF s1(2) fd(1), of _ 0 ?A2])
      (use assms(5,6) in \<open>simp_all add: a_lseek_def a_move_def a_desc_def\<close>)
  then obtain s2 where s2: "fs_lseek 0 12 s1 = Inr (0, s2)" "holds path ?A2 s2" by (auto simp: runs_iff)
  have "runs (fs_read 0 (Some ?buf) 10 s2) (\<lambda>(r, out, s). r = 10 \<and>
      out = Some (overwrite ?buf 0 (literal ''mnopqrstuv'')) \<and> holds path ?A3 s)"
    by (rule runs_read [OF s2(2) fd, of 10 _ ?A3])
      (use a_read_inside [of ?A2 0 ?n 12 f 10 ?buf] assms(5,8) t in \<open>simp_all add: a_move_def a_desc_def\<close>)
  then obtain s3 where s3: "fs_read 0 (Some ?buf) 10 s2 = Inr (10, Some (overwrite ?buf 0 (literal ''mnopqrstuv'')), s3)"
    "holds path ?A3 s3" by (auto simp: runs_iff)
  have "runs (fs_close 0 s3) (\<lambda>(r, s). \<exists>A. holds path A s)"
    by (rule runs_close [OF s3(2) fd(1)]) (auto simp: a_close_def)
  then obtain r s4 A where s4: "fs_close 0 s3 = Inr (r, s4)" "holds path A s4" by (auto simp: runs_iff)
  from umount_abs [of path s4] s4(2) obtain s5 where "fs_umount s4 = Inr (0, s5)" by (auto simp: holds_def)
  with s0(1) s1(1) s2(1) s3(1) eq s4(1) show ?thesis
    by (simp add: simple_reader_def ASSERT_def argument_def Let_def)
qed

end
