(* ===== verification/Tester.thy ===== *)
theory Tester
  imports Clients
begin

text \<open>
  The commands of \<open>src/apps/test_fs.c\<close> that work on a disk: \<open>info\<close>, \<open>ls\<close>, \<open>add\<close>, \<open>rm\<close>, \<open>cat\<close> and \<open>stat\<close>. A
  command takes its arguments and ends with the exit status of the process: 1 for \<open>die\<close>, 0 when it
  returns to \<open>main\<close>. Messages on the error stream are not modelled; \<open>printf\<close> and \<open>fwrite\<close> add to \<open>stdout\<close>.
\<close>

section \<open>The commands\<close>

definition die :: "fs \<Rightarrow> (int \<times> fs) res" where
  "die s = Inr (1, s)"

definition umount_and_die :: "fs \<Rightarrow> (int \<times> fs) res" where
  "umount_and_die s = bnd (fs_umount s) (\<lambda>(_, s). die s)"

text \<open>\<open>fwrite(buf, 1, n, stdout)\<close>.\<close>

definition fwrite :: "byte list \<Rightarrow> fs \<Rightarrow> fs" where
  "fwrite data s = s\<lparr>stdout := stdout s @ [(''%s'', [Str data])]\<rparr>"

text \<open>\<open>%s\<close> between single quotes.\<close>

definition quoted_s :: string where
  "quoted_s = [CHR 0x27, CHR ''%'', CHR ''s'', CHR 0x27]"

definition thread_fs_stat :: "string list \<Rightarrow> fs \<Rightarrow> (int \<times> fs) res" where
  "thread_fs_stat argv s =
     (if length argv < 2 then die s
      else
      let diskname = argv ! 0; filename = literal (argv ! 1) in
      bnd (fs_mount (Some diskname) s) (\<lambda>(r, s).
      if r \<noteq> 0 then die s
      else
      bnd (fs_open (Some filename) s) (\<lambda>(fs_fd, s).
      if fs_fd < 0 then umount_and_die s
      else
      bnd (fs_stat fs_fd s) (\<lambda>stat.
      if stat < 0 then bnd (fs_close fs_fd s) (\<lambda>(_, s). umount_and_die s)
      else if stat = 0 then
        bnd (fs_close fs_fd s) (\<lambda>(_, s).
        bnd (fs_umount s) (\<lambda>(_, s).
        Inr (0, printf (''Empty file'' @ newline) [] s)))
      else
      bnd (fs_close fs_fd s) (\<lambda>(r, s).
      if r \<noteq> 0 then umount_and_die s
      else
      bnd (fs_umount s) (\<lambda>(r, s).
      if r \<noteq> 0 then die s
      else Inr (0, printf (''Size of file '' @ quoted_s @ '' is %d bytes'' @ newline) [Str filename, Dec stat] s)))))))"

definition thread_fs_cat :: "string list \<Rightarrow> fs \<Rightarrow> (int \<times> fs) res" where
  "thread_fs_cat argv s =
     (if length argv < 2 then die s
      else
      let diskname = argv ! 0; filename = literal (argv ! 1) in
      bnd (fs_mount (Some diskname) s) (\<lambda>(r, s).
      if r \<noteq> 0 then die s
      else
      bnd (fs_open (Some filename) s) (\<lambda>(fs_fd, s).
      if fs_fd < 0 then umount_and_die s
      else
      bnd (fs_stat fs_fd s) (\<lambda>stat.
      if stat < 0 then umount_and_die s
      else if stat = 0 then Inr (0, printf (''Empty file'' @ newline) [] s)
      else
      case malloc s of (obtained, s) \<Rightarrow>
      if \<not> obtained then umount_and_die s
      else
      bnd (fs_read fs_fd (Some (stack_buffer (nat stat) s)) (of_int stat) s) (\<lambda>(read, buf, s).
      bnd (fs_close fs_fd s) (\<lambda>(r, s).
      if r \<noteq> 0 then umount_and_die s
      else
      bnd (fs_umount s) (\<lambda>(r, s).
      if r \<noteq> 0 then die s
      else
      let s = printf (''Read file '' @ quoted_s @ '' (%d/%d bytes)'' @ newline) [Str filename, Dec read, Dec stat] s;
          s = printf (''Content of the file:'' @ newline) [] s
      in Inr (0, fwrite (the buf) s))))))))"

definition thread_fs_rm :: "string list \<Rightarrow> fs \<Rightarrow> (int \<times> fs) res" where
  "thread_fs_rm argv s =
     (if length argv < 2 then die s
      else
      let diskname = argv ! 0; filename = literal (argv ! 1) in
      bnd (fs_mount (Some diskname) s) (\<lambda>(r, s).
      if r \<noteq> 0 then die s
      else
      bnd (fs_delete (Some filename) s) (\<lambda>(r, s).
      if r \<noteq> 0 then umount_and_die s
      else
      bnd (fs_umount s) (\<lambda>(r, s).
      if r \<noteq> 0 then die s
      else Inr (0, printf (''Removed file '' @ quoted_s @ newline) [Str filename] s)))))"

text \<open>
  \<open>mmap\<close> of a whole file. Its failure value \<open>MAP_FAILED\<close> is not NULL, the value the program checks for: it
  is a pointer to nothing. A length of 0 always fails. The mapped bytes are those of the file at the time of
  the call, and every file of the host is a regular one.
\<close>

definition host_mmap :: "nat \<Rightarrow> int \<Rightarrow> host \<Rightarrow> byte list \<times> host" where
  "host_mmap len fd h =
     (case host_call h of (failed, h) \<Rightarrow>
       if failed \<or> len = 0 then ([], h)
       else case host_content fd h of None \<Rightarrow> ([], h) | Some c \<Rightarrow> (take len c, h))"

definition set_host :: "host \<Rightarrow> fs \<Rightarrow> fs" where
  "set_host h s = s\<lparr>dev := (dev s)\<lparr>host := h\<rparr>\<rparr>"

definition thread_fs_add :: "string list \<Rightarrow> fs \<Rightarrow> (int \<times> fs) res" where
  "thread_fs_add argv s =
     (if length argv < 2 then die s
      else
      let diskname = argv ! 0; filename = literal (argv ! 1) in
      case host_open (argv ! 1) (host (dev s)) of (fd, h) \<Rightarrow>
      if fd < 0 then die (set_host h s)
      else
      case host_fstat fd h of
        (None, h) \<Rightarrow> die (set_host h s)
      | (Some st_size, h) \<Rightarrow>
      case host_mmap st_size fd h of (buf, h) \<Rightarrow>
      bnd (fs_mount (Some diskname) (set_host h s)) (\<lambda>(r, s).
      if r \<noteq> 0 then die s
      else
      bnd (fs_create (Some filename) s) (\<lambda>(r, s).
      if r \<noteq> 0 then umount_and_die s
      else
      bnd (fs_open (Some filename) s) (\<lambda>(fs_fd, s).
      if fs_fd < 0 then umount_and_die s
      else
      bnd (fs_write fs_fd (Some buf) (of_nat st_size) s) (\<lambda>(written, s).
      bnd (fs_close fs_fd s) (\<lambda>(r, s).
      if r \<noteq> 0 then umount_and_die s
      else
      bnd (fs_umount s) (\<lambda>(r, s).
      if r \<noteq> 0 then die s
      else
      let s = printf (''Wrote file '' @ quoted_s @ '' (%d/%zu bytes)'' @ newline)
                [Str filename, Dec written, Dec (int st_size)] s
      in Inr (0, set_host (host_close fd (host (dev s))) s))))))))"

definition thread_fs_ls :: "string list \<Rightarrow> fs \<Rightarrow> (int \<times> fs) res" where
  "thread_fs_ls argv s =
     (if length argv < 1 then die s
      else
      bnd (fs_mount (Some (argv ! 0)) s) (\<lambda>(r, s).
      if r \<noteq> 0 then die s
      else
      bnd (fs_ls s) (\<lambda>(_, s).
      bnd (fs_umount s) (\<lambda>(r, s).
      if r \<noteq> 0 then die s else Inr (0, s)))))"

definition thread_fs_info :: "string list \<Rightarrow> fs \<Rightarrow> (int \<times> fs) res" where
  "thread_fs_info argv s =
     (if length argv < 1 then die s
      else
      bnd (fs_mount (Some (argv ! 0)) s) (\<lambda>(r, s).
      if r \<noteq> 0 then die s
      else
      bnd (fs_info s) (\<lambda>(_, s).
      bnd (fs_umount s) (\<lambda>(r, s).
      if r \<noteq> 0 then die s else Inr (0, s)))))"

section \<open>Adding, listing, printing and removing a file\<close>

lemma set_host_init [simp]: "set_host h' (fs_init j h) = fs_init j h'"
  by (simp add: set_host_def fs_init_def)

lemma printf_dev [simp]: "dev (printf fmt args s) = dev s" "dev (fwrite data s) = dev s"
  by (simp_all add: printf_def fwrite_def)

lemma printf_stdout [simp]:
  "stdout (printf fmt args s) = stdout s @ [(fmt, args)]" "stdout (fwrite data s) = stdout s @ [(''%s'', [Str data])]"
  by (simp_all add: printf_def fwrite_def)

lemma set_host_simps [simp]: "host (dev (set_host h s)) = h" "stdout (set_host h s) = stdout s"
  by (simp_all add: set_host_def)

text \<open>The host calls \<open>add\<close> makes before it mounts the disk.\<close>

lemma map_host_file:
  assumes "host_files h name = Some d" and "host_faults h = []" and "0 \<le> host_next h" and "d \<noteq> []"
  obtains fd h' where "host_open name h = (fd, h')" and "\<not> fd < 0"
    and "host_fstat fd h' = (Some (length d), h')" and "host_mmap (length d) fd h' = (d, h')"
    and "host_files h' = host_files h" and "host_faults h' = []" and "0 \<le> host_next h'"
  using assms by (intro that [of "host_next h" "h\<lparr>host_fds := (host_fds h)(host_next h \<mapsto> name), host_next := host_next h + 1\<rparr>"])
    (simp_all add: host_open_def host_fstat_def host_mmap_def host_content_def)

lemma add_ok:
  assumes "host_files h path = Some c" and "formatted c" and "host_faults h = []" and "0 \<le> host_next h"
    and "host_files h name = Some d" and "room_for (literal name) (length d) (image_afs c)"
  obtains s c' rest where "thread_fs_add [path, name] (fs_init j h) = Inr (0, s)"
    and "host_files (host (dev s)) path = Some c'" and "formatted c'"
    and "host_faults (host (dev s)) = []" and "0 \<le> host_next (host (dev s))"
    and "image_afs c' = with_file (literal name) d rest (image_afs c)"
    and "length (d @ rest) = BLOCK_SIZE * blocks_needed (length d)"
proof -
  let ?n = "literal name"
  have "d \<noteq> []" using assms(6) by (auto simp: room_for_def)
  from map_host_file [OF assms(5,3,4) this] obtain fd h' where hf: "host_open name h = (fd, h')" "\<not> fd < 0"
    "host_fstat fd h' = (Some (length d), h')" "host_mmap (length d) fd h' = (d, h')"
    "host_files h' = host_files h" "host_faults h' = []" "0 \<le> host_next h'" by blast
  have "runs (fs_mount (Some path) (fs_init j h')) (\<lambda>(r, s). r = 0 \<and> holds path (image_afs c) s)"
    by (rule runs_mount [OF _ assms(2) hf(6,7)]) (simp_all add: hf(5) assms(1))
  then obtain s0 where s0: "fs_mount (Some path) (fs_init j h') = Inr (0, s0)" "holds path (image_afs c) s0"
    by (auto simp: runs_iff)
  show ?thesis
  proof (rule store_file [OF s0(2) assms(6)])
    fix s1 s2 s3 s4 rest
    assume st: "fs_create (Some ?n) s0 = Inr (0, s1)" "fs_open (Some ?n) s1 = Inr (0, s2)"
      "fs_write 0 (Some d) (of_nat (length d)) s2 = Inr (int (length d), s3)"
      "fs_close 0 s3 = Inr (0, s4)" "holds path (with_file ?n d rest (image_afs c)) s4"
      "length (d @ rest) = BLOCK_SIZE * blocks_needed (length d)"
    from umount_abs [of path s4] st(5) obtain s5 c' where u: "fs_umount s4 = Inr (0, s5)"
      "host_files (host (dev s5)) path = Some c'" "formatted c'" "host_faults (host (dev s5)) = []"
      "0 \<le> host_next (host (dev s5))"
      "image_afs c' = (with_file ?n d rest (image_afs c))\<lparr>a_descs := Map.empty\<rparr>"
      by (auto simp: holds_def)
    define s6 where "s6 = set_host (host_close fd (host (dev s5)))
      (printf (''Wrote file '' @ quoted_s @ '' (%d/%zu bytes)'' @ newline)
        [Str ?n, Dec (int (length d)), Dec (int (length d))] s5)"
    have "host (dev (fs_init j h)) = h" by (simp add: fs_init_def)
    then have r: "thread_fs_add [path, name] (fs_init j h) = Inr (0, s6)"
      using s0(1) st(1-4) u(1) hf(1-4) by (simp add: thread_fs_add_def Let_def s6_def)
    have "image_afs c' = with_file ?n d rest (image_afs c)"
      using u(6) assms(6) by (simp add: with_file_def room_for_def)
    then show ?thesis
      by (intro that [OF r _ _ _ _ _ st(6)]) (use u(2-5) in \<open>simp_all add: s6_def host_close_def\<close>)
  qed
qed

lemma cat_ok:
  assumes "host_files h path = Some c" and "formatted c" and "host_faults h = []" and "0 \<le> host_next h"
    and "valid_name (literal name)" and "a_files (image_afs c) (c_text (literal name)) = Some f"
    and "a_size f = of_nat (length d)" and "0 < length d" and "length d < 2147418112" and "a_data f = d @ rest"
  shows "\<exists>s out. thread_fs_cat [path, name] (fs_init j h) = Inr (0, s) \<and> stdout s = out @
    [(''Read file '' @ quoted_s @ '' (%d/%d bytes)'' @ newline,
        [Str (literal name), Dec (int (length d)), Dec (int (length d))]),
     (''Content of the file:'' @ newline, []), (''%s'', [Str d])]"
proof -
  let ?n = "literal name" and ?A = "image_afs c" and ?s = "fs_init j h"
  let ?t = "c_text ?n"
  let ?A1 = "a_move 0 ?t 0 ?A" and ?A2 = "a_move 0 ?t (ucast (of_nat (length d) :: u64)) ?A"
  have u: "unat (of_nat (length d) :: u64) = length d" "unat (of_nat (length d) :: u32) = length d"
    "to_int (of_nat (length d) :: u32) = int (length d)"
    using assms(9) by (simp_all add: unat_of_nat to_int_small INT_MAX_def uint_nat)
  have "runs (fs_mount (Some path) ?s) (\<lambda>(r, s). r = 0 \<and> holds path ?A s)"
    by (rule runs_mount [OF assms(1-4)]) simp
  then obtain s0 where s0: "fs_mount (Some path) ?s = Inr (0, s0)" "holds path ?A s0" by (auto simp: runs_iff)
  have "runs (fs_open (Some ?n) s0) (\<lambda>(r, s). r = 0 \<and> holds path ?A1 s)"
    by (rule runs_open [OF s0(2) a_open_first [OF _ assms(5,6)]]) (simp_all add: image_afs_def)
  then obtain s1 where s1: "fs_open (Some ?n) s0 = Inr (0, s1)" "holds path ?A1 s1" by (auto simp: runs_iff)
  have fd: "fd_arg 0" by (simp add: fd_arg_def FS_OPEN_MAX_COUNT_def)
  have "runs (fs_stat 0 s1) (\<lambda>r. r = int (length d))"
    by (rule runs_stat [OF s1(2) fd]) (use assms(6,7) u(3) in \<open>simp_all add: a_stat_def\<close>)
  then have st: "fs_stat 0 s1 = Inr (int (length d))" by (auto simp: runs_iff)
  have m: "malloc s1 = (True, s1)"
    using s1(2) fs_okD(11) by (simp add: holds_def in_session_def sound_def)
  define buf where "buf = stack_buffer (length d) s1"
  have b: "buf_arg (Some buf) (of_nat (length d))" "(0 :: u64) < of_nat (length d)" "length buf = length d"
    using assms(8,9) u(1) by (simp_all add: buf_def buf_arg_def small_count_def word_less_nat_alt)
  have "runs (fs_read 0 (Some buf) (of_nat (length d)) s1) (\<lambda>(r, out, s). r = int (length d) \<and> out = Some d \<and> holds path ?A2 s)"
    by (rule runs_read [OF s1(2) fd b(1,2), of "int (length d)" "Some d" ?A2])
      (use a_read_inside [of ?A1 0 ?t 0 f "of_nat (length d)" buf] assms(6,10) u(1) b(3) in
        \<open>simp_all add: overwrite_all a_move_def a_desc_def\<close>)
  then obtain s2 where s2: "fs_read 0 (Some buf) (of_nat (length d)) s1 = Inr (int (length d), Some d, s2)"
    "holds path ?A2 s2" by (auto simp: runs_iff)
  have "runs (fs_close 0 s2) (\<lambda>(r, s). r = 0 \<and> (\<exists>A. holds path A s))"
    by (rule runs_close [OF s2(2) fd]) (auto simp: a_close_def)
  then obtain s3 A where s3: "fs_close 0 s2 = Inr (0, s3)" "holds path A s3" by (auto simp: runs_iff)
  from umount_abs [of path s3] s3(2) obtain s4 where "fs_umount s3 = Inr (0, s4)" by (auto simp: holds_def)
  with s0(1) s1(1) st m s2(1) s3(1) assms(8) show ?thesis
    by (simp add: thread_fs_cat_def Let_def buf_def [symmetric])
qed

lemma rm_ok:
  assumes "host_files h path = Some c" and "formatted c" and "host_faults h = []" and "0 \<le> host_next h"
    and "valid_name (literal name)" and "a_files (image_afs c) (c_text (literal name)) = Some f"
    and "length (a_data f) \<le> BLOCK_SIZE"
  obtains s c' where "thread_fs_rm [path, name] (fs_init j h) = Inr (0, s)"
    and "host_files (host (dev s)) path = Some c'" and "formatted c'"
    and "image_afs c' = (image_afs c)\<lparr>a_files := (a_files (image_afs c))(c_text (literal name) := None),
      a_room := a_room (image_afs c) + length (a_data f) div BLOCK_SIZE\<rparr>"
proof -
  let ?n = "literal name" and ?A = "image_afs c" and ?s = "fs_init j h"
  let ?A' = "?A\<lparr>a_files := (a_files ?A)(c_text ?n := None), a_room := a_room ?A + length (a_data f) div BLOCK_SIZE\<rparr>"
  have "runs (fs_mount (Some path) ?s) (\<lambda>(r, s). r = 0 \<and> holds path ?A s)"
    by (rule runs_mount [OF assms(1-4)]) simp
  then obtain s0 where s0: "fs_mount (Some path) ?s = Inr (0, s0)" "holds path ?A s0" by (auto simp: runs_iff)
  have e: "a_descs ?A = Map.empty" by (simp add: image_afs_def)
  have "runs (fs_delete (Some ?n) s0) (\<lambda>(r, s). r = 0 \<and> holds path ?A' s)"
    by (rule runs_delete [OF s0(2), of _ 0 ?A']) (use assms(5-7) e in \<open>simp_all add: a_delete_def\<close>)
  then obtain s1 where s1: "fs_delete (Some ?n) s0 = Inr (0, s1)" "holds path ?A' s1" by (auto simp: runs_iff)
  have "in_session path s1" "abs_fs s1 = ?A'" using s1(2) by (simp_all add: holds_def)
  from umount_abs [OF this(1), unfolded this(2)] obtain s2 c' where u: "fs_umount s1 = Inr (0, s2)"
    "host_files (host (dev s2)) path = Some c'" "formatted c'" "image_afs c' = ?A'\<lparr>a_descs := Map.empty\<rparr>"
    by blast
  define s3 where "s3 = printf (''Removed file '' @ quoted_s @ newline) [Str ?n] s2"
  have "thread_fs_rm [path, name] ?s = Inr (0, s3)"
    using s0(1) s1(1) u(1) by (simp add: thread_fs_rm_def Let_def s3_def)
  then show ?thesis by (rule that [OF _ _ u(3)]) (use u(2,4) e in \<open>simp_all add: s3_def\<close>)
qed

lemma rm_long:
  assumes "host_files h path = Some c" and "formatted c" and "host_faults h = []" and "0 \<le> host_next h"
    and "valid_name (literal name)" and "a_files (image_afs c) (c_text (literal name)) = Some f"
    and "BLOCK_SIZE < length (a_data f)"
  obtains s where "thread_fs_rm [path, name] (fs_init j h) = Inr (0, s)"
    and "\<And>j. \<exists>s'. fs_mount (Some path) (fs_init j (host (dev s))) = Inr (-1, s')"
proof -
  let ?n = "literal name"
  obtain s0 where s0: "fs_mount (Some path) (fs_init j h) = Inr (0, s0)" "in_session path s0" "abs_fs s0 = image_afs c"
    by (rule mount_abs [OF assms(1-4)])
  have ok: "fs_ok s0" using s0(2) by (simp add: in_session_def sound_def)
  from assms(6) obtain i where i: "catalog s0 (c_text ?n) = Some i" "f = abs_file s0 i"
    by (auto simp: abs_fs_simps(1) simp flip: s0(3))
  from catalog_SomeD [OF i(1)] have u: "used s0 i" "slot_name s0 i = c_text ?n" by (auto simp: used_def)
  have "\<not> is_open s0 i"
    using abs_is_open [OF ok u(1)] by (simp add: s0(3) image_afs_def)
  moreover have "length (file_data s0 i) = BLOCK_SIZE * length (slot_chain s0 i)"
    using length_file_data [OF fs_okD(12) [OF ok], of i] chains_okD(1) [OF fs_okD(7) [OF ok] u(1)]
    by (simp add: chain_ok_def)
  then have "1 < length (slot_chain s0 i)" using assms(7) i(2) by (simp add: abs_file_def)
  then obtain x y ys where "slot_chain s0 i = x # y # ys"
    by (cases "slot_chain s0 i" rule: remdups_adj.cases) auto
  ultimately show ?thesis
  proof (rule long_delete_unmountable [OF s0(2) assms(5) i(1)])
    fix s1 s2
    assume d: "fs_delete (Some ?n) s0 = Inr (0, s1)" "fs_umount s1 = Inr (0, s2)"
      "\<And>j. \<exists>s3. fs_mount (Some path) (fs_init j (host (dev s2))) = Inr (-1, s3)"
    define s3 where "s3 = printf (''Removed file '' @ quoted_s @ newline) [Str ?n] s2"
    have "thread_fs_rm [path, name] (fs_init j h) = Inr (0, s3)"
      using s0(1) d(1,2) by (simp add: thread_fs_rm_def Let_def s3_def)
    then show ?thesis by (rule that) (use d(3) in \<open>simp add: s3_def\<close>)
  qed
qed

end
