(* ===== verification/Samples.thy ===== *)
theory Samples
  imports Tester
begin

text \<open>
  A small disk (seven blocks: superblock, table, directory, four data blocks) and states of the file
  system mounted on it, on which the theorems of the development are exercised.
\<close>

section \<open>An empty disk\<close>

definition blank_super :: "byte list" where
  "blank_super = [69, 67, 83, 49, 53, 48, 70, 83, 7, 0, 2, 0, 3, 0, 4, 0, 1] @ replicate 4079 0"

definition blank_table :: "byte list" where
  "blank_table = [0xFF, 0xFF] @ replicate 4094 0"

definition blank_disk :: "byte list" where
  "blank_disk = blank_super @ blank_table @ replicate 4096 0 @ replicate 16384 0"

definition sample_sb :: SuperBlock where
  "sample_sb = \<lparr>signature = [69, 67, 83, 49, 53, 48, 70, 83], num_blocks = 7, root_index = 2,
     data_start_index = 3, num_data_blocks = 4, num_fat_blocks = 1, sb_padding = replicate 4079 0\<rparr>"

definition blank_entry :: File where
  "blank_entry = \<lparr>filename = replicate 16 0, file_size = 0, first_index = 0,
     file_padding = replicate 10 0\<rparr>"

lemma length_blank [simp]: "length blank_super = 4096" "length blank_table = 4096" "length blank_disk = 28672"
  by (simp_all add: blank_super_def blank_table_def blank_disk_def)

lemma blank_blocks:
  "content_block blank_disk 0 = blank_super" "content_block blank_disk 1 = blank_table"
  "content_block blank_disk (Suc 0) = blank_table"
  "content_block blank_disk 2 = replicate 4096 0"
  by (simp_all add: content_block_def blank_disk_def BLOCK_SIZE_def)

lemma parse_blank_super: "parse_super_block blank_super = sample_sb"
  by (simp add: parse_super_block_def blank_super_def sample_sb_def concatenate_two_bytes_def fs_sizes)

lemma u16s_of_blank_table: "fat_of_block 4 blank_table = [0xFFFF, 0, 0, 0]"
proof (rule nth_equalityI)
  show "length (fat_of_block 4 blank_table) = length [0xFFFF, 0, 0, 0 :: u16]"
    by (simp add: fat_of_block_def)
  fix i assume "i < length (fat_of_block 4 blank_table)"
  then have "i < 4" by (simp add: fat_of_block_def)
  then have "i = 0 \<or> i = 1 \<or> i = 2 \<or> i = 3" by auto
  then show "fat_of_block 4 blank_table ! i = [0xFFFF, 0, 0, 0] ! i"
    by (elim disjE) (simp_all add: fat_of_block_def nth_u16s_of_mem blank_table_def u16_of_bytes_def
        concatenate_two_bytes_def numeral_2_eq_2 [symmetric] take_Cons' drop_Cons')
qed

lemma dir_entry_blank:
  assumes "i < FS_FILE_MAX_COUNT"
  shows "dir_entry (replicate 4096 0) i = blank_entry"
  using assms
  by (simp add: dir_entry_def decode_file_def blank_entry_def fs_sizes u32_of_bytes_def
      u16_of_bytes_def concatenate_two_bytes_def concatenate_four_bytes_def u32_of_double_def)

lemma image_blank:
  "image_sb blank_disk = sample_sb" "image_fat blank_disk = [0xFFFF, 0, 0, 0]"
  "i < FS_FILE_MAX_COUNT \<Longrightarrow> image_file blank_disk i = blank_entry"
  by (simp_all add: image_sb_def image_fat_def image_file_def blank_blocks parse_blank_super
      u16s_of_blank_table dir_entry_blank) (simp add: sample_sb_def u16s_of_blank_table)

lemma blank_entry_name: "c_text (filename blank_entry) = []"
  by (simp add: c_text_def blank_entry_def)

lemma mountable_blank: "mountable blank_disk"
proof -
  have "super_block_ok sample_sb 7" by (simp add: super_block_ok_def sample_sb_def)
  moreover have "dir_ok (replicate 4096 0)"
    by (simp add: dir_ok_def dir_entry_blank) (simp add: blank_entry_def)
  ultimately show ?thesis
    using u16s_of_blank_table
    by (simp add: mountable_def Let_def blank_blocks parse_blank_super BLOCK_SIZE_def)
      (simp add: sample_sb_def FAT_EOC_def)
qed

lemma formatted_blank: "formatted blank_disk"
proof -
  have "\<not> image_used blank_disk i" for i
    using image_blank(3) [of i] blank_entry_name by (auto simp: image_used_def)
  then show ?thesis
    by (simp add: formatted_def mountable_blank image_blank(1,2) BLOCK_SIZE_def) (simp add: sample_sb_def)
qed

lemma image_afs_blank: "image_afs blank_disk = \<lparr>a_files = Map.empty, a_descs = Map.empty, a_room = 3\<rparr>"
proof -
  have "image_catalog blank_disk n = None" for n
    using blank_entry_name by (auto simp: image_catalog_def find_upt_None_iff image_blank)
  moreover have "free_entries [0xFFFF, 0, 0, 0 :: u16] = [1, 2, 3]" by (simp add: free_entries_def upt_rec)
  ultimately show ?thesis by (simp add: image_afs_def image_blank)
qed

section \<open>One file\<close>

text \<open>
  The small disk with a file \<open>a\<close> in slot 0, of the given size and first block, over the given table;
  descriptor 0 is open on it when an offset is given.
\<close>

definition sample_name :: "byte list" where
  "sample_name = [97]"

definition sample_file :: "u32 \<Rightarrow> u16 \<Rightarrow> File" where
  "sample_file sz first = \<lparr>filename = 97 # replicate 15 0, file_size = sz, first_index = first,
     file_padding = replicate 10 0\<rparr>"

definition sample_dev :: dev where
  "sample_dev = \<lparr>disk = \<lparr>disk_fd = 3, bcount = 7\<rparr>,
     host = \<lparr>host_files = [''disk.fs'' \<mapsto> blank_disk], host_fds = [3 \<mapsto> ''disk.fs''], host_next = 4,
       host_faults = []\<rparr>\<rparr>"

definition sample :: "u16 list \<Rightarrow> u32 \<Rightarrow> u16 \<Rightarrow> u16 option \<Rightarrow> fs" where
  "sample F sz first op =
     \<lparr>sb = Ptr sample_sb, fat = Ptr F, root = map Some [0..<FS_FILE_MAX_COUNT],
      open_files = map_option (\<lambda>off. \<lparr>fd_file = Some 0, fd_offset = off\<rparr>) op # replicate 31 None,
      num_open_files = (if op = None then 0 else 1), is_disk_mounted = True,
      heap = (\<lambda>a. if a = 0 then Some (sample_file sz first)
        else if a < FS_FILE_MAX_COUNT then Some blank_entry else None),
      next_addr = FS_FILE_MAX_COUNT, junk = (\<lambda>_. 0), stdout = [], dev = sample_dev\<rparr>"

lemma sample_simps [simp]:
  "sb (sample F sz first op) = Ptr sample_sb" "the_sb (sample F sz first op) = sample_sb"
  "the_fat (sample F sz first op) = F" "dev (sample F sz first op) = sample_dev"
  "is_disk_mounted (sample F sz first op)"
  "length (open_files (sample F sz first op)) = FS_OPEN_MAX_COUNT"
  by (simp_all add: sample_def the_sb_def the_fat_def FS_OPEN_MAX_COUNT_def)

lemma sample_slots [simp]:
  assumes "i < FS_FILE_MAX_COUNT"
  shows "slot_addr (sample F sz first op) i = i"
    and "slot_file (sample F sz first op) i = (if i = 0 then sample_file sz first else blank_entry)"
  using assms by (simp_all add: slot_addr_def slot_file_def sample_def)

lemma sample_file_name [simp]: "c_text (filename (sample_file sz first)) = sample_name"
  by (simp add: sample_file_def c_text_def sample_name_def)

lemma sample_names [simp]:
  "i < FS_FILE_MAX_COUNT \<Longrightarrow> slot_name (sample F sz first op) i = (if i = 0 then sample_name else [])"
  by (simp add: slot_name_def blank_entry_name)

lemma sample_name_not_Nil [simp]: "sample_name \<noteq> []" "c_text sample_name = sample_name" "valid_name sample_name"
  by (simp_all add: valid_name_iff sample_name_def c_text_def FS_FILENAME_LEN_def)

lemma sample_used [simp]: "used (sample F sz first op) i \<longleftrightarrow> i = 0"
  by (cases "i < FS_FILE_MAX_COUNT") (auto simp: used_def FS_FILE_MAX_COUNT_def)

lemma FS_FILE_MAX_COUNT_pos [simp]: "0 < FS_FILE_MAX_COUNT" "Suc 0 < FS_FILE_MAX_COUNT"
  by (simp_all add: FS_FILE_MAX_COUNT_def)

lemma sample_files_ok: "files_ok (sample F sz first op)"
proof -
  have "file_ok (sample_file sz first)" "file_ok blank_entry"
    by (simp_all add: file_ok_def sample_file_def blank_entry_def fs_sizes)
  then show ?thesis by (auto simp: files_ok_def sample_def distinct_map)
qed

lemma sample_dev_ok:
  "disk_ok sample_dev" "calm sample_dev" "blocks sample_dev = 7" "disk_image sample_dev = blank_disk"
proof -
  show i: "disk_image sample_dev = blank_disk"
    by (simp add: disk_image_def sample_dev_def host_content_def)
  show b: "blocks sample_dev = 7" by (simp add: blocks_def sample_dev_def)
  show "disk_ok sample_dev"
    unfolding disk_ok_def i b by (simp add: BLOCK_SIZE_def) (simp add: sample_dev_def host_content_def INVALID_FD_def)
  show "calm sample_dev" by (simp add: calm_def sample_dev_def)
qed

lemma sample_chain [simp]:
  "chain F first xs \<Longrightarrow> slot_chain (sample F sz first op) 0 = xs"
  by (simp add: slot_chain_def sample_file_def chain_of_eq)

lemma sample_in_session:
  assumes "length F = 4" and "F ! 0 = FAT_EOC" and "chain F first xs"
  shows "in_session ''disk.fs'' (sample F sz first op)"
proof -
  let ?s = "sample F sz first op"
  have "fat_ok ?s" using assms(1) by (simp add: fat_ok_def sample_def sample_sb_def)
  moreover have "names_distinct ?s" by (auto simp: names_distinct_def)
  moreover have "count_ok ?s" by (simp add: count_ok_def used_fds_def sample_def split: option.split)
  moreover have "chains_ok ?s"
    using assms(3) by (auto simp: chains_ok_def chain_ok_def sample_file_def)
  moreover have "fd_file d = Some 0" if "Some d \<in> set (open_files ?s)" for d
    using that by (cases op) (auto simp: sample_def)
  then have "open_used ?s" by (auto simp: open_used_def intro!: exI [of _ 0])
  moreover have "layout_ok ?s" using assms(1) by (simp add: layout_ok_def sample_dev_ok) (simp add: sample_sb_def)
  moreover have "names_terminated ?s"
    by (auto simp: names_terminated_def) (simp_all add: sample_file_def blank_entry_def)
  ultimately have "sound ?s"
    using assms sample_files_ok sample_dev_ok by (simp add: sound_def fs_ok_def)
  moreover have "super_block_ok sample_sb 7" by (simp add: super_block_ok_def sample_sb_def)
  moreover have "parse_super_block (block_at sample_dev 0) = sample_sb"
    by (simp add: block_at_content sample_dev_ok blank_blocks parse_blank_super)
  moreover have "host_fds (host sample_dev) (disk_fd (disk sample_dev)) = Some ''disk.fs''"
    "0 \<le> host_next (host sample_dev)" by (simp_all add: sample_dev_def)
  moreover have "num_fat_blocks sample_sb = 1" "root_index sample_sb = 2"
    "2 < unat (data_start_index sample_sb)" by (simp_all add: sample_sb_def)
  moreover have "x = 0" if "i < FS_FILE_MAX_COUNT" "x \<in> set (file_padding (slot_file ?s i))" for i x
    using that by (auto simp: sample_file_def blank_entry_def split: if_splits)
  ultimately show ?thesis
    using assms \<open>fat_ok ?s\<close> sample_files_ok sample_dev_ok
    by (simp add: in_session_def mounted_on_def BLOCK_SIZE_def)
qed

lemma sample_sound:
  assumes "length F = 4" and "F ! 0 = FAT_EOC" and "chain F first xs"
  shows "sound (sample F sz first op)" and "fs_ok (sample F sz first op)"
  using sample_in_session [OF assms] by (simp_all add: in_session_def sound_def)

lemma sample_catalog [simp]:
  "catalog (sample F sz first op) n = (if n = sample_name then Some 0 else None)"
proof -
  have "catalog (sample F sz first op) sample_name = Some 0"
    by (simp add: catalog_def find_upt_Some_iff)
  moreover have "catalog (sample F sz first op) n = None" if "n \<noteq> sample_name"
    using that by (auto simp: catalog_None_iff)
  ultimately show ?thesis by simp
qed

lemma sample_free_slot [simp]: "free_slot (sample F sz first op) = Some 1"
  by (simp add: free_slot_def find_upt_Some_iff)

lemma sample_open [simp]:
  "open_fd (sample F sz first (Some off)) 0"
  "the_fd (sample F sz first (Some off)) 0 = \<lparr>fd_file = Some 0, fd_offset = off\<rparr>"
  "fd_pos (sample F sz first (Some off)) 0 = unat off"
  "fd_slot (sample F sz first (Some off)) 0 = Some 0"
  "is_open (sample F sz first None) i = False"
  "free_fd (sample F sz first None) = Some 0"
  by (simp_all add: open_fd_def the_fd_def fd_pos_def fd_slot_def find_upt_Some_iff is_open_def free_fd_def)
    (simp_all add: sample_def FS_OPEN_MAX_COUNT_def)

lemma sample_fd [simp]:
  "fd_entry 0 (sample F sz first (Some off)) = Inr \<lparr>fd_file = Some 0, fd_offset = off\<rparr>"
  "opened_file 0 (sample F sz first (Some off)) = Inr (0, sample_file sz first)"
  by (simp_all add: opened_file_def fd_entry_def fetch_def file_at_def)
    (simp_all add: sample_def file_at_def FS_OPEN_MAX_COUNT_def)

text \<open>Tables and data of the small disk: an empty file, one of one block and one of two.\<close>

definition table0 :: "u16 list" where
  "table0 = [0xFFFF, 0, 0, 0]"

definition table1 :: "u16 list" where
  "table1 = [0xFFFF, 0xFFFF, 0, 0]"

definition table2 :: "u16 list" where
  "table2 = [0xFFFF, 2, 0xFFFF, 0]"

lemmas table_defs = table0_def table1_def table2_def

lemma table_chains:
  "chain table0 0xFFFF []" "chain table1 1 [1]" "chain table2 1 [1, 2]"
  by (simp_all add: table_defs FAT_EOC_def)

lemma table_ok [simp]:
  "length table0 = 4" "length table1 = 4" "length table2 = 4"
  "table0 ! 0 = FAT_EOC" "table1 ! 0 = FAT_EOC" "table2 ! 0 = FAT_EOC"
  by (simp_all add: table_defs FAT_EOC_def)

lemma table_free:
  "free_entries table0 = [1, 2, 3]" "free_entries table1 = [2, 3]" "free_entries table2 = [3]"
  by (simp_all add: free_entries_def table_defs upt_rec)

lemma sample_data [simp]:
  "set xs \<subseteq> {1, 2, 3} \<Longrightarrow> chain F first xs \<Longrightarrow>
    file_data (sample F sz first op) 0 = replicate (BLOCK_SIZE * length xs) 0"
proof -
  have "content_block blank_disk b = replicate BLOCK_SIZE 0" if "b \<in> {4, 5, 6}" for b
    using that by (auto simp: content_block_def blank_disk_def BLOCK_SIZE_def)
  then have b: "block_at sample_dev (unat x + 3) = replicate BLOCK_SIZE 0" if "x \<in> {1, 2, 3}" for x :: u16
    using that by (auto simp: block_at_content sample_dev_ok)
  assume xs: "set xs \<subseteq> {1, 2, 3}" and c: "chain F first xs"
  from xs have "concat (map (\<lambda>x. block_at sample_dev (unat x + 3)) xs) = replicate (BLOCK_SIZE * length xs) 0"
    by (induction xs) (auto simp: b replicate_add)
  then show ?thesis
    using c by (simp add: file_data_def disk_blocks_def blocks_content_def comp_def) (simp add: sample_sb_def)
qed

section \<open>Two files of two blocks\<close>

text \<open>
  A disk of eight blocks with files \<open>a\<close> and \<open>b\<close> of two blocks each in slots 0 and 1; descriptor 0 may
  be open on \<open>a\<close>.
\<close>

definition pair_table :: "u16 list" where
  "pair_table = [0xFFFF, 2, 0xFFFF, 4, 0xFFFF]"

definition pair_sb :: SuperBlock where
  "pair_sb = sample_sb\<lparr>num_blocks := 8, num_data_blocks := 5\<rparr>"

definition pair_file :: File where
  "pair_file = \<lparr>filename = 98 # replicate 15 0, file_size = 8192, first_index = 3,
     file_padding = replicate 10 0\<rparr>"

definition pair_dev :: dev where
  "pair_dev = \<lparr>disk = \<lparr>disk_fd = 3, bcount = 8\<rparr>,
     host = \<lparr>host_files = [''disk.fs'' \<mapsto> replicate 32768 0], host_fds = [3 \<mapsto> ''disk.fs''],
       host_next = 4, host_faults = []\<rparr>\<rparr>"

definition pair :: "u16 option \<Rightarrow> fs" where
  "pair op = (sample pair_table 8192 1 op)\<lparr>sb := Ptr pair_sb, dev := pair_dev,
     heap := (heap (sample pair_table 8192 1 op))(1 \<mapsto> pair_file)\<rparr>"

lemma pair_simps [simp]:
  "the_sb (pair op) = pair_sb" "the_fat (pair op) = pair_table" "dev (pair op) = pair_dev"
  "is_disk_mounted (pair op)" "open_files (pair op) = open_files (sample pair_table 8192 1 op)"
  by (simp_all add: pair_def the_sb_def the_fat_def) (simp_all add: sample_def)

lemma pair_slots [simp]:
  assumes "i < FS_FILE_MAX_COUNT"
  shows "slot_addr (pair op) i = i"
    and "slot_file (pair op) i =
      (if i = 0 then sample_file 8192 1 else if i = 1 then pair_file else blank_entry)"
  using assms by (simp_all add: slot_addr_def slot_file_def pair_def) (simp_all add: sample_def)

lemma pair_names [simp]:
  "i < FS_FILE_MAX_COUNT \<Longrightarrow>
    slot_name (pair op) i = (if i = 0 then sample_name else if i = 1 then [98] else [])"
  by (simp add: slot_name_def blank_entry_name) (simp add: pair_file_def c_text_def)

lemma pair_used [simp]: "used (pair op) i \<longleftrightarrow> i = 0 \<or> i = 1"
  by (cases "i < FS_FILE_MAX_COUNT") (auto simp: used_def FS_FILE_MAX_COUNT_def)

lemma pair_chains: "chain pair_table 1 [1, 2]" "chain pair_table 3 [3, 4]"
  by (simp_all add: pair_table_def FAT_EOC_def)

lemma pair_slot_chain [simp]:
  "slot_chain (pair op) 0 = [1, 2]" "slot_chain (pair op) (Suc 0) = [3, 4]"
  using pair_chains [THEN chain_of_eq]
  by (simp_all add: slot_chain_def) (simp_all add: sample_file_def pair_file_def)

lemma pair_dev_ok: "disk_ok pair_dev" "calm pair_dev" "blocks pair_dev = 8"
proof -
  have i: "disk_image pair_dev = replicate 32768 0"
    by (simp add: disk_image_def pair_dev_def host_content_def)
  show b: "blocks pair_dev = 8" by (simp add: blocks_def pair_dev_def)
  show "disk_ok pair_dev"
    unfolding disk_ok_def i b by (simp add: BLOCK_SIZE_def) (simp add: pair_dev_def host_content_def INVALID_FD_def)
  show "calm pair_dev" by (simp add: calm_def pair_dev_def)
qed

lemma pair_fs_ok: "fs_ok (pair op)"
proof -
  let ?s = "pair op"
  have "file_ok (sample_file 8192 1)" "file_ok pair_file" "file_ok blank_entry"
    by (simp_all add: file_ok_def sample_file_def pair_file_def blank_entry_def fs_sizes)
  moreover have "heap ?s i = Some (if i = 0 then sample_file 8192 1 else if i = 1 then pair_file else blank_entry)"
    if "i < FS_FILE_MAX_COUNT" for i
    using that by (simp add: pair_def) (simp add: sample_def)
  moreover have "root ?s = map Some [0..<FS_FILE_MAX_COUNT]" by (simp add: pair_def sample_def)
  ultimately have "files_ok ?s" by (simp add: files_ok_def distinct_map)
  moreover have "fat_ok ?s" by (simp add: fat_ok_def pair_def) (simp add: sample_def pair_sb_def pair_table_def)
  moreover have "names_distinct ?s" by (auto simp: names_distinct_def sample_name_def)
  moreover have "count_ok ?s"
    by (simp add: count_ok_def used_fds_def) (simp add: pair_def sample_def split: option.split)
  moreover have "chains_ok ?s"
    using pair_chains by (auto simp: chains_ok_def chain_ok_def) (simp_all add: sample_file_def pair_file_def)
  moreover have "fd_file d = Some 0" if "Some d \<in> set (open_files ?s)" for d
    using that by (cases op) (auto simp: sample_def)
  then have "open_used ?s" by (auto simp: open_used_def intro!: exI [of _ 0])
  moreover have "layout_ok ?s"
    by (simp add: layout_ok_def pair_dev_ok) (simp add: pair_sb_def sample_sb_def pair_table_def)
  ultimately show ?thesis
    using pair_dev_ok by (simp add: fs_ok_def) (simp add: pair_table_def FAT_EOC_def)
qed

lemma pair_catalog [simp]:
  "catalog (pair op) sample_name = Some 0" "catalog (pair op) [98] = Some 1"
  by (auto simp: catalog_def find_upt_Some_iff) (auto simp: sample_name_def)

lemma pair_open [simp]:
  "\<not> is_open (pair None) i" "open_fd (pair (Some off)) 0" "fd_slot (pair (Some off)) 0 = Some 0"
  "fd_pos (pair (Some off)) 0 = unat off"
  by (simp_all add: is_open_def open_fd_def fd_slot_def fd_pos_def the_fd_def find_upt_Some_iff)
    (simp_all add: pair_def sample_def FS_OPEN_MAX_COUNT_def)

section \<open>States of the small disk\<close>

lemma table_in_session:
  "in_session ''disk.fs'' (sample table0 sz FAT_EOC op)" "in_session ''disk.fs'' (sample table1 sz 1 op)"
  "in_session ''disk.fs'' (sample table2 sz 1 op)"
  using table_chains by (auto intro!: sample_in_session simp del: chain.simps simp: FAT_EOC_def [symmetric])

lemma table_fs_ok [simp]:
  "fs_ok (sample table0 sz FAT_EOC op)" "fs_ok (sample table1 sz 1 op)" "fs_ok (sample table2 sz 1 op)"
  using table_in_session by (simp_all add: in_session_def sound_def)

lemma table_slot_chain [simp]:
  "slot_chain (sample table0 sz FAT_EOC op) 0 = []" "slot_chain (sample table1 sz 1 op) 0 = [1]"
  "slot_chain (sample table2 sz 1 op) 0 = [1, 2]"
  using table_chains by (auto intro!: sample_chain simp del: chain.simps simp: FAT_EOC_def [symmetric])

lemma sample_name_bytes: "sample_name = [97]" "valid_name [98]" "c_text [98] = [98]"
  by (simp_all add: sample_name_def valid_name_iff c_text_def FS_FILENAME_LEN_def)

lemma small_count_small [simp]: "small_count 3" "small_count 4096"
  by (simp_all add: small_count_def)

definition sample_host :: host where
  "sample_host = \<lparr>host_files = [''disk.fs'' \<mapsto> blank_disk], host_fds = Map.empty, host_next = 3,
     host_faults = []\<rparr>"

lemma sample_file_simps [simp]:
  "first_index (sample_file sz first) = first" "file_size (sample_file sz first) = sz"
  by (simp_all add: sample_file_def)

lemma table_fat_ok [simp]:
  "fat_ok (sample table0 sz FAT_EOC op)" "fat_ok (sample table1 sz 1 op)" "fat_ok (sample table2 sz 1 op)"
  by (simp_all add: fs_okD(2))

lemma sample_is_open [simp]: "is_open (sample F sz first (Some off)) 0"
  by (simp add: is_open_def) (simp add: sample_def)

lemma pair_opened [simp]: "opened_file 0 (pair (Some off)) = Inr (0, sample_file 8192 1)"
  using fs_ok_open [OF pair_fs_ok, of "Some off" 0] by auto

text \<open>Every descriptor of the table in use.\<close>

definition crowded :: fs where
  "crowded = (sample table1 10 1 None)\<lparr>open_files := replicate 32 (Some \<lparr>fd_file = Some 0, fd_offset = 0\<rparr>),
     num_open_files := 32\<rparr>"

lemma crowded_simps [simp]: "used_fds crowded = FS_OPEN_MAX_COUNT" "num_open_files crowded = 32"
  "catalog crowded sample_name = Some 0"
proof -
  have "catalog crowded = catalog (sample table1 10 1 None)"
    by (rule same_files_simps) (simp add: same_files_def crowded_def)
  then show "catalog crowded sample_name = Some 0" by simp
qed (simp_all add: used_fds_def crowded_def FS_OPEN_MAX_COUNT_def)

lemma crowded_in_session: "in_session ''disk.fs'' crowded"
proof -
  let ?s = "sample table1 10 1 None"
  have i: "in_session ''disk.fs'' ?s" by (rule table_in_session(2))
  have sf: "same_files ?s crowded" by (simp add: same_files_def crowded_def)
  have c: "count_ok crowded" by (simp add: count_ok_def FS_OPEN_MAX_COUNT_def)
  have l: "length (open_files crowded) = FS_OPEN_MAX_COUNT" by (simp add: crowded_def FS_OPEN_MAX_COUNT_def)
  have "\<exists>i < FS_FILE_MAX_COUNT. used ?s i \<and> fd_file d = Some (slot_addr ?s i)"
    if "Some d \<in> set (open_files crowded)" for d
    using that by (intro exI [of _ 0]) (simp add: crowded_def)
  from same_files_ok(1) [OF table_fs_ok(2) sf l c this] have "fs_ok crowded" .
  moreover have "kept ?s crowded"
    by (simp add: kept_def same_files_simps [OF sf]) (simp add: crowded_def)
  ultimately show ?thesis
    using i same_files_sound [OF _ _ sf] mounted_on_kept same_files_simps(1) [OF sf]
    by (auto simp: in_session_def)
qed

lemma sample_used_slots [simp]: "used_slots (sample F sz first op) = [0]"
proof -
  have "[0..<FS_FILE_MAX_COUNT] = 0 # [1..<FS_FILE_MAX_COUNT]" by (simp add: upt_conv_Cons)
  moreover have "filter (\<lambda>i. slot_name (sample F sz first op) i \<noteq> []) [1..<FS_FILE_MAX_COUNT] = []"
    by (simp add: filter_empty_conv)
  ultimately show ?thesis by (simp add: used_slots_def)
qed

section \<open>A host with a file to add\<close>

definition other_host :: "byte list \<Rightarrow> host" where
  "other_host d = sample_host\<lparr>host_files := [''disk.fs'' \<mapsto> blank_disk, ''b'' \<mapsto> d]\<rparr>"

lemma other_host_simps [simp]:
  "host_files (other_host d) ''disk.fs'' = Some blank_disk" "host_files (other_host d) ''b'' = Some d"
  "host_faults (other_host d) = []" "0 \<le> host_next (other_host d)"
  by (simp_all add: other_host_def sample_host_def)

lemma room_on_blank:
  "valid_name n \<Longrightarrow> 0 < len \<Longrightarrow> len \<le> 3 * BLOCK_SIZE \<Longrightarrow> room_for n len (image_afs blank_disk)"
  using blocks_needed_le_iff [of len 3]
  by (simp add: room_for_def image_afs_blank FS_FILE_MAX_COUNT_def) (simp add: BLOCK_SIZE_def)

lemma literal_b [simp]: "literal ''b'' = [98]" "valid_name [98]" "c_text [98] = [98]"
  by (simp_all add: literal_def valid_name_iff c_text_def FS_FILENAME_LEN_def)

end
