(* ===== verification/Host_Failures.thy ===== *)
theory Host_Failures
  imports Refinement
begin

text \<open>
  Calls of the API on a host whose calls fail by an arbitrary schedule, compared with the same call on a
  quiet host (\<open>hush\<close>): what \<open>fs_read\<close> and \<open>fs_open\<close> do not report, they have done, and a failed read
  changes nothing. Writing is in theory \<open>Failing_Writes\<close>.
\<close>

section \<open>Computations whose failures show\<close>

text \<open>
  \<open>honest h F I m m0\<close>: \<open>m\<close> ends as \<open>m0\<close> does, up to \<open>h\<close>, or with a result that reports a failure (\<open>F\<close>);
  its result satisfies \<open>I\<close> in both cases.
\<close>

definition honest :: "('a \<Rightarrow> 'a) \<Rightarrow> ('a \<Rightarrow> bool) \<Rightarrow> ('a \<Rightarrow> bool) \<Rightarrow> 'a res \<Rightarrow> 'a res \<Rightarrow> bool" where
  "honest h F I m m0 \<longleftrightarrow>
     (\<forall>x. m = Inr x \<longrightarrow> I x) \<and> (m0 = bnd m (\<lambda>x. Inr (h x)) \<or> (\<exists>x. m = Inr x \<and> F x))"

lemma honest_bnd:
  assumes "honest h F I m m0"
    and "\<And>x. m = Inr x \<Longrightarrow> I x \<Longrightarrow> honest h' F' I' (k x) (k0 (h x))"
    and "\<And>x. m = Inr x \<Longrightarrow> I x \<Longrightarrow> F x \<Longrightarrow> \<exists>y. k x = Inr y \<and> F' y"
  shows "honest h' F' I' (bnd m k) (bnd m0 k0)"
proof (cases m)
  case (Inl e)
  with assms(1) show ?thesis by (simp add: honest_def)
next
  case (Inr x)
  with assms(1) have x: "I x" "m0 = Inr (h x) \<or> F x" by (auto simp: honest_def)
  from assms(2) [OF Inr x(1)] have k: "honest h' F' I' (k x) (k0 (h x))" .
  from x(2) show ?thesis
  proof
    assume "m0 = Inr (h x)"
    with k Inr show ?thesis by simp
  next
    assume "F x"
    from assms(3) [OF Inr x(1) this] k Inr show ?thesis by (auto simp: honest_def)
  qed
qed

lemma honest_bnd_pure:
  "(\<And>x. m = Inr x \<Longrightarrow> honest h F I (k x) (k0 x)) \<Longrightarrow> honest h F I (bnd m k) (bnd m k0)"
  by (cases m) (simp_all add: honest_def)

lemma honest_simps [simp]:
  "honest h F I (Inl e) (Inl e)"
  "honest h F I (Inr x) m0 \<longleftrightarrow> I x \<and> (m0 = Inr (h x) \<or> F x)"
  by (auto simp: honest_def)

section \<open>A quiet host\<close>

text \<open>The same state with no failure scheduled.\<close>

definition quiet :: "dev \<Rightarrow> dev" where
  "quiet d = d\<lparr>host := (host d)\<lparr>host_faults := []\<rparr>\<rparr>"

definition hush :: "fs \<Rightarrow> fs" where
  "hush s = s\<lparr>dev := quiet (dev s)\<rparr>"

lemma quiet_simps [simp]:
  "disk (quiet d) = disk d" "host_files (host (quiet d)) = host_files (host d)"
  "host_fds (host (quiet d)) = host_fds (host d)" "host_next (host (quiet d)) = host_next (host d)"
  "host_faults (host (quiet d)) = []" "calm (quiet d)" "quiet (quiet d) = quiet d"
  "blocks (quiet d) = blocks d"
  by (simp_all add: quiet_def calm_def blocks_def)

lemma host_content_quiet [simp]: "host_content fd (host (quiet d)) = host_content fd (host d)"
  by (simp add: host_content_def split: option.split)

lemma quiet_content [simp]:
  "disk_image (quiet d) = disk_image d" "block_at (quiet d) = block_at d" "disk_ok (quiet d) = disk_ok d"
  by (simp_all add: disk_image_def block_at_def disk_ok_def fun_eq_iff)

lemma quiet_calm: "calm d \<Longrightarrow> quiet d = d"
  by (cases d; cases "host d") (simp add: quiet_def calm_def)

lemma hush_simps [simp]:
  "sb (hush s) = sb s" "fat (hush s) = fat s" "root (hush s) = root s"
  "open_files (hush s) = open_files s" "num_open_files (hush s) = num_open_files s"
  "is_disk_mounted (hush s) = is_disk_mounted s" "heap (hush s) = heap s"
  "next_addr (hush s) = next_addr s" "junk (hush s) = junk s" "stdout (hush s) = stdout s"
  "dev (hush s) = quiet (dev s)" "hush (hush s) = hush s"
  by (simp_all add: hush_def)

lemma hush_calm: "calm (dev s) \<Longrightarrow> hush s = s"
  by (simp add: hush_def quiet_calm)

lemma hush_dev: "hush (s\<lparr>dev := d\<rparr>) = (hush s)\<lparr>dev := quiet d\<rparr>"
  by (simp add: hush_def)

text \<open>One transfer of a block: it fails, or it does what it does on a quiet host.\<close>

lemma block_read_quiet:
  assumes "block_read b d = (r, data, d')"
  shows "quiet d' = quiet d" and "r = -1 \<and> data = [] \<or> block_read b (quiet d) = (r, data, quiet d)"
  using assms
  by (auto simp: block_read_def host_lseek_def host_read_def host_call_def host_content_def quiet_def
      split: if_splits list.splits option.splits)

lemma block_write_quiet:
  assumes "block_write b buf d = (r, d')"
  shows "r = -1 \<and> quiet d' = quiet d \<or> block_write b buf (quiet d) = (r, quiet d')"
  using assms
  by (auto simp: block_write_def host_lseek_def host_write_def host_call_def host_content_def quiet_def
      split: if_splits list.splits option.splits)

lemma block_read_hush:
  assumes "block_read b (dev s) = (r, data, d)"
  shows "hush (s\<lparr>dev := d\<rparr>) = hush s"
  using block_read_quiet(1) [OF assms] by (simp add: hush_def)

lemma data_block_dev [simp]: "data_block fd n (s\<lparr>dev := d\<rparr>) = data_block fd n s"
proof -
  have w: "walk_chain k b (s\<lparr>dev := d\<rparr>) = walk_chain k b s" for k b
    by (induction k arbitrary: b) (simp_all add: fat_get_def)
  show ?thesis by (cases "opened_file fd s") (auto simp: data_block_def find_data_block_def w cong: if_cong)
qed

lemma hush_reads [simp]:
  "data_block fd n (hush s) = data_block fd n s" "fd_entry fd (hush s) = fd_entry fd s"
  "opened_file fd (hush s) = opened_file fd s" "file_at p (hush s) = file_at p s"
  "stack_buffer m (hush s) = stack_buffer m s" "fd_rejected k (hush s) = fd_rejected k s"
  by (simp_all add: hush_def stack_buffer_def fd_rejected_def)

text \<open>A read that gave up in the middle, one that failed, and the state reading leaves behind.\<close>

definition gave_up :: "int step \<times> 'a \<Rightarrow> bool" where
  "gave_up x \<longleftrightarrow> fst x = Return (-1)"

definition unchanged :: "fs \<Rightarrow> 'a \<times> 'b \<times> fs \<Rightarrow> bool" where
  "unchanged s x \<longleftrightarrow> hush (snd (snd x)) = hush s"

definition failed :: "fs \<Rightarrow> int \<times> 'b \<times> fs \<Rightarrow> bool" where
  "failed s x \<longleftrightarrow> fst x = -1 \<and> hush (snd (snd x)) = hush s"

lemma outcome_simps [simp]:
  "gave_up (r, y) \<longleftrightarrow> r = Return (-1)" "unchanged s (a, b, s') \<longleftrightarrow> hush s' = hush s"
  "failed s (i, b, s') \<longleftrightarrow> i = -1 \<and> hush s' = hush s"
  by (simp_all add: gave_up_def unchanged_def failed_def)

abbreviation honest_part :: "fs \<Rightarrow> (int step \<times> 'b \<times> fs) res \<Rightarrow> (int step \<times> 'b \<times> fs) res \<Rightarrow> bool" where
  "honest_part s \<equiv> honest (apsnd (apsnd hush)) gave_up (unchanged s)"

abbreviation honest_call :: "fs \<Rightarrow> (int \<times> 'b \<times> fs) res \<Rightarrow> (int \<times> 'b \<times> fs) res \<Rightarrow> bool" where
  "honest_call s \<equiv> honest (apsnd (apsnd hush)) (failed s) (\<lambda>_. True)"

lemma store_bytes_Nil: "store_bytes xs off [] = Inl e \<Longrightarrow> store_bytes xs off ys = Inl e"
  by (auto simp: store_bytes_def split: if_splits)

lemma block_read_calm:
  assumes "block_read b (quiet d) = (r, data, d')"
  shows "d' = quiet d"
  using assms
  by (auto simp: block_read_def host_lseek_def host_read_def host_call_def host_content_def quiet_def
      split: if_splits list.splits option.splits)

lemma read_bounce_honest:
  "honest (apsnd (apsnd hush)) (failed s) (unchanged s) (read_bounce index s) (read_bounce index (hush s))"
proof -
  obtain r data d where r: "block_read (ucast index) (dev s) = (r, data, d)" by (metis prod_cases3)
  note q = block_read_quiet [OF r] block_read_hush [OF r]
  have "honest (apsnd (apsnd hush)) (failed s) (unchanged s)
    (bnd (store_bytes (stack_buffer BLOCK_SIZE s) 0 data) (\<lambda>b. Inr (r, b, s\<lparr>dev := d\<rparr>)))
    (read_bounce index (hush s))"
    using q by (auto simp: read_bounce_def store_bytes_def hush_dev split: prod.split)
  then show ?thesis by (simp add: read_bounce_def r)
qed

lemma discard_read_hush [simp]: "hush (discard_read index s) = hush s"
  using block_read_hush by (auto simp: discard_read_def split: prod.split)

lemma discard_read_calm [simp]: "discard_read index (hush s) = hush s"
  using block_read_calm by (auto simp: discard_read_def hush_def split: prod.split)

lemma read_first_block_honest:
  "honest_part s (read_first_block fd buf count offset s) (read_first_block fd buf count offset (hush s))"
  unfolding read_first_block_def hush_reads
  by (rule honest_bnd_pure)
    (auto simp: Let_def split: option.split intro!: honest_bnd [OF read_bounce_honest] honest_bnd_pure)

lemma read_full_blocks_honest:
  "honest_part s (read_full_blocks fd buf i e n s) (read_full_blocks fd buf i e n (hush s))"
proof (induction "nat (e - i)" arbitrary: i n buf s)
  case 0
  then show ?case by (simp add: read_full_blocks.simps)
next
  case (Suc k)
  then have i: "i < e" by simp
  have "honest_part s (read_full_blocks fd buf i e n s) (read_full_blocks fd buf i e n (hush s))"
    if b: "data_block fd i s = Inr (Some b)" for b
  proof -
    obtain r data d where r: "block_read (ucast b) (dev s) = (r, data, d)" by (metis prod_cases3)
    obtain r0 data0 d0 where r0: "block_read (ucast b) (quiet (dev s)) = (r0, data0, d0)" by (metis prod_cases3)
    from block_read_calm [OF r0] have d0: "d0 = quiet (dev s)" .
    define s1 where "s1 = discard_read b (s\<lparr>dev := d\<rparr>)"
    have s1: "hush s1 = hush s" using block_read_hush [OF r] by (simp add: s1_def)
    have s0: "(hush s)\<lparr>dev := quiet (dev s)\<rparr> = hush s" by (simp add: hush_def)
    have run: "read_full_blocks fd buf i e n s =
        bnd (store_bytes buf (nat n) data) (\<lambda>buf.
          if r = -1 then Inr (Return (-1), buf, s1)
          else bnd (c_int (n + int BLOCK_SIZE)) (\<lambda>n. read_full_blocks fd buf (i + 1) e n s1))"
      by (subst read_full_blocks.simps) (simp add: i b r s1_def Let_def cong: if_cong)
    have run0: "read_full_blocks fd buf i e n (hush s) =
        bnd (store_bytes buf (nat n) data0) (\<lambda>buf.
          if r0 = -1 then Inr (Return (-1), buf, hush s)
          else bnd (c_int (n + int BLOCK_SIZE)) (\<lambda>n. read_full_blocks fd buf (i + 1) e n (hush s)))"
      by (subst read_full_blocks.simps) (simp add: i b r0 d0 s0 Let_def cong: if_cong)
    from block_read_quiet [OF r] r0 d0 consider "r = -1" "data = []" | "r0 = r" "data0 = data" by auto
    then show ?thesis
    proof cases
      case 1
      with s1 show ?thesis
        by (cases "store_bytes buf (nat n) []") (simp_all add: run run0 store_bytes_Nil [where ys = data0])
    next
      case 2
      have IH: "honest_part s (read_full_blocks fd buf (i + 1) e n s1) (read_full_blocks fd buf (i + 1) e n (hush s))" for buf n
        using Suc.hyps(1) [of "i + 1" s1 buf n] Suc.hyps(2) i s1 by (simp add: honest_def unchanged_def)
      show ?thesis
        unfolding run run0 2 by (rule honest_bnd_pure) (simp add: s1 honest_bnd_pure IH)
    qed
  qed
  then show ?case
    by (cases "data_block fd i s")
      (auto simp: read_full_blocks.simps [of _ _ i] i split: option.split)
qed

lemma read_last_block_honest:
  "honest_part s (read_last_block fd buf t n m s) (read_last_block fd buf t n m (hush s))"
  unfolding read_last_block_def hush_reads
  by (intro honest_bnd_pure)
    (auto simp: Let_def split: option.split intro!: honest_bnd [OF read_bounce_honest] honest_bnd_pure)

lemma and_then_buf_honest:
  assumes "honest_part s m m0"
    and "\<And>n buf s'. hush s' = hush s \<Longrightarrow> honest_call s (k n buf s') (k n buf (hush s))"
  shows "honest_call s (and_then_buf m k) (and_then_buf m0 k)"
  unfolding and_then_buf_def
  by (rule honest_bnd [OF assms(1)]) (auto intro!: assms(2) split: step.split)

lemma finish_read_honest:
  assumes "hush s' = hush s"
  shows "honest_call s (finish_read fd n buf s') (finish_read fd n buf (hush s))"
proof -
  have "honest_call s (finish_read fd n buf s') (finish_read fd n buf (hush s'))"
    unfolding finish_read_def hush_reads
    by (intro honest_bnd_pure) (simp add: hush_def set_fd_entry_def)
  with assms show ?thesis by simp
qed

lemma honest_part_eq:
  assumes "\<And>s. honest_part s (m s) (m (hush s))" and "hush s' = hush s"
  shows "honest_part s (m s') (m (hush s))"
  using assms(1) [of s'] assms(2) by (simp add: honest_def unchanged_def)

lemma read_rest_honest:
  assumes "hush s' = hush s"
  shows "honest_call s (read_rest fd count offset t i n buf s') (read_rest fd count offset t i n buf (hush s))"
  unfolding read_rest_def
  by (intro honest_bnd_pure and_then_buf_honest honest_part_eq [OF read_full_blocks_honest assms])
    (auto simp: Let_def intro!: and_then_buf_honest honest_part_eq [OF read_last_block_honest] finish_read_honest)

lemma fs_read_honest: "honest_call s (fs_read fd buf count s) (fs_read fd buf count (hush s))"
  unfolding fs_read_def hush_reads
  by (intro honest_bnd_pure)
    (auto simp: Let_def intro!: honest_bnd_pure and_then_buf_honest read_first_block_honest
        read_rest_honest split: option.split)


section \<open>Allocation\<close>

text \<open>It does not use the disk.\<close>

lemma on_dev:
  fixes d :: dev
  defines "u \<equiv> \<lambda>s. s\<lparr>dev := d\<rparr>"
  shows "fat_get k (u s) = fat_get k s"
    and "fat_set k v (u s) = bnd (fat_set k v s) (\<lambda>s. Inr (u s))"
    and "find_free_entry (u s) = find_free_entry s"
proof -
  show get: "fat_get k (u s) = fat_get k s" for k by (simp add: u_def fat_get_def)
  show "find_free_entry (u s) = find_free_entry s" by (simp add: find_free_entry_def get) (simp add: u_def)
  show "fat_set k v (u s) = bnd (fat_set k v s) (\<lambda>s. Inr (u s))"
    by (cases "deref (fat s)") (auto simp: fat_set_def bnd_assoc u_def intro!: bnd_cong)
qed

lemma chain_end_dev: "chain_end (s\<lparr>dev := d\<rparr>) b n = chain_end s b n"
proof (induction s b n rule: chain_end.induct)
  case (1 s b n)
  then show ?case
    by (subst (1 2) chain_end.simps) (auto simp: on_dev intro!: bnd_cong)
qed

lemma extend_chain_dev:
  "extend_chain b n t (s\<lparr>dev := d\<rparr>) = bnd (extend_chain b n t s) (\<lambda>(r, s). Inr (r, s\<lparr>dev := d\<rparr>))"
proof (induction b n t s rule: extend_chain.induct)
  case (1 b n t s)
  then show ?case
    by (subst (1 2) extend_chain.simps) (auto simp: on_dev bnd_assoc intro!: bnd_cong split: option.split)
qed

lemma allocate_dev:
  "allocate_blocks_in_fat fd n (s\<lparr>dev := d\<rparr>) = bnd (allocate_blocks_in_fat fd n s) (\<lambda>(r, s). Inr (r, s\<lparr>dev := d\<rparr>))"
proof -
  have f: "set_file a f (s\<lparr>dev := d\<rparr>) = (set_file a f s)\<lparr>dev := d\<rparr>" for a f s by (simp add: set_file_def)
  have first: "allocate_first_block a f (s\<lparr>dev := d\<rparr>) =
      bnd (allocate_first_block a f s) (\<lambda>(b, s). Inr (b, s\<lparr>dev := d\<rparr>))" for a f
    unfolding allocate_first_block_def on_dev bnd_assoc
    by (rule bnd_cong [OF refl]) (auto simp: on_dev bnd_assoc f split: option.split)
  show ?thesis
  proof (cases "n \<le> 0 \<or> (\<exists>e. opened_file fd s = Inl e)")
    case True
    then show ?thesis by (auto simp: allocate_blocks_in_fat_def)
  next
    case False
    then obtain a f where "opened_file fd s = Inr (a, f)" by (cases "opened_file fd s") auto
    with False show ?thesis
      by (cases "first_index f = FAT_EOC"; cases "allocate_first_block a f s")
        (simp_all add: allocate_blocks_in_fat_def first chain_end_dev extend_chain_dev bnd_assoc case_prod_unfold)
  qed
qed


section \<open>Calls on a mounted disk\<close>

lemma hush_slots [simp]:
  "the_sb (hush s) = the_sb s" "the_fat (hush s) = the_fat s" "fat_ok (hush s) = fat_ok s"
  "files_ok (hush s) = files_ok s" "slots_ok (hush s) = slots_ok s" "slot_addr (hush s) = slot_addr s"
  "slot_file (hush s) = slot_file s" "slot_name (hush s) = slot_name s"
proof -
  show "the_sb (hush s) = the_sb s" "the_fat (hush s) = the_fat s" "fat_ok (hush s) = fat_ok s"
    "files_ok (hush s) = files_ok s" "slots_ok (hush s) = slots_ok s"
    by (simp_all add: the_sb_def the_fat_def fat_ok_def files_ok_def slots_ok_def)
  show a: "slot_addr (hush s) = slot_addr s" by (rule ext) (simp add: slot_addr_def)
  show f: "slot_file (hush s) = slot_file s" by (rule ext) (simp add: slot_file_def a)
  show "slot_name (hush s) = slot_name s" by (rule ext) (simp add: slot_name_def f)
qed

lemma hush_files [simp]:
  "slot_chain (hush s) = slot_chain s" "used (hush s) = used s" "catalog (hush s) = catalog s"
  "is_open (hush s) = is_open s" "disk_blocks (hush s) = disk_blocks s"
  "file_data (hush s) = file_data s" "chain_for (hush s) = chain_for s"
  "names_terminated (hush s) = names_terminated s" "names_distinct (hush s) = names_distinct s"
proof -
  show c: "slot_chain (hush s) = slot_chain s" by (rule ext) (simp add: slot_chain_def)
  show "used (hush s) = used s" by (rule ext) (simp add: used_def)
  show "catalog (hush s) = catalog s" by (rule ext) (simp add: catalog_def)
  show "is_open (hush s) = is_open s" by (rule ext) (simp add: is_open_def)
  show d: "disk_blocks (hush s) = disk_blocks s" by (rule ext) (simp add: disk_blocks_def)
  show "file_data (hush s) = file_data s" by (rule ext) (simp add: file_data_def c d)
  show "chain_for (hush s) = chain_for s" by (intro ext) (simp add: chain_for_def c)
  show "names_terminated (hush s) = names_terminated s" by (simp add: names_terminated_def)
  show "names_distinct (hush s) = names_distinct s" by (simp add: names_distinct_def)
qed

lemma hush_fds [simp]:
  "open_fd (hush s) = open_fd s" "the_fd (hush s) = the_fd s" "fd_slot (hush s) = fd_slot s"
  "fd_pos (hush s) = fd_pos s" "free_slot (hush s) = free_slot s" "free_fd (hush s) = free_fd s"
  "count_ok (hush s) = count_ok s"
proof -
  show "open_fd (hush s) = open_fd s" by (rule ext) (simp add: open_fd_def)
  show d: "the_fd (hush s) = the_fd s" by (rule ext) (simp add: the_fd_def)
  show "fd_slot (hush s) = fd_slot s" by (rule ext) (simp add: fd_slot_def d)
  show "fd_pos (hush s) = fd_pos s" by (rule ext) (simp add: fd_pos_def d)
  show "free_slot (hush s) = free_slot s" "free_fd (hush s) = free_fd s" "count_ok (hush s) = count_ok s"
    by (simp_all add: free_slot_def free_fd_def count_ok_def used_fds_def)
qed

lemma hush_updates [simp]:
  "set_file a f (hush s) = hush (set_file a f s)" "set_fd_entry fd e (hush s) = hush (set_fd_entry fd e s)"
  "opened k i (hush s) = hush (opened k i s)" "closed k' (hush s) = hush (closed k' s)"
  "allocated F a f ys (hush s) = hush (allocated F a f ys s)"
  by (simp_all add: opened_def closed_def allocated_def set_file_def set_fd_entry_def slot_addr_def hush_def)

section \<open>The other calls\<close>

text \<open>Opening a file may lack memory; calls that make no call on the host are not affected.\<close>

definition no_effect :: "fs \<Rightarrow> int \<times> fs \<Rightarrow> bool" where
  "no_effect s x \<longleftrightarrow> fst x = -1 \<and> hush (snd x) = hush s"

lemma no_effect_simps [simp]: "no_effect s (r, s') \<longleftrightarrow> r = -1 \<and> hush s' = hush s"
  by (simp add: no_effect_def)

definition unaffected :: "call \<Rightarrow> fs \<Rightarrow> bool" where
  "unaffected c s \<longleftrightarrow> run_call c (hush s) = bnd (run_call c s) (\<lambda>(r, s'). Inr (r, hush s'))"

lemma malloc_cases:
  obtains b s' where "malloc s = (b, s')" and "hush s' = hush s" and "\<And>s0. malloc (hush s0) = (True, hush s0)"
  by (rule that [of "fst (malloc s)" "snd (malloc s)"])
    (simp_all add: malloc_def host_call_def hush_def quiet_def split: list.split)

lemma hush_add_fd:
  assumes "hush s' = hush s"
  shows "hush ((set_fd_entry i e s')\<lparr>num_open_files := k\<rparr>) = (set_fd_entry i e (hush s))\<lparr>num_open_files := k\<rparr>"
proof -
  have "hush (t\<lparr>num_open_files := k\<rparr>) = (hush t)\<lparr>num_open_files := k\<rparr>" for t by (simp add: hush_def)
  then show ?thesis by (simp flip: assms)
qed

lemma add_file_honest:
  "honest (apsnd hush) (no_effect s) (\<lambda>_. True)
    (add_file_to_fd_array p s) (add_file_to_fd_array p (hush s))"
proof -
  obtain b s' where m: "malloc s = (b, s')" "hush s' = hush s" "\<And>s0. malloc (hush s0) = (True, hush s0)"
    using malloc_cases by blast
  have o: "open_files s' = open_files s" using arg_cong [OF m(2), of open_files] by simp
  have n: "num_open_files s' = num_open_files s" using arg_cong [OF m(2), of num_open_files] by simp
  show ?thesis
    by (auto simp: add_file_to_fd_array_def m o n hush_add_fd [OF m(2)] Let_def simp del: hush_updates(2)
        intro!: honest_bnd_pure split: option.split)
qed

lemma fs_open_honest:
  "honest (apsnd hush) (no_effect s) (\<lambda>_. True) (fs_open name s) (fs_open name (hush s))"
proof -
  have f: "find_matching_filename n (hush s) = find_matching_filename n s" for n
    by (simp add: find_matching_filename_def root_entry_def)
  show ?thesis
    unfolding fs_open_def hush_simps f
    by (auto intro!: honest_bnd_pure honest_bnd [OF add_file_honest])
qed

lemma delete_unaffected:
  assumes "sound (hush s)"
  shows "unaffected (Delete name) s"
proof -
  have o0: "fs_ok (hush s)" using assms by (simp add: sound_def)
  note o0 = fs_okD [OF o0]
  then have o: "is_disk_mounted s" "fat_ok s" "files_ok s" "slots_ok s" "names_distinct s" by simp_all
  show ?thesis
  proof (cases "\<exists>n i. name = Some n \<and> valid_name n \<and> catalog s (c_text n) = Some i \<and> \<not> is_open s i")
    case True
    then obtain n i where n: "name = Some n" "valid_name n" "catalog s (c_text n) = Some i" "\<not> is_open s i"
      by blast
    from catalog_SomeD [OF n(3)] have "used (hush s) i" by (auto simp: used_def)
    note c0 = chains_okD(1) [OF o0(7) this]
    then have c: "chain (the_fat s) (first_index (slot_file s i)) (slot_chain s i)" by simp
    have F: "the_fat s ! 0 = FAT_EOC" using o0(15) by simp
    have "set_file a f (with_fat F (hush s)) = hush (set_file a f (with_fat F s))" for a f F
      by (simp add: set_file_def hush_def)
    with n show ?thesis
      by (simp add: unaffected_def fs_delete_eq [OF o(1,3,4,5)] fs_delete_eq [OF o0(1,3,4,5)]
          free_file_blocks_with_fat [OF o(2) c F] free_file_blocks_with_fat [OF o0(2) c0 o0(15), simplified]
          split: list.split)
  next
    case False
    then show ?thesis
      by (auto simp: unaffected_def fs_delete_eq [OF o(1,3,4,5)] fs_delete_eq [OF o0(1,3,4,5)] split: option.splits)
  qed
qed

lemma observe_unaffected:
  assumes "sound (hush s)" and "admissible c s"
  shows "(case c of Open _ \<Rightarrow> True | Read _ _ _ \<Rightarrow> True | Write _ _ _ \<Rightarrow> True | _ \<Rightarrow> unaffected c s)"
proof -
  from assms(1) have ok: "fs_ok (hush s)" and nt: "names_terminated s" by (simp_all add: sound_def)
  note o0 = fs_okD [OF ok]
  then have o: "is_disk_mounted s" "fat_ok s" "files_ok s" "slots_ok s" "names_distinct s" by simp_all
  show ?thesis
  proof (cases c)
    case (Create name)
    then show ?thesis 
      by (simp add: unaffected_def fs_create_eq [OF o(1,3)] fs_create_eq [OF o0(1,3)] split: option.split)
  next
    case (Delete name)
    with delete_unaffected [OF assms(1)] show ?thesis by simp
  next
    case Ls
    then show ?thesis by (simp add: unaffected_def fs_ls_eq [OF o(3) nt] fs_ls_eq [of "hush s"] o nt used_slots_def)
  next
    case Info
    then show ?thesis
      by (simp add: unaffected_def fs_info_eq [OF o(1,2,3)] fs_info_eq [OF o0(1,2,3)] info_lines_def Let_def used_slots_def block_disk_count_def)
  next
    case (Close fd)
    then show ?thesis by (simp add: unaffected_def fs_close_eq [OF o(1,4)] fs_close_eq [OF o0(1,4)])
  next
    case (Stat fd)
    then show ?thesis by (auto simp: unaffected_def fs_stat_def bnd_assoc split: prod.split intro!: bnd_cong)
  next
    case (Lseek fd offset)
    then show ?thesis by (auto simp: unaffected_def fs_lseek_def bnd_assoc split: prod.split intro!: bnd_cong)
  qed simp_all
qed


lemma abs_fs_hush [simp]: "abs_fs (hush s) = abs_fs s"
proof -
  have f: "abs_file (hush s) = abs_file s" by (rule ext) (simp add: abs_file_def)
  have n: "fd_name (hush s) = fd_name s" by (rule ext) (simp add: fd_name_def)
  show ?thesis by (auto simp: abs_fs_def f n fun_eq_iff)
qed

lemma admissible_hush [simp]: "admissible c (hush s) = admissible c s"
  by (cases c) (auto split: option.split)

end
