(* ===== verification/Failing_Writes.thy ===== *)
theory Failing_Writes
  imports Host_Failures
begin

text \<open>
  \<open>fs_write\<close> on a host whose calls fail by an arbitrary schedule. It does what it does on a quiet host, or it
  returns -1; then it has written the first bytes of the buffer, up to some block, and recorded neither
  size nor offset. The blocks it has got for the file stay in its chain.
\<close>

section \<open>What a part leaves when it gives up\<close>

text \<open>
  \<open>gives_up P\<close> and \<open>reports P\<close>: a part of \<open>fs_write\<close>, and the whole call, stop with -1, and the state they
  leave would on a quiet host be one that satisfies \<open>P\<close>.
\<close>

definition gives_up :: "(fs \<Rightarrow> bool) \<Rightarrow> int step \<times> fs \<Rightarrow> bool" where
  "gives_up P x \<longleftrightarrow> fst x = Return (-1) \<and> P (hush (snd x))"

definition reports :: "(fs \<Rightarrow> bool) \<Rightarrow> int \<times> fs \<Rightarrow> bool" where
  "reports P x \<longleftrightarrow> fst x = -1 \<and> P (hush (snd x))"

lemma gives_up_simps [simp]:
  "gives_up P (r, s) \<longleftrightarrow> r = Return (-1) \<and> P (hush s)" "reports P (i, s) \<longleftrightarrow> i = -1 \<and> P (hush s)"
  by (simp_all add: gives_up_def reports_def)

abbreviation write_part :: "(fs \<Rightarrow> bool) \<Rightarrow> (int step \<times> fs) res \<Rightarrow> (int step \<times> fs) res \<Rightarrow> bool" where
  "write_part P \<equiv> honest (apsnd hush) (gives_up P) (\<lambda>_. True)"

abbreviation write_call :: "(fs \<Rightarrow> bool) \<Rightarrow> (int \<times> fs) res \<Rightarrow> (int \<times> fs) res \<Rightarrow> bool" where
  "write_call P \<equiv> honest (apsnd hush) (reports P) (\<lambda>_. True)"

lemma write_part_mono: "write_part P m m0 \<Longrightarrow> (\<And>t. P t \<Longrightarrow> Q t) \<Longrightarrow> write_part Q m m0"
  by (auto simp: honest_def gives_up_def)

lemma write_call_mono: "write_call P m m0 \<Longrightarrow> (\<And>t. P t \<Longrightarrow> Q t) \<Longrightarrow> write_call Q m m0"
  by (auto simp: honest_def reports_def)

lemma and_then_Next [simp]: "and_then (Inr (Next n, s)) k = k n s"
  by (simp add: and_then_def)

lemma and_then_call:
  assumes "write_part P m m0"
    and "\<And>n s'. m0 = Inr (Next n, hush s') \<Longrightarrow> write_call P (k n s') (k n (hush s'))"
  shows "write_call P (and_then m k) (and_then m0 k)"
proof (cases m)
  case (Inl e)
  with assms(1) show ?thesis by (simp add: honest_def and_then_def)
next
  case (Inr x)
  with assms show ?thesis by (cases x; cases "fst x") (auto simp: and_then_def)
qed

text \<open>
  The end of each part: a block is written, the state passes \<open>g\<close> (nothing, or the read whose result
  is not used), and the part gives up or goes on.
\<close>

lemma write_step:
  assumes "hush s1 = hush s" and g: "\<And>s. hush (g s) = hush s" "\<And>s. g (hush s) = hush s" and "P (hush s)"
    and k: "\<And>s' r d. block_write b buf (quiet (dev s)) = (r, d) \<Longrightarrow> r \<noteq> -1 \<Longrightarrow> hush s' = (hush s)\<lparr>dev := d\<rparr> \<Longrightarrow>
      write_part P (k s') (k (hush s'))"
  shows "write_part P
    (case block_write b buf (dev s1) of (op_success, d) \<Rightarrow>
       let s' = g (s1\<lparr>dev := d\<rparr>) in if op_success = -1 then Inr (Return (-1), s') else k s')
    (case block_write b buf (quiet (dev s)) of (op_success, d) \<Rightarrow>
       let s' = g ((hush s)\<lparr>dev := d\<rparr>) in if op_success = -1 then Inr (Return (-1), s') else k s')"
proof -
  obtain r d where r: "block_write b buf (dev s1) = (r, d)" by fastforce
  have q: "quiet (dev s1) = quiet (dev s)" using arg_cong [OF assms(1), of dev] by simp
  have h: "hush (g (s1\<lparr>dev := d\<rparr>)) = (hush s)\<lparr>dev := quiet d\<rparr>" by (simp add: g(1) hush_dev assms(1))
  from block_write_quiet [OF r] show ?thesis
  proof
    assume "r = -1 \<and> quiet d = quiet (dev s1)"
    with assms(4) h show ?thesis by (simp add: r q hush_def)
  next
    assume w: "block_write b buf (quiet (dev s1)) = (r, quiet d)"
    have "g ((hush s)\<lparr>dev := quiet d\<rparr>) = hush (g (s1\<lparr>dev := d\<rparr>))" by (metis g(2) h hush_simps(12))
    with w k [of r "quiet d" "g (s1\<lparr>dev := d\<rparr>)"] h show ?thesis by (simp add: r q Let_def)
  qed
qed

lemma write_end:
  assumes "hush s1 = hush s" and "P (hush s)" and "\<And>s'. write_part P (k s') (k (hush s'))"
  shows "write_part P
    (case block_write b buf (dev s1) of (op_success, d) \<Rightarrow>
       if op_success = -1 then Inr (Return (-1), s1\<lparr>dev := d\<rparr>) else k (s1\<lparr>dev := d\<rparr>))
    (case block_write b buf (quiet (dev s)) of (op_success, d) \<Rightarrow>
       if op_success = -1 then Inr (Return (-1), (hush s)\<lparr>dev := d\<rparr>) else k ((hush s)\<lparr>dev := d\<rparr>))"
  using write_step [where g = "\<lambda>s. s" and k = k, OF assms(1) _ _ assms(2,3)] by (simp only: Let_def)

section \<open>The three parts\<close>

lemma write_first_block_part:
  "write_part (\<lambda>t. t = hush s) (write_first_block fd buf count offset s) (write_first_block fd buf count offset (hush s))"
  unfolding write_first_block_def hush_reads Let_def
  by (rule honest_bnd_pure)
    (auto intro!: honest_bnd [OF read_bounce_honest] honest_bnd_pure write_end split: option.split)

lemma write_last_block_part:
  "write_part (\<lambda>t. t = hush s) (write_last_block fd buf t n m s) (write_last_block fd buf t n m (hush s))"
  unfolding write_last_block_def hush_reads
  by (intro honest_bnd_pure)
    (auto intro!: honest_bnd [OF read_bounce_honest] honest_bnd_pure write_end split: option.split)

text \<open>The loop over whole blocks stops as if its end had been a block \<open>j\<close> before \<open>e\<close>.\<close>

definition stopped_early :: "nat \<Rightarrow> byte list \<Rightarrow> int \<Rightarrow> int \<Rightarrow> int \<Rightarrow> fs \<Rightarrow> fs \<Rightarrow> bool" where
  "stopped_early fd buf i e n s t \<longleftrightarrow>
     (\<exists>j n'. i \<le> j \<and> j \<le> e \<and> write_full_blocks fd buf i j n s = Inr (Next n', t))"

lemma write_full_blocks_part:
  "write_part (stopped_early fd buf i e n (hush s)) (write_full_blocks fd buf i e n s) (write_full_blocks fd buf i e n (hush s))"
proof (induction "nat (e - i)" arbitrary: i n s)
  case 0
  then show ?case by (simp add: write_full_blocks.simps)
next
  case (Suc k)
  then have i: "i < e" by simp
  have IH: "write_part (stopped_early fd buf (i + 1) e n (hush s)) (write_full_blocks fd buf (i + 1) e n s)
      (write_full_blocks fd buf (i + 1) e n (hush s))" for n s
    using Suc.hyps(1) [of "i + 1" n s] Suc.hyps(2) i by simp
  have at_once: "stopped_early fd buf i e n (hush s) (hush s)"
    using i unfolding stopped_early_def by (intro exI [of _ i] exI [of _ n]) (simp add: write_full_blocks.simps)
  have step: "stopped_early fd buf i e n (hush s) t"
    if "data_block fd i s = Inr (Some b)" and "load_bytes buf (nat n) BLOCK_SIZE = Inr src"
      and "block_write (ucast b) src (quiet (dev s)) = (r, d)" and "r \<noteq> -1" and "hush s' = (hush s)\<lparr>dev := d\<rparr>"
      and "c_int (n + int BLOCK_SIZE) = Inr m" and "stopped_early fd buf (i + 1) e m (hush s') t" for b src r d s' m t
  proof -
    from that(7) obtain j n' where j: "i + 1 \<le> j" "j \<le> e" "write_full_blocks fd buf (i + 1) j m (hush s') = Inr (Next n', t)"
      by (auto simp: stopped_early_def)
    have "discard_read b ((hush s)\<lparr>dev := d\<rparr>) = hush s'" using that(5) by (metis discard_read_calm)
    with j that have "write_full_blocks fd buf i j n (hush s) = Inr (Next n', t)"
      by (subst write_full_blocks.simps) (simp add: Let_def)
    with j(1,2) show ?thesis unfolding stopped_early_def by (intro exI [of _ j] exI [of _ n']) simp
  qed
  have rest: "write_part (stopped_early fd buf i e n (hush s))
      (bnd (c_int (n + int BLOCK_SIZE)) (\<lambda>n. write_full_blocks fd buf (i + 1) e n s'))
      (bnd (c_int (n + int BLOCK_SIZE)) (\<lambda>n. write_full_blocks fd buf (i + 1) e n (hush s')))"
    if "data_block fd i s = Inr (Some b)" and "load_bytes buf (nat n) BLOCK_SIZE = Inr src"
      and "block_write (ucast b) src (quiet (dev s)) = (r, d)" and "r \<noteq> -1" and "hush s' = (hush s)\<lparr>dev := d\<rparr>"
    for b src r d s'
    by (rule honest_bnd_pure, rule write_part_mono [OF IH], rule step [OF that])
  have body: "write_part (stopped_early fd buf i e n (hush s))
      (bnd (load_bytes buf (nat n) BLOCK_SIZE) (\<lambda>src. case block_write (ucast b) src (dev s) of (r, d) \<Rightarrow>
         let s' = discard_read b (s\<lparr>dev := d\<rparr>)
         in if r = -1 then Inr (Return (-1), s')
            else bnd (c_int (n + int BLOCK_SIZE)) (\<lambda>n. write_full_blocks fd buf (i + 1) e n s')))
      (bnd (load_bytes buf (nat n) BLOCK_SIZE) (\<lambda>src. case block_write (ucast b) src (quiet (dev s)) of (r, d) \<Rightarrow>
         let s' = discard_read b ((hush s)\<lparr>dev := d\<rparr>)
         in if r = -1 then Inr (Return (-1), s')
            else bnd (c_int (n + int BLOCK_SIZE)) (\<lambda>n. write_full_blocks fd buf (i + 1) e n s')))"
    if "data_block fd i s = Inr (Some b)" for b
    by (rule honest_bnd_pure, rule write_step [where g = "discard_read b"])
      ((rule rest [OF that]; assumption) | simp add: at_once)+
  show ?case
    unfolding write_full_blocks.simps [of _ _ i] if_P [OF i] hush_reads hush_simps
    by (rule honest_bnd_pure) (auto intro!: body split: option.split)
qed

text \<open>
  What a failed write has done: the first \<open>k\<close> bytes of the buffer are in place, for some \<open>k\<close> up to the
  number \<open>r\<close> of bytes that a write on a quiet host transfers.
\<close>

definition wrote_prefix :: "nat list \<Rightarrow> byte list \<Rightarrow> nat \<Rightarrow> nat \<Rightarrow> byte list \<Rightarrow> fs \<Rightarrow> fs \<Rightarrow> bool" where
  "wrote_prefix bs C off r buf s t \<longleftrightarrow>
     (\<exists>k d. k \<le> r \<and> t = s\<lparr>dev := d\<rparr> \<and> rewritten bs (put_data C off k buf) (dev s) d)"

lemma wrote_prefix_later:
  assumes "wrote_prefix bs C off r buf (s\<lparr>dev := d\<rparr>) t" and "rewritten bs C' (dev s) d"
  shows "wrote_prefix bs C off r buf s t"
  using assms rewritten_trans by (auto simp: wrote_prefix_def) blast

lemma wrote_prefix_now:
  assumes "transfer s fd xs (put_data C off k buf)" and "k \<le> r"
  shows "wrote_prefix (disk_blocks s xs) C off r buf s s"
  unfolding wrote_prefix_def
  by (intro exI [of _ k] exI [of _ "dev s"]) (use assms rewritten_self [OF assms(1)] in simp)

text \<open>The loop, between the first partial block and the last one.\<close>

lemma stopped_early_prefix:
  assumes "transfer s fd xs (put_data C off b buf)" and "length C = BLOCK_SIZE * length xs"
    and "small_count count" and "0 < cnt" and "cnt \<le> length buf" and "cnt = unat count" and "off = unat (offset :: u16)"
    and pre: "blocks_needed off \<le> length xs \<or> off = BLOCK_SIZE * blocks_needed off"
    and b: "b = part_bytes off cnt (blocks_needed off)"
    and "stopped_early fd buf (int (blocks_needed off)) (int (full_end off cnt)) (int b) s t"
  shows "wrote_prefix (disk_blocks s xs) C off (min cnt (BLOCK_SIZE * length xs - off)) buf s t"
proof -
  let ?f = "blocks_needed off" and ?e = "full_end off cnt"
  note rest = transfer_rest [OF assms(4), of off, folded b]
    and am = rest_amounts [OF assms(3,4,7,6) b]
    and plan = transfer_plan(1,2) [OF assms(4), of off]
  from assms(10) obtain j' n' where j': "int ?f \<le> j'" "j' \<le> int ?e" "write_full_blocks fd buf (int ?f) j' (int b) s = Inr (Next n', t)"
    by (auto simp: stopped_early_def)
  then obtain j where j: "?f \<le> j" "j \<le> ?e" "write_full_blocks fd buf (int ?f) (int j) (int b) s = Inr (Next n', t)"
    by (cases j') auto
  show ?thesis
  proof (cases "b = cnt")
    case True
    with j rest(1) have "t = s" by (simp add: write_full_blocks.simps)
    moreover have "min cnt (BLOCK_SIZE * length xs - off) = cnt"
      using first_part_serves [OF assms(4) pre] True by (simp add: b)
    ultimately show ?thesis using wrote_prefix_now [OF assms(1)] True by simp
  next
    case False
    note k = am(6-10) [OF False]
    have "BLOCK_SIZE * j \<le> BLOCK_SIZE * ?e" using j(2) by simp
    then have je: "BLOCK_SIZE * j - off \<le> BLOCK_SIZE * ?e - off" by (rule diff_le_mono)
    with k(2) assms(5) have "BLOCK_SIZE * j - off \<le> length buf" "BLOCK_SIZE * j - off < 2 ^ 31" "BLOCK_SIZE * j - off \<le> cnt"
      using k(4) by linarith+
    from write_full_blocks_ok [OF assms(1) [unfolded k(1)] assms(2) plan(1) j(1) this(1) pre this(2) refl] j(3)
    obtain d where d: "t = s\<lparr>dev := d\<rparr>" "j \<le> length xs \<or> j = ?f"
      "rewritten (disk_blocks s xs) (put_data C off (BLOCK_SIZE * j - off) buf) (dev s) d"
      by (auto simp flip: k(1) split: if_splits)
    have "BLOCK_SIZE * j - off \<le> BLOCK_SIZE * length xs - off"
    proof (cases "j \<le> length xs")
      case True
      then have "BLOCK_SIZE * j \<le> BLOCK_SIZE * length xs" by simp
      then show ?thesis by (rule diff_le_mono)
    next
      case False
      with d(2) pre have "BLOCK_SIZE * j = off" by auto
      then show ?thesis by simp
    qed
    with d \<open>BLOCK_SIZE * j - off \<le> cnt\<close> show ?thesis unfolding wrote_prefix_def by auto
  qed
qed

lemma finish_write_call: "write_call P (finish_write fd n s) (finish_write fd n (hush s))"
proof -
  have e: "set_fd_entry fd e (hush s) = hush (set_fd_entry fd e s)" for e
    by (simp add: hush_def set_fd_entry_def)
  have f: "set_file a f (hush s) = hush (set_file a f s)" for a f s
    by (simp add: hush_def set_file_def)
  show ?thesis
    unfolding finish_write_def hush_reads Let_def e
    by (intro honest_bnd_pure) (auto simp: f split: prod.split)
qed

lemma write_rest_call:
  assumes "count_full_blocks t offset count n = Inr nfb" and "c_int (nfb + uint i) = Inr e" and "uint i \<le> e"
  shows "write_call (stopped_early fd buf (uint i) e n (hush s)) (write_rest fd buf count offset t i n s)
    (write_rest fd buf count offset t i n (hush s))"
proof -
  have last: "write_part (stopped_early fd buf (uint i) e n (hush s))
      (write_last_block fd buf t m k s') (write_last_block fd buf t m k (hush s'))"
    if "write_full_blocks fd buf (uint i) e n (hush s) = Inr (Next m, hush s')" for m k s'
    by (rule write_part_mono [OF write_last_block_part])
      (use that assms(3) in \<open>auto simp: stopped_early_def intro: exI [of _ e]\<close>)
  show ?thesis
    by (simp add: write_rest_def assms(1,2) Let_def)
      (auto intro!: and_then_call [OF write_full_blocks_part] and_then_call [OF last] finish_write_call)
qed

lemma write_rest_prefix:
  assumes "transfer (hush s) fd xs (put_data C off (part_bytes off cnt (blocks_needed off)) buf)"
    and "length C = BLOCK_SIZE * length xs" and "small_count count" and "0 < cnt" and "cnt \<le> length buf"
    and off: "off = unat (fd_offset d)" and cnt: "cnt = unat count"
    and r: "r = min cnt (BLOCK_SIZE * length xs - off)"
    and i: "uint i = int (blocks_needed off)" and pre: "blocks_needed off \<le> length xs \<or> off = BLOCK_SIZE * blocks_needed off"
    and "disk_blocks (hush s) xs = bs"
  shows "write_call (wrote_prefix bs C off r buf (hush s))
    (write_rest fd buf count (fd_offset d) (int (blocks_needed (off + cnt))) i (int (part_bytes off cnt (blocks_needed off))) s)
    (write_rest fd buf count (fd_offset d) (int (blocks_needed (off + cnt))) i (int (part_bytes off cnt (blocks_needed off))) (hush s))"
proof -
  note am = rest_amounts [OF assms(3,4) off cnt refl]
  have e: "c_int (int (full_end off cnt) - int (blocks_needed off) + uint i) = Inr (int (full_end off cnt))"
    "uint i \<le> int (full_end off cnt)"
    using am(2) i transfer_plan(2) [OF assms(4), of off] by simp_all
  show ?thesis
    using stopped_early_prefix [OF assms(1-5) cnt off pre refl] assms(11)
    by (intro write_call_mono [OF write_rest_call [OF am(1) e]]) (simp add: i r)
qed

lemma write_parts_call:
  assumes "transfer (hush s) fd xs C" and "fd_entry fd s = Inr d" and "small_count count" and "0 < cnt" and "cnt \<le> length buf"
    and off: "off = unat (fd_offset d)" and cnt: "cnt = unat count"
    and r: "r = min cnt (BLOCK_SIZE * length xs - off)"
  shows "write_call (wrote_prefix (disk_blocks s xs) C off r buf (hush s)) (write_parts fd buf count d s) (write_parts fd buf count d (hush s))"
proof -
  let ?f = "blocks_needed off" and ?b = "part_bytes off cnt (blocks_needed off)"
  note len = transfer_length [OF assms(1)]
    and us = uint_full_start [of "fd_offset d", folded off]
  have db: "disk_blocks (hush s) xs = disk_blocks s xs" by (simp add: disk_blocks_def the_sb_def)
  note rest = write_rest_prefix [OF _ len assms(3-5) off cnt r]
  show ?thesis
  proof (cases "off mod BLOCK_SIZE = 0")
    case True
    have b: "?b = 0" by (rule part_bytes_aligned [OF True])
    have "off = BLOCK_SIZE * ?f" using True by (auto simp: blocks_needed_def)
    with rest [where s = s and fd = fd and i = "of_nat (off div BLOCK_SIZE)", unfolded b] assms(1) True us db show ?thesis
      by (simp add: write_parts_def Let_def off [symmetric] cnt [symmetric])
  next
    case False
    have now: "wrote_prefix (disk_blocks s xs) C off r buf (hush s) (hush s)"
      using wrote_prefix_now [of "hush s" fd xs C off 0 buf r] assms(1) db by simp
    have first: "off div BLOCK_SIZE < length xs \<and> n = int ?b \<and>
        (\<exists>d1. hush s' = (hush s)\<lparr>dev := d1\<rparr> \<and> rewritten (disk_blocks s xs) (put_data C off ?b buf) (dev (hush s)) d1)"
      if "write_first_block fd buf count (fd_offset d) (hush s) = Inr (Next n, hush s')" for n s'
      using write_first_block_ok [OF assms(1,3) _ assms(5) off cnt refl refl] that False off db
      by (auto split: if_splits)
    have "write_call (wrote_prefix (disk_blocks s xs) C off r buf (hush s))
      (write_rest fd buf count (fd_offset d) (int (blocks_needed (off + cnt))) (of_nat (off div BLOCK_SIZE) + 1) n s')
      (write_rest fd buf count (fd_offset d) (int (blocks_needed (off + cnt))) (of_nat (off div BLOCK_SIZE) + 1) n (hush s'))"
      if f: "write_first_block fd buf count (fd_offset d) (hush s) = Inr (Next n, hush s')" for n s'
    proof -
      from first [OF f] obtain d1 where d1: "off div BLOCK_SIZE < length xs" "n = int ?b" "hush s' = (hush s)\<lparr>dev := d1\<rparr>"
        "rewritten (disk_blocks s xs) (put_data C off ?b buf) (dev (hush s)) d1" by auto
      have tr: "transfer (hush s') fd xs (put_data C off ?b buf)"
        using transfer_rewritten [OF assms(1), of _ d1] d1(3,4) db by simp
      have "uint (of_nat (off div BLOCK_SIZE) + 1 :: u16) = int ?f" "?f \<le> length xs" "disk_blocks (hush s') xs = disk_blocks s xs"
        using us False d1(1,3) db by (simp_all add: blocks_needed_def)
      note rest = rest [OF tr this(1) disjI1 [OF this(2)] this(3)]
      show ?thesis
        unfolding d1(2) by (rule write_call_mono [OF rest], rule wrote_prefix_later [OF _ d1(4), folded d1(3)])
    qed
    with False now show ?thesis
      by (auto simp: write_parts_def Let_def off [symmetric] cnt [symmetric]
          intro!: and_then_call write_part_mono [OF write_first_block_part])
  qed
qed

section \<open>The whole call\<close>

lemma write_honest:
  assumes "fs_ok (hush s)" and "open_fd s fd" and "fd_slot s fd = Some i" and "small_count count"
    and "0 < unat count" and "unat count \<le> length buf"
  defines "ys \<equiv> chain_for s i (fd_pos s fd + unat count)"
  defines "r \<equiv> min (unat count) (BLOCK_SIZE * length ys - fd_pos s fd)"
  obtains F where "grown (the_fat s) F (first_of ys) ys"
    and "write_call (wrote_prefix (disk_blocks s ys) (blocks_content (block_at (dev s)) (disk_blocks s ys)) (fd_pos s fd) r buf
        (hush (allocated F (slot_addr s i) (slot_file s i) ys s)))
      (fs_write fd (Some buf) count s) (fs_write fd (Some buf) count (hush s))"
proof -
  note ok = fs_okD [OF assms(1)]
  have "open_fd (hush s) fd" using assms(2) by simp
  from fs_ok_open [OF assms(1) this] assms(3) have fd: "used s i" "fd_rejected fd s = Inr False"
    "fd_entry (nat fd) s = Inr (the_fd s fd)"
    "opened_file (nat fd) s = Inr (slot_addr s i, slot_file s i)" by auto
  let ?d = "the_fd s fd" and ?T = "blocks_needed (fd_pos s fd + unat count)"
  have T: "0 < ?T" using blocks_needed_le_iff [of "fd_pos s fd + unat count" 0] assms(5) by simp
  have ch: "chain (the_fat s) (first_index (slot_file s i)) (slot_chain s i)"
    using chains_okD(1) [OF ok(7)] fd(1) by simp
  have ys: "ys = slot_chain s i @ fresh_blocks (the_fat s) (?T - length (slot_chain s i))"
    by (simp add: ys_def chain_for_def)
  have fat: "fat_ok s" using ok(2) by simp
  from allocate_blocks_in_fat_ok [OF fat fd(4) ch T, folded ys]
  obtain F v where F: "allocate_blocks_in_fat (nat fd) (int ?T) s =
      Inr (v, allocated F (slot_addr s i) (slot_file s i) ys s)" "grown (the_fat s) F (first_of ys) ys"
    by (auto simp: allocated_def)
  define s1 where "s1 = allocated F (slot_addr s i) (slot_file s i) ys s"
  have F0: "allocate_blocks_in_fat (nat fd) (int ?T) (hush s) = Inr (v, hush s1)"
    unfolding hush_def [of s] allocate_dev by (simp add: F(1) s1_def hush_def allocated_def)
  have op: "opened_file (nat fd) (hush s) = Inr (slot_addr s i, slot_file s i)" using fd(4) by simp
  note al = allocated_transfer [OF ok(12) op, of F ys, simplified, folded s1_def, OF F(2)]
  have "fs_write fd (Some buf) count s = write_parts (nat fd) buf count ?d s1"
    using F(1) by (intro fs_write_parts [OF fd(2,3) assms(4,5)]) (simp add: fd_pos_def s1_def)
  moreover have "fs_write fd (Some buf) count (hush s) = write_parts (nat fd) buf count ?d (hush s1)"
    using F0 fd(2,3) by (intro fs_write_parts [OF _ _ assms(4,5)]) (simp_all add: fd_pos_def)
  ultimately show ?thesis
    using write_parts_call [OF al(1) _ assms(4-6) fd_pos_def refl r_def [THEN meta_eq_to_obj_eq]] al(3,5) fd(3)
    by (intro that [OF F(2)]) (simp add: s1_def)
qed

lemma stale_data_hush [simp]: "stale_data (hush s) = stale_data s"
  by (intro ext) (simp add: stale_data_def)

lemma hush_Inr: "Inr y = bnd m (\<lambda>x. Inr (apsnd hush x)) \<Longrightarrow> \<exists>r s'. m = Inr (r, s') \<and> y = (r, hush s')"
  by (cases m) auto

text \<open>
  A write that fails leaves the blocks it has got in the file, with the first \<open>k\<close> bytes of the buffer in
  place; the size, the offsets and the other files stay.
\<close>

lemma write_on_failing_host:
  assumes "fs_ok (hush s)" and "open_fd s fd" and "fd_slot s fd = Some i" and "small_count count"
    and "0 < unat count" and "unat count \<le> length buf"
  defines "n \<equiv> fd_pos s fd + unat count"
  defines "ys \<equiv> chain_for s i n"
  obtains r s' where "fs_write fd (Some buf) count s = Inr (r, s')"
    and "fs_write fd (Some buf) count (hush s) = Inr (r, hush s') \<or>
      r = -1 \<and> fs_ok (hush s') \<and> kept (hush s) (hush s') \<and> others_same i (hush s) (hush s') \<and> used s' i \<and>
      slot_file s' i = (slot_file s i)\<lparr>first_index := first_of ys\<rparr> \<and> slot_chain s' i = ys \<and>
      slot_addr s' = slot_addr s \<and> open_files s' = open_files s \<and> grown (the_fat s) (the_fat s') (first_of ys) ys \<and>
      (\<exists>k \<le> min (unat count) (BLOCK_SIZE * length ys - fd_pos s fd).
        file_data s' i = put_data (file_data s i @ stale_data s i n) (fd_pos s fd) k buf)"
proof -
  have pre: "open_fd (hush s) fd" "fd_slot (hush s) fd = Some i" using assms(2,3) by simp_all
  from fs_ok_open [OF assms(1) pre(1)] pre(2) have ui: "used (hush s) i" by auto
  let ?C = "blocks_content (block_at (dev s)) (disk_blocks s ys)"
  let ?r = "min (unat count) (BLOCK_SIZE * length ys - fd_pos s fd)"
  obtain F where F: "grown (the_fat s) F (first_of ys) ys"
    "write_call (wrote_prefix (disk_blocks s ys) ?C (fd_pos s fd) ?r buf
        (hush (allocated F (slot_addr s i) (slot_file s i) ys s)))
      (fs_write fd (Some buf) count s) (fs_write fd (Some buf) count (hush s))"
    unfolding ys_def n_def by (rule write_honest [OF assms(1-6)])
  from write_ok [OF assms(1) pre assms(4-6)] obtain m s0 where q: "fs_write fd (Some buf) count (hush s) = Inr (int m, s0)"
    by metis
  consider "Inr (int m, s0) = bnd (fs_write fd (Some buf) count s) (\<lambda>x. Inr (apsnd hush x))"
    | s' k d where "fs_write fd (Some buf) count s = Inr (-1, s')" "k \<le> ?r"
        "hush s' = (hush (allocated F (slot_addr s i) (slot_file s i) ys s))\<lparr>dev := d\<rparr>"
        "rewritten (disk_blocks s ys) (put_data ?C (fd_pos s fd) k buf) (dev (hush (allocated F (slot_addr s i) (slot_file s i) ys s))) d"
    using F(2) by (auto simp: honest_def q reports_def wrote_prefix_def)
  then show ?thesis
  proof cases
    case 1
    from hush_Inr [OF 1] that q show ?thesis by auto
  next
    case (2 s' k d)
    have "hush s' = update_slot F i ((slot_file (hush s) i)\<lparr>first_index := first_of ys\<rparr>) d (hush s)"
      unfolding 2(3) hush_updates(5) [symmetric] by (simp add: allocated_def update_slot_def del: hush_updates)
    moreover have "rewritten (disk_blocks (hush s) ys) (put_data ?C (fd_pos s fd) k buf) (dev (hush s)) d"
      using 2(4) by (simp add: allocated_def)
    moreover have "ys = chain_for (hush s) i n" by (simp add: ys_def)
    ultimately have w: "fs_ok (hush s')" "kept (hush s) (hush s')" "others_same i (hush s) (hush s')" "used (hush s') i"
      "slot_file (hush s') i = (slot_file (hush s) i)\<lparr>first_index := first_of ys\<rparr>" "slot_chain (hush s') i = ys"
      "file_data (hush s') i = put_data ?C (fd_pos s fd) k buf"
      using write_transfer_ok [OF assms(1) ui, of ys n F "put_data ?C (fd_pos s fd) k buf" d] F(1) by simp_all
    have "slot_addr (hush s') = slot_addr s" "open_files (hush s') = open_files s" "the_fat (hush s') = F"
      unfolding 2(3) by (simp_all add: allocated_def the_fat_def slot_addr_def fun_eq_iff)
    then have a: "slot_addr s' = slot_addr s" "open_files s' = open_files s" "the_fat s' = F" by simp_all
    have "?C = file_data s i @ stale_data s i n"
      using chain_for_content [of "hush s" i n] by (simp add: ys_def)
    with w F(1) a 2(2) show ?thesis by (intro that [OF 2(1)]) auto
  qed
qed

end
