(* ===== verification/Failing_Sessions.thy ===== *)
theory Failing_Sessions
  imports Failing_Writes
begin

text \<open>
  Sessions on a host that may begin to fail at any moment. Between \<open>fs_mount\<close> and \<open>fs_umount\<close> the calls
  report every failure and keep the file system consistent: they implement a specification (\<open>f_step\<close>)
  that adds the reported failures to the one of theory \<open>Abstract_Fs\<close>, by the same locale \<open>simulation\<close>.
  \<open>fs_mount\<close> and \<open>fs_umount\<close> themselves hide failures.
\<close>

section \<open>Schedules\<close>

text \<open>The host's calls fail by the schedule \<open>fs\<close> from now on.\<close>

definition on_schedule :: "bool list \<Rightarrow> dev \<Rightarrow> dev" where
  "on_schedule fs d = d\<lparr>host := (host d)\<lparr>host_faults := fs\<rparr>\<rparr>"

definition failing :: "bool list \<Rightarrow> fs \<Rightarrow> fs" where
  "failing fs s = s\<lparr>dev := on_schedule fs (dev s)\<rparr>"

lemma on_schedule_simps [simp]:
  "disk (on_schedule fs d) = disk d" "host_files (host (on_schedule fs d)) = host_files (host d)"
  "host_fds (host (on_schedule fs d)) = host_fds (host d)" "host_next (host (on_schedule fs d)) = host_next (host d)"
  "host_faults (host (on_schedule fs d)) = fs" "on_schedule fs (on_schedule gs d) = on_schedule fs d"
  "quiet (on_schedule fs d) = quiet d"
  by (simp_all add: on_schedule_def quiet_def)

lemma hush_failing [simp]: "hush (failing fs s) = hush s"
  by (simp add: failing_def hush_def)

lemma on_schedule_calm: "calm d \<Longrightarrow> on_schedule [] d = d"
  by (cases d; cases "host d") (simp add: on_schedule_def calm_def)

lemma block_read_scheduled:
  assumes "disk_ok d" and "unat b < blocks d"
  shows "block_read b (on_schedule (False # False # fs) d) = (0, block_at d (unat b), on_schedule fs d)"
    and "block_read b (on_schedule (True # fs) d) = (-1, [], on_schedule fs d)"
proof -
  from \<open>disk_ok d\<close> obtain path c where
    "host_fds (host d) (disk_fd (disk d)) = Some path" "host_files (host d) path = Some c"
    "disk_image d = c" "disk_fd (disk d) \<noteq> INVALID_FD"
    by (rule disk_okE)
  with assms show "block_read b (on_schedule (False # False # fs) d) = (0, block_at d (unat b), on_schedule fs d)"
    and "block_read b (on_schedule (True # fs) d) = (-1, [], on_schedule fs d)"
    by (simp_all add: block_read_def host_lseek_def host_read_def host_call_def block_offset [OF assms]
        host_content_def block_at_def blocks_def word_le_nat_alt on_schedule_def)
qed

lemma block_write_scheduled:
  assumes "disk_ok d" and "unat b < blocks d"
  shows "block_write b buf (on_schedule (True # fs) d) = (-1, on_schedule fs d)"
proof -
  from assms(1) have "disk_fd (disk d) \<noteq> INVALID_FD" by (simp add: disk_ok_def)
  with assms show ?thesis
    by (simp add: block_write_def host_lseek_def host_call_def blocks_def word_le_nat_alt on_schedule_def)
qed

lemma block_disk_open_scheduled:
  assumes "calm d" and "block_disk_open (Some path) d = (0, d')"
  shows "block_disk_open (Some path) (on_schedule (False # False # fs) d) = (0, on_schedule fs d')"
  using assms
  by (auto simp: block_disk_open_def host_open_def host_fstat_def host_call_def calm_def on_schedule_def
      host_content_def split: if_splits option.splits)

lemma malloc_scheduled: "malloc (failing (False # fs) s) = (True, failing fs s)"
  by (simp add: malloc_def host_call_def failing_def on_schedule_def)

section \<open>Calls and failures\<close>

text \<open>What may happen in a session: a call, or a new schedule of failures.\<close>

datatype event = Call call | Host "bool list"

text \<open>
  The specification: a call does what it does on a quiet host, or it is one of three and returns -1.
  Opening and reading then leave everything as it was; a write leaves its own file with the blocks it
  asked for (as far as there was room) and the first \<open>k\<close> bytes of the buffer in place, but with the size
  and the offset it had.
\<close>

inductive f_step :: "afs \<Rightarrow> event \<Rightarrow> int \<times> byte list option \<Rightarrow> afs \<Rightarrow> bool" where
  as_specified: "a_step A c r A' \<Longrightarrow> f_step A (Call c) r A'"
| not_opened: "f_step A (Call (Open name)) (-1, None) A"
| not_read: "f_step A (Call (Read fd buf count)) (-1, out) A"
| half_written:
    "a_desc A fd = Some (n, pos) \<Longrightarrow> a_files A n = Some f \<Longrightarrow>
     extra = min (blocks_needed (unat pos + unat count) - length (a_data f) div BLOCK_SIZE) (a_room A) \<Longrightarrow>
     data = a_data f @ map stale [0..<BLOCK_SIZE * extra] \<Longrightarrow> k \<le> min (unat count) (length data - unat pos) \<Longrightarrow>
     f_step A (Call (Write fd (Some buf) count)) (-1, None)
       (A\<lparr>a_files := (a_files A)(n \<mapsto> f\<lparr>a_data := overwrite data (unat pos) (take k buf)\<rparr>), a_room := a_room A - extra\<rparr>)"
| host: "f_step A (Host fs) (0, None) A"

inductive f_code :: "fs \<Rightarrow> event \<Rightarrow> int \<times> byte list option \<Rightarrow> fs \<Rightarrow> bool" where
  call: "code_step s c r s' \<Longrightarrow> f_code s (Call c) r s'"
| host: "f_code s (Host fs) (0, None) (failing fs s)"

text \<open>One call in a state that would be sound on a quiet host.\<close>

definition fine_on_failing_host :: "call \<Rightarrow> fs \<Rightarrow> bool" where
  "fine_on_failing_host c s \<longleftrightarrow>
     (\<exists>r out s'. observe c s = Inr (r, out, s') \<and> sound (hush s') \<and> kept (hush s) (hush s') \<and>
       f_step (abs_fs s) (Call c) (r, out) (abs_fs s'))"

lemma as_quiet_fine:
  assumes "sound (hush s)" and "admissible c s"
    and "observe c (hush s) = bnd (observe c s) (\<lambda>(r, out, s'). Inr (r, out, hush s'))"
  shows "fine_on_failing_host c s"
proof -
  have "\<exists>r s'. run_call c (hush s) = Inr (r, s')"
    using call_fine [OF assms(1), of c] assms(2) by (auto simp: step_fine_def)
  then obtain r0 out0 s0 where q: "observe c (hush s) = Inr (r0, out0, s0)"
    by (cases c) (auto simp: bnd_eq_Inr_iff)
  with assms(3) obtain s' where s': "observe c s = Inr (r0, out0, s')" "s0 = hush s'"
    by (cases "observe c s") auto
  have st: "code_step (hush s) c (r0, out0) (hush s')"
    using assms(2) q s'(2) by (intro code_step.code) simp_all
  have "a_step (abs_fs s) c (r0, out0) (abs_fs s')"
    using api.spec_step [OF assms(1) st] by simp
  moreover have "kept (hush s) (hush s')"
    using step_call_sound(2) [OF step_call.step assms(1)] assms(2) q s'(2) observe_run_call by auto
  ultimately show ?thesis
    using s'(1) api.good_step [OF assms(1) st] by (auto simp: fine_on_failing_host_def intro: f_step.as_specified)
qed

lemma unchanged_fine:
  assumes "sound (hush s)" and "observe c s = Inr (r, out, s')" and "hush s' = hush s"
    and "f_step (abs_fs s) (Call c) (r, out) (abs_fs s)"
  shows "fine_on_failing_host c s"
proof -
  have "abs_fs s' = abs_fs s" by (metis abs_fs_hush assms(3))
  with assms show ?thesis by (simp add: fine_on_failing_host_def)
qed

lemma fs_stat_hush [simp]: "fs_stat fd (hush s) = fs_stat fd s"
  by (simp add: fs_stat_def cong: if_cong)

lemma unaffected_fine:
  assumes "sound (hush s)" and "admissible c s" and "unaffected c s" and "\<And>fd b n. c \<noteq> Read fd b n"
  shows "fine_on_failing_host c s"
  using as_quiet_fine [OF assms(1,2)] assms(3,4)
  by (cases c) (auto simp: unaffected_def bnd_assoc case_prod_unfold)

lemma abs_file_hush [simp]: "abs_file (hush s) = abs_file s"
  by (rule ext) (simp add: abs_file_def)

text \<open>
  The abstract state a failed write leaves: its file has the new blocks and the first \<open>k\<close> bytes.
\<close>

lemma half_written_abs:
  assumes "fs_ok (hush s)" and "used s i" and "used s' i" and "others_same i (hush s) (hush s')"
    and "slot_file s' i = (slot_file s i)\<lparr>first_index := first_of ys\<rparr>"
    and "slot_addr s' = slot_addr s" and "open_files s' = open_files s"
    and "grown (the_fat s) (the_fat s') (first_of ys) ys"
    and ys: "ys = slot_chain s i @ fresh_blocks (the_fat s) m"
  shows "abs_fs s' = (abs_fs s)\<lparr>a_files := (a_files (abs_fs s))(slot_name s i \<mapsto> (abs_file s i)\<lparr>a_data := file_data s' i\<rparr>),
      a_room := a_room (abs_fs s) - length (fresh_blocks (the_fat s) m)\<rparr>"
proof -
  have u: "used (hush s) i" "used (hush s') i" using assms(2,3) by simp_all
  have "filename (slot_file (hush s') i) = filename (slot_file (hush s) i)" using assms(5) by simp
  note fr = write_frame_abs [OF assms(1) u(1) assms(4) u(2) this, simplified, OF assms(8) ys]
  have "a_descs (abs_fs (hush s')) = a_descs (abs_fs (hush s))"
    by (rule abs_descs_cong [OF assms(1)]) (use assms(6,7) fr(1) in \<open>simp_all add: used_def\<close>)
  with fr(2,3) assms(5) show ?thesis by (intro afs_eqI) (simp_all add: abs_file_def)
qed

text \<open>What the new blocks of a file hold, by position.\<close>

lemma stale_bytes:
  fixes n :: nat
  assumes "fs_ok s" and "used s i"
  defines "m \<equiv> length (fresh_blocks (the_fat s) (blocks_needed n - length (slot_chain s i)))"
  obtains stale where "stale_data s i n = map stale [0..<BLOCK_SIZE * m]"
    and "length (file_data s i) div BLOCK_SIZE = length (slot_chain s i)"
    and "length (file_data s i) + BLOCK_SIZE * m = BLOCK_SIZE * length (chain_for s i n)"
proof -
  note ok = fs_okD [OF assms(1)]
  have len: "length (file_data s i) = BLOCK_SIZE * length (slot_chain s i)"
    using length_file_data [OF ok(12), of i] chains_okD(1) [OF ok(7) assms(2)] by (simp add: chain_ok_def)
  have c: "BLOCK_SIZE * length (chain_for s i n) = BLOCK_SIZE * length (slot_chain s i) + BLOCK_SIZE * m"
    by (simp add: chain_for_def m_def add_mult_distrib2)
  then have "length (stale_data s i n) = BLOCK_SIZE * m"
    using length_chain_for [OF assms(1,2), of n] by (simp add: len)
  with map_nth [of "stale_data s i n"] have "stale_data s i n = map (\<lambda>k. stale_data s i n ! k) [0..<BLOCK_SIZE * m]"
    by simp
  with len c show ?thesis by (intro that) simp_all
qed

lemma half_written_fine:
  assumes "sound (hush s)" and "open_fd s fd" and "fd_slot s fd = Some i" and "used s i"
    and n: "n = fd_pos s fd + unat count" and ys: "ys = chain_for s i n"
    and "fs_write fd (Some b) count s = Inr (-1, s')"
    and "fs_ok (hush s')" and "kept (hush s) (hush s')" and "others_same i (hush s) (hush s')" and "used s' i"
    and "slot_file s' i = (slot_file s i)\<lparr>first_index := first_of ys\<rparr>" and "slot_addr s' = slot_addr s"
    and "open_files s' = open_files s" and "grown (the_fat s) (the_fat s') (first_of ys) ys"
    and "k \<le> min (unat count) (BLOCK_SIZE * length ys - fd_pos s fd)"
    and "file_data s' i = put_data (file_data s i @ stale_data s i n) (fd_pos s fd) k b"
  shows "fine_on_failing_host (Write fd (Some b) count) s"
proof -
  have ok: "fs_ok (hush s)" using assms(1) by (simp add: sound_def)
  have i: "i < FS_FILE_MAX_COUNT" using assms(4) by (simp add: used_def)
  let ?m = "blocks_needed n - length (slot_chain s i)"
  have "sound (hush s')"
    using assms(1,10,12) i
    by (intro others_sound [OF assms(1,8), of i]) (simp_all add: others_same_def sound_def names_terminated_def)
  have u: "used (hush s) i" using assms(4) by simp
  from stale_bytes [OF ok u, of n] obtain stale where st:
    "stale_data s i n = map stale [0..<BLOCK_SIZE * length (fresh_blocks (the_fat s) ?m)]"
    "length (file_data s i) div BLOCK_SIZE = length (slot_chain s i)"
    "length (file_data s i) + BLOCK_SIZE * length (fresh_blocks (the_fat s) ?m) = BLOCK_SIZE * length ys"
    by (auto simp: ys)
  have D: "a_desc (abs_fs s) fd = Some (slot_name s i, fd_offset (the_fd s fd))"
    "a_files (abs_fs s) (slot_name s i) = Some (abs_file s i)"
    using abs_desc(1) [OF ok, of fd i] assms(2,3) by simp_all
  have M: "length (fresh_blocks (the_fat s) ?m) = min ?m (a_room (abs_fs s))"
    by (simp add: length_fresh_blocks abs_fs_simps(3))
  have "f_step (abs_fs s) (Call (Write fd (Some b) count)) (-1, None) (abs_fs s')"
    unfolding half_written_abs [OF ok assms(4,11,10,12-15) ys [unfolded chain_for_def]] assms(17) put_data_def fd_pos_def
    by (rule f_step.half_written [OF D, where stale = stale])
      (use st M assms(16) n in \<open>simp_all add: abs_file_def fd_pos_def\<close>)
  with assms(7,9) \<open>sound (hush s')\<close> show ?thesis by (simp add: fine_on_failing_host_def)
qed

lemma write_fine_on_failing_host:
  assumes "sound (hush s)" and "fd_arg fd" and "buf_arg buf count"
  shows "fine_on_failing_host (Write fd buf count) s"
proof -
  let ?c = "Write fd buf count"
  have ad: "admissible ?c s" using assms(2,3) by simp
  have ok: "fs_ok (hush s)" using assms(1) by (simp add: sound_def)
  show ?thesis
  proof (cases "open_fd s fd \<and> buf \<noteq> None \<and> count \<noteq> 0")
    case True
    then obtain b where b: "open_fd s fd" "buf = Some b" "0 < unat count" by (auto simp: unat_gt_0)
    with assms(3) have sz: "small_count count" "unat count \<le> length b" by (simp_all add: buf_arg_def)
    have "open_fd (hush s) fd" using b(1) by simp
    from fs_ok_open [OF ok this] obtain i where i: "fd_slot s fd = Some i" "used s i" "i < FS_FILE_MAX_COUNT" by auto
    let ?n = "fd_pos s fd + unat count"
    let ?ys = "chain_for s i ?n" and ?m = "blocks_needed (fd_pos s fd + unat count) - length (slot_chain s i)"
    from write_on_failing_host [OF ok b(1) i(1) sz(1) b(3) sz(2)]
    consider r s' where "fs_write fd (Some b) count s = Inr (r, s')" "fs_write fd (Some b) count (hush s) = Inr (r, hush s')"
      | s' k where "fs_write fd (Some b) count s = Inr (-1, s')"
        "fs_ok (hush s')" "kept (hush s) (hush s')" "others_same i (hush s) (hush s')" "used s' i"
        "slot_file s' i = (slot_file s i)\<lparr>first_index := first_of ?ys\<rparr>" "slot_addr s' = slot_addr s"
        "open_files s' = open_files s" "grown (the_fat s) (the_fat s') (first_of ?ys) ?ys"
        "k \<le> min (unat count) (BLOCK_SIZE * length ?ys - fd_pos s fd)"
        "file_data s' i = put_data (file_data s i @ stale_data s i ?n) (fd_pos s fd) k b"
      by metis
    then show ?thesis
    proof cases
      case (1 r s')
      with b(2) show ?thesis by (intro as_quiet_fine [OF assms(1) ad]) simp
    next
      case (2 s' k)
      with b(1,2) half_written_fine [OF assms(1) b(1) i(1,2) refl refl] show ?thesis by simp
    qed
  next
    case False
    with assms(2) show ?thesis
      by (intro as_quiet_fine [OF assms(1) ad])
        (auto simp: fs_write_def fd_rejected_cases [OF ok, simplified] split: option.split)
  qed
qed

lemma call_on_failing_host:
  assumes "sound (hush s)" and "admissible c s"
  shows "fine_on_failing_host c s"
proof (cases c)
  case (Open name)
  have "honest (apsnd hush) (no_effect s) (\<lambda>_. True) (run_call c s) (run_call c (hush s))"
    using Open fs_open_honest [of s name] by simp
  then consider "unaffected c s" | x where "run_call c s = Inr x" "no_effect s x"
    by (auto simp: honest_def unaffected_def case_prod_unfold apsnd_def map_prod_def)
  then show ?thesis
  proof cases
    case 1
    with assms Open show ?thesis by (intro unaffected_fine) auto
  next
    case (2 x)
    with Open show ?thesis
      by (cases x) (auto intro!: unchanged_fine [OF assms(1)] f_step.not_opened)
  qed
next
  case (Read fd buf count)
  from fs_read_honest [of s fd buf count]
  consider "fs_read fd buf count (hush s) = bnd (fs_read fd buf count s) (\<lambda>x. Inr (apsnd (apsnd hush) x))"
    | x where "fs_read fd buf count s = Inr x" "failed s x" by (auto simp: honest_def)
  then show ?thesis
  proof cases
    case 1
    with Read assms show ?thesis
      by (intro as_quiet_fine) (simp_all add: case_prod_unfold apsnd_def map_prod_def)
  next
    case (2 x)
    with Read show ?thesis
      by (cases x) (auto intro!: unchanged_fine [OF assms(1)] f_step.not_read)
  qed
next
  case (Write fd buf count)
  with assms write_fine_on_failing_host [of s fd buf count] show ?thesis by simp
qed (use observe_unaffected [OF assms] assms in \<open>auto intro!: unaffected_fine\<close>)

text \<open>Sessions. Everything the invariant of a session says is preserved, except that the host is calm.\<close>

inductive_cases f_code_CallE: "f_code s (Call c) r s'"
inductive_cases f_code_HostE: "f_code s (Host fs) r s'"

definition in_failing_session :: "string \<Rightarrow> fs \<Rightarrow> bool" where
  "in_failing_session path s \<longleftrightarrow> in_session path (hush s)"

interpretation unreliable: simulation f_code f_step "in_failing_session path" abs_fs for path
proof
  fix s e r s' assume s: "in_failing_session path s" "f_code s e r s'"
  then have snd: "sound (hush s)" by (simp add: in_failing_session_def in_session_def)
  have "in_failing_session path s' \<and> f_step (abs_fs s) e r (abs_fs s')"
  proof (cases e)
    case (Call c)
    with s(2) have "code_step s c r s'" by (auto elim: f_code_CallE)
    then obtain n out where c: "admissible c s" "observe c s = Inr (n, out, s')" "r = (n, out)"
      by (auto elim: code_stepE)
    with call_on_failing_host [OF snd c(1)] s(1) Call show ?thesis
      by (auto simp: fine_on_failing_host_def in_failing_session_def intro: in_session_kept)
  next
    case (Host fs)
    with s(2) have e: "r = (0, None)" "s' = failing fs s" by (auto elim: f_code_HostE)
    have "abs_fs s' = abs_fs s" by (metis abs_fs_hush e(2) hush_failing)
    with Host s(1) e show ?thesis by (simp add: in_failing_session_def f_step.host)
  qed
  then show "in_failing_session path s'" and "f_step (abs_fs s) e r (abs_fs s')" by simp_all
qed

section \<open>Unmounting\<close>

text \<open>
  \<open>fs_umount\<close> ignores the results of its transfers: with both transfers failing the disk stays as it was,
  with the first one failing it has the new directory over the old table.
\<close>

lemma umount_on_failing_host:
  assumes "mounted_on path s"
  shows "\<exists>s1. fs_umount (failing [True, True] s) = Inr (0, s1) \<and> \<not> is_disk_mounted s1 \<and>
      host_files (host (dev s1)) = host_files (host (dev s))"
    and "\<exists>s1 c. fs_umount (failing [True] s) = Inr (0, s1) \<and> host_files (host (dev s1)) path = Some c \<and>
      content_block c 0 = block_at (dev s) 0 \<and> content_block c 1 = block_at (dev s) 1 \<and> content_block c 2 = dir_image s"
proof -
  let ?s = "\<lambda>fs. failing fs s"
  from assms have m: "is_disk_mounted s" "fat_ok s" "files_ok s" "disk_ok (dev s)" "calm (dev s)"
    "num_fat_blocks (the_sb s) = 1" "root_index (the_sb s) = 2" "2 < blocks (dev s)"
    "host_fds (host (dev s)) (disk_fd (disk (dev s))) = Some path"
    by (simp_all add: mounted_on_def)
  have ok: "is_disk_mounted (?s fs)" "fat_ok (?s fs)" "files_ok (?s fs)" "the_sb (?s fs) = the_sb s"
    "dir_image (?s fs) = dir_image s" for fs
    using m(1-3) by (simp_all add: failing_def fat_ok_def files_ok_def the_sb_def the_fat_def dir_image_def
        slot_file_def slot_addr_def cong: map_cong)
  have w: "write_fat_blocks 0 1 (?s (True # fs)) = Inr ((?s (True # fs))\<lparr>dev := on_schedule fs (dev s)\<rparr>)" for fs
    using fat_okD(2) [OF m(2)] block_write_scheduled [OF m(4), of 1] m(8)
    by (subst write_fat_blocks.simps) (simp add: failing_def write_fat_blocks.simps)
  have fd: "disk_fd (disk (dev s)) \<noteq> INVALID_FD" using m(4) by (simp add: disk_ok_def)
  show "\<exists>s1. fs_umount (?s [True, True]) = Inr (0, s1) \<and> \<not> is_disk_mounted s1 \<and>
      host_files (host (dev s1)) = host_files (host (dev s))"
  proof (rule fs_umount_run [OF ok(1-3)])
    show "write_fat_blocks 0 (unat (num_fat_blocks (the_sb (?s [True, True])))) (?s [True, True]) =
        Inr ((?s [True, True])\<lparr>dev := on_schedule [True] (dev s)\<rparr>)" using w by (simp add: ok m(6))
    show "block_write (ucast (root_index (the_sb (?s [True, True])))) (dir_image (?s [True, True]))
        (on_schedule [True] (dev s)) = (-1, on_schedule [] (dev s))"
      using m(7,8) by (intro block_write_scheduled [OF m(4)]) (simp add: ok)
  qed (use fd in \<open>auto simp: host_close_def\<close>)
  have d: "on_schedule [] (dev s) = dev s" by (rule on_schedule_calm [OF m(5)])
  have l: "length (dir_image s) = BLOCK_SIZE" by (rule length_dir_image [OF m(3)])
  let ?d = "put_block 2 (dir_image s) (dev s)"
  have "disk_ok ?d" using m(4,8) l by (simp add: put_block_disk_ok)
  then have img: "host_files (host ?d) path = Some (disk_image ?d)"
    using m(9) by (elim disk_okE) simp
  have b: "content_block (disk_image ?d) 0 = block_at (dev s) 0" "content_block (disk_image ?d) 1 = block_at (dev s) 1"
    "content_block (disk_image ?d) 2 = dir_image s"
    using m(4,8) l by (simp_all flip: block_at_content add: block_at_put_other block_at_put_same)
  show "\<exists>s1 c. fs_umount (?s [True]) = Inr (0, s1) \<and> host_files (host (dev s1)) path = Some c \<and>
      content_block c 0 = block_at (dev s) 0 \<and> content_block c 1 = block_at (dev s) 1 \<and> content_block c 2 = dir_image s"
  proof (rule fs_umount_run [OF ok(1-3)])
    show "write_fat_blocks 0 (unat (num_fat_blocks (the_sb (?s [True])))) (?s [True]) =
        Inr ((?s [True])\<lparr>dev := dev s\<rparr>)" using w [of "[]"] by (simp add: ok m(6) d)
    show "block_write (ucast (root_index (the_sb (?s [True])))) (dir_image (?s [True])) (dev s) = (0, ?d)"
      using m(7,8) block_write_ok [OF m(4,5), of 2] by (simp add: ok)
  qed (use fd img b in \<open>auto simp: host_close_def\<close>)
qed

section \<open>Mounting\<close>

text \<open>Everything after the first 17 bytes of a superblock that is accepted is 0.\<close>

lemma super_block_rest:
  assumes "super_block_ok (parse_super_block p) n" and "length p = BLOCK_SIZE" and "17 \<le> k" and "k < BLOCK_SIZE"
  shows "p ! k = 0"
proof -
  have "take SUPERBLOCK_PAD_LEN (drop 17 p) = drop 17 p"
    using assms(2) by (simp add: SUPERBLOCK_PAD_LEN_def BLOCK_SIZE_def)
  moreover have "p ! k \<in> set (drop 17 p)"
    using assms(2-4) by (auto simp: in_set_conv_nth intro!: exI [of _ "k - 17"])
  ultimately show ?thesis using assms(1) by (simp add: super_block_ok_def parse_super_block_def)
qed

lemma superblock_as_directory:
  assumes "super_block_ok (parse_super_block p) n" and "length p = BLOCK_SIZE"
  shows "dir_ok p" and "\<And>i. 0 < i \<Longrightarrow> i < FS_FILE_MAX_COUNT \<Longrightarrow> c_text (filename (dir_entry p i)) = []"
    and "filename (dir_entry p 0) = take FS_FILENAME_LEN p"
proof -
  note z = super_block_rest [OF assms]
  show "dir_ok p"
    unfolding dir_ok_def
  proof (intro allI impI ballI)
    fix f x assume f: "f < FS_FILE_MAX_COUNT" and "x \<in> set (file_padding (dir_entry p f))"
    then obtain k where "k < ROOT_PAD_LEN" "x = p ! (ROOT_ENTRY_LEN * f + (FS_FILENAME_LEN + 6) + k)"
      using assms(2) by (auto simp: dir_entry_def decode_file_def in_set_conv_nth fs_sizes BLOCK_SIZE_def ac_simps)
    with f z show "x = 0" by (simp add: fs_sizes BLOCK_SIZE_def)
  qed
  show "filename (dir_entry p 0) = take FS_FILENAME_LEN p" by (simp add: dir_entry_def decode_file_def)
  fix i assume i: "0 < i" "i < FS_FILE_MAX_COUNT"
  then have "drop (ROOT_ENTRY_LEN * i) p = p ! (ROOT_ENTRY_LEN * i) # drop (Suc (ROOT_ENTRY_LEN * i)) p"
    using assms(2) by (intro Cons_nth_drop_Suc [symmetric]) (simp add: fs_sizes BLOCK_SIZE_def)
  moreover have "p ! (ROOT_ENTRY_LEN * i) = 0" using i by (intro z) (simp_all add: fs_sizes BLOCK_SIZE_def)
  ultimately show "c_text (filename (dir_entry p i)) = []"
    by (simp add: dir_entry_def decode_file_def fs_sizes c_text_Cons)
qed

text \<open>The first steps of \<open>fs_mount\<close>, when their six calls on the host succeed.\<close>

lemma load_tables_scheduled:
  fixes t :: fs
  assumes "mountable c" and "disk_ok d" and "disk_image d = c" and "blocks d = length c div BLOCK_SIZE"
    and "dev t = on_schedule (replicate 6 False @ fs) d"
  defines "p \<equiv> content_block c 0" and "b \<equiv> parse_super_block (content_block c 0)"
  defines "F \<equiv> fat_of_block (unat (num_data_blocks b)) (content_block c 1)"
  obtains t1 t2 :: fs where "block_read 0 (dev t) = (0, p, dev t1)"
    and "load_superblock (Some p) (t\<lparr>dev := dev t1\<rparr>) = (0, t2)" and "sb t2 = Ptr b"
    and "load_fat t2 = Inr (0, t2\<lparr>dev := on_schedule fs d, fat := Ptr F\<rparr>)"
    and "t2 = t\<lparr>dev := dev t2, sb := Ptr b\<rparr>"
proof -
  note mb = mountable_blocks [OF assms(1)]
  from assms(1) have m: "super_block_ok b (int (length c div BLOCK_SIZE))" "num_fat_blocks b = 1"
    "0 < num_data_blocks b" "2 * unat (num_data_blocks b) \<le> BLOCK_SIZE" "F ! 0 = FAT_EOC"
    by (auto simp: mountable_def Let_def word_less_nat_alt b_def F_def)
  let ?d = "\<lambda>fs. on_schedule fs d"
  let ?G = "False # False # fs" let ?L = "False # ?G" let ?M = "False # ?L"
  define t2 where "t2 = t\<lparr>dev := ?d ?L, sb := Ptr b\<rparr>"
  have blk: "length (content_block c k) = BLOCK_SIZE" "block_at d k = content_block c k" if "k \<le> 2" for k
    using that mb(2) assms(3,4) length_block_at [OF assms(2), of k] by (simp_all add: block_at_content)
  have b0: "block_read 0 (dev t) = (0, p, ?d ?M)"
    using block_read_scheduled(1) [OF assms(2), of 0] mb(2) assms(4) blk(2) [of 0]
    by (simp add: assms(5) p_def numeral_eq_Suc)
  have ml: "malloc (t\<lparr>dev := ?d ?M\<rparr>) = (True, t\<lparr>dev := ?d ?L\<rparr>)"
    by (simp add: malloc_def host_call_def on_schedule_def)
  have "block_disk_count (?d ?L) = block_disk_count d" by (simp add: block_disk_count_def)
  then have "block_disk_count (?d ?L) = int (length c div BLOCK_SIZE)"
    using block_disk_count_ok [OF assms(2)] assms(4) mb(1) by simp
  with m(1) have ls: "load_superblock (Some p) (t\<lparr>dev := ?d ?M\<rparr>) = (0, t2)"
    using load_superblock_run(2) [OF blk(1) ml] by (simp add: b_def p_def t2_def)
  have ml2: "malloc t2 = (True, t2\<lparr>dev := ?d ?G\<rparr>)"
    by (simp add: malloc_def host_call_def on_schedule_def t2_def)
  have "block_read 1 (?d ?G) = (0, content_block c 1, ?d fs)"
    using block_read_scheduled(1) [OF assms(2), of 1] mb(2) assms(4) blk(2) [of 1] by simp
  then have "load_fat t2 = Inr (0, t2\<lparr>dev := ?d fs, fat := Ptr F\<rparr>)"
    using load_fat_run [OF _ m(2,4,3) ml2, of "content_block c 1"] blk(1) [of 1] m(5)
    by (simp add: t2_def F_def)
  with b0 ls show ?thesis by (intro that [of "t\<lparr>dev := ?d ?M\<rparr>" t2]) (simp_all add: t2_def)
qed

text \<open>
  \<open>fs_mount\<close> ignores the result of reading the directory, the ninth call on the host. The buffer still
  holds the superblock then, and its zeros pass the check of the entries.
\<close>

lemma mount_on_failing_host:
  assumes "\<not> is_disk_mounted s" and "disk_fd (disk (dev s)) = INVALID_FD" and "calm (dev s)"
    and "0 \<le> host_next (host (dev s))" and "host_files (host (dev s)) path = Some c"
    and "mountable c" and "length (root s) = FS_FILE_MAX_COUNT"
    and "length (open_files s) = FS_OPEN_MAX_COUNT"
  defines "b \<equiv> parse_super_block (content_block c 0)"
  obtains s' where "fs_mount (Some path) (failing (replicate 8 False @ [True]) s) = Inr (0, s')"
    and "is_disk_mounted s'" and "fat_ok s'" and "the_sb s' = b" and "files_ok s'" 
    and "\<And>i. i < FS_FILE_MAX_COUNT \<Longrightarrow> slot_file s' i = dir_entry (content_block c 0) i"
    and "holds_disk path c (dev s')"
proof -
  let ?F = "fat_of_block (unat (num_data_blocks b)) (content_block c 1)"
  let ?p = "content_block c 0"
  note mb = mountable_blocks [OF assms(6)]
  from assms(6) have m: "super_block_ok b (int (length c div BLOCK_SIZE))" "num_fat_blocks b = 1"
    "length c mod BLOCK_SIZE = 0"
    by (auto simp: mountable_def Let_def b_def)
  from block_disk_open_ok [OF assms(2-5) m(3) mb(4)]
  obtain d where d0: "block_disk_open (Some path) (dev s) = (0, d)" and hd: "holds_disk path c d"
    by (auto simp: holds_disk_def)
  then have d: "disk_ok d" "calm d" "disk_image d = c" "blocks d = length c div BLOCK_SIZE" by (simp_all add: holds_disk_def)
  define s1 where "s1 = s\<lparr>dev := on_schedule (replicate 6 False @ [True]) d, is_disk_mounted := True\<rparr>"
  have ld: "load_disk (Some path) (failing (replicate 8 False @ [True]) s) = (0, s1)"
    using assms(1) block_disk_open_scheduled [OF assms(3) d0]
    by (simp add: load_disk_def failing_def s1_def numeral_eq_Suc)
  have "dev s1 = on_schedule (replicate 6 False @ [True]) d" by (simp add: s1_def)
  from load_tables_scheduled [OF assms(6) d(1,3,4) this, folded b_def]
  obtain t1 t2 :: fs where t: "block_read 0 (dev s1) = (0, ?p, dev t1)" "load_superblock (Some ?p) (s1\<lparr>dev := dev t1\<rparr>) = (0, t2)"
    "sb t2 = Ptr b" "load_fat t2 = Inr (0, t2\<lparr>dev := on_schedule [True] d, fat := Ptr ?F\<rparr>)"
    "t2 = s1\<lparr>dev := dev t2, sb := Ptr b\<rparr>" .
  define s3 where "s3 = t2\<lparr>dev := on_schedule [True] d, fat := Ptr ?F\<rparr>"
  define s4 where "s4 = with_root 0 FS_FILE_MAX_COUNT ?p (s3\<lparr>dev := d\<rparr>)"
  have s3: "sb s3 = Ptr b" "fat s3 = Ptr ?F" "is_disk_mounted s3" "root s3 = root s" "open_files s3 = open_files s"
    unfolding s3_def by (subst t(5); simp add: s1_def)+
  have l: "length ?p = BLOCK_SIZE"
    using holds_disk_block(2) [OF hd, of 0] mb(2) by simp
  have b2: "block_read (ucast (num_fat_blocks b) + 1) (dev s3) = (-1, [], d)"
    using block_read_scheduled(2) [OF d(1), of 2 "[]"] mb(2) d(4) m(2) on_schedule_calm [OF d(2)]
    by (simp add: s3_def)
  note sd = superblock_as_directory [OF m(1) [unfolded b_def] l, simplified]
  have lr: "load_root_directory (overwrite ?p 0 []) (s3\<lparr>dev := d\<rparr>) = (0, s4)"
    using load_root_directory_ok [of "s3\<lparr>dev := d\<rparr>" ?p] sd(1) d(2) assms(7) by (simp add: s4_def s3(4))
  have r: "fs_mount (Some path) (failing (replicate 8 False @ [True]) s) =
      Inr (0, s4\<lparr>open_files := map (\<lambda>_. None) (open_files s4)\<rparr>)"
    using fs_mount_run [OF ld t(1) l t(2) t(4) [folded s3_def] s3(1) b2 _ lr] by simp
  let ?t = "s3\<lparr>dev := d\<rparr>"
  have "length ?F = unat (num_data_blocks b)"
    using mountable_length_fat [OF assms(6)] by (simp add: b_def image_fat_def image_sb_def)
  with hd assms(8) s3 with_root_files_ok [OF l, of ?t] with_root_slots(2) [of _ ?p ?t] show ?thesis
    by (intro that [OF r])
      (simp_all add: s4_def with_root_def files_ok_def slot_file_def slot_addr_def fat_ok_def the_sb_def the_fat_def)
qed

end
