(* ===== verification/Stopped_Sessions.thy ===== *)
theory Stopped_Sessions
  imports Failing_Sessions
begin

text \<open>
  A session that ends without \<open>fs_umount\<close>, at any point and on a host that may fail: calls write data
  blocks only, so that the disk file keeps the superblock, the table and the directory it had when it was
  mounted, and stays consistent.
\<close>

section \<open>Images with the same metadata\<close>

text \<open>
  Two disk files of one size that agree on superblock, table and directory: they have the same names,
  sizes, chains and free blocks, and one is consistent when the other is.
\<close>

definition same_metadata :: "byte list \<Rightarrow> byte list \<Rightarrow> bool" where
  "same_metadata c c' \<longleftrightarrow>
     length c' = length c \<and> (\<forall>b \<le> 2. content_block c' b = content_block c b)"

lemma same_metadata_images:
  assumes "same_metadata c c'"
  shows "image_sb c' = image_sb c" and "image_fat c' = image_fat c" and "image_file c' = image_file c"
    and "image_used c' = image_used c" and "image_chain c' = image_chain c" and "image_catalog c' = image_catalog c"
    and "mountable c' = mountable c" and "length c' = length c"
proof -
  from assms have b: "content_block c' 0 = content_block c 0" "content_block c' 1 = content_block c 1"
    "content_block c' 2 = content_block c 2" and l: "length c' = length c"
    by (simp_all add: same_metadata_def)
  show s: "image_sb c' = image_sb c" by (simp add: image_sb_def b)
  show f: "image_fat c' = image_fat c" using b(2) by (simp add: image_fat_def s)
  show d: "image_file c' = image_file c" by (rule ext) (simp add: image_file_def b)
  show "image_used c' = image_used c" by (rule ext) (simp add: image_used_def d)
  show "image_chain c' = image_chain c" by (rule ext) (simp add: image_chain_def d f)
  show "image_catalog c' = image_catalog c" by (rule ext) (simp add: image_catalog_def d)
  show "mountable c' = mountable c" using b(2) by (simp add: mountable_def b l)
  show "length c' = length c" by (rule l)
qed

lemma same_metadata_formatted: "same_metadata c c' \<Longrightarrow> formatted c' = formatted c"
  by (simp add: formatted_def same_metadata_images)

lemma length_image_data:
  assumes "same_metadata c c'"
  shows "length (image_data c' i) = length (image_data c i)"
proof -
  have "length (blocks_content (content_block c') xs) = length (blocks_content (content_block c) xs)" for xs
    using same_metadata_images(8) [OF assms]
    by (induction xs) (simp_all add: blocks_content_def content_block_def)
  then show ?thesis by (simp add: image_data_def same_metadata_images [OF assms])
qed

lemma same_metadata_afs:
  assumes "same_metadata c c'"
  shows "map_option a_size (a_files (image_afs c') n) = map_option a_size (a_files (image_afs c) n)"
    and "map_option (\<lambda>f. length (a_data f)) (a_files (image_afs c') n) =
      map_option (\<lambda>f. length (a_data f)) (a_files (image_afs c) n)"
    and "a_room (image_afs c') = a_room (image_afs c)"
  by (simp_all add: image_afs_def option.map_comp comp_def same_metadata_images [OF assms] length_image_data [OF assms])

section \<open>A session that is not unmounted\<close>

lemma kept_run:
  assumes "runs_through f_code s tr s'" and "in_failing_session path s"
  shows "kept (hush s) (hush s')"
  using assms
proof (induction rule: runs_through.induct)
  case (some s e r s' tr s'')
  have "kept (hush s) (hush s')"
  proof (cases e)
    case (Call k)
    with some.hyps(1) have "code_step s k r s'" by (auto elim: f_code_CallE)
    then obtain n out where k: "admissible k s" "observe k s = Inr (n, out, s')" by (auto elim: code_stepE)
    moreover have "sound (hush s)" using some.prems by (simp add: in_failing_session_def in_session_def)
    ultimately show ?thesis using call_on_failing_host [of s k] by (auto simp: fine_on_failing_host_def)
  next
    case (Host fs)
    with some.hyps(1) show ?thesis by (auto elim: f_code_HostE)
  qed
  moreover have "in_failing_session path s'" by (rule unreliable.good_step [OF some.prems some.hyps(1)])
  ultimately show ?case using some.IH kept_trans by blast
qed simp

lemma disk_file:
  assumes "in_failing_session path s"
  shows "host_files (host (dev s)) path = Some (disk_image (dev s))"
    and "length (disk_image (dev s)) = BLOCK_SIZE * blocks (dev s)" and "2 < unat (data_start_index (the_sb s))"
proof -
  from assms have m: "mounted_on path (hush s)" "2 < unat (data_start_index (the_sb (hush s)))"
    by (simp_all add: in_failing_session_def in_session_def)
  then have d: "disk_ok (dev s)" "host_fds (host (dev s)) (disk_fd (disk (dev s))) = Some path"
    by (simp_all add: mounted_on_def)
  then show "host_files (host (dev s)) path = Some (disk_image (dev s))"
    and "length (disk_image (dev s)) = BLOCK_SIZE * blocks (dev s)"
    by (auto simp: disk_ok_def disk_image_def host_content_def)
  show "2 < unat (data_start_index (the_sb s))" using m(2) by simp
qed

lemma stopped_session:
  assumes "runs_through f_code s tr s'" and "in_failing_session path s"
  shows "same_metadata (disk_image (dev s)) (disk_image (dev s'))"
    and "host_files (host (dev s')) path = Some (disk_image (dev s'))"
proof -
  note k = kept_run [OF assms]
  have s': "in_failing_session path s'" by (rule unreliable.good_run [OF assms])
  show "host_files (host (dev s')) path = Some (disk_image (dev s'))" by (rule disk_file(1) [OF s'])
  have "blocks (dev s') = blocks (dev s)" using k by (simp add: kept_def blocks_def)
  moreover have "block_at (dev s') b = block_at (dev s) b" if "b \<le> 2" for b
    using k disk_file(3) [OF assms(2)] that by (auto simp: kept_def)
  ultimately show "same_metadata (disk_image (dev s)) (disk_image (dev s'))"
    using disk_file(2) [OF assms(2)] disk_file(2) [OF s'] by (simp add: same_metadata_def block_at_content)
qed

section \<open>A session whose \<open>fs_umount\<close> is refused its writes\<close>

lemma umount_refused:
  assumes "runs_through f_code s tr s'" and "in_failing_session path s" and "calm (dev s')"
  defines "c \<equiv> disk_image (dev s)"
  shows "\<exists>s1 c1. fs_umount (failing [True, True] s') = Inr (0, s1) \<and> \<not> is_disk_mounted s1 \<and>
      host_files (host (dev s1)) path = Some c1 \<and> same_metadata c c1"
    and "\<exists>s1 c1. fs_umount (failing [True] s') = Inr (0, s1) \<and> host_files (host (dev s1)) path = Some c1 \<and>
      image_sb c1 = image_sb c \<and> image_fat c1 = image_fat c \<and> (\<forall>i < FS_FILE_MAX_COUNT. image_file c1 i = slot_file s' i)"
proof -
  note st = stopped_session [OF assms(1,2), folded c_def]
  have "in_failing_session path s'" by (rule unreliable.good_run [OF assms(1,2)])
  then have m: "mounted_on path s'" using assms(3) by (simp add: in_failing_session_def hush_calm in_session_def)
  then have f: "files_ok s'" by (simp add: mounted_on_def)
  show "\<exists>s1 c1. fs_umount (failing [True, True] s') = Inr (0, s1) \<and> \<not> is_disk_mounted s1 \<and>
      host_files (host (dev s1)) path = Some c1 \<and> same_metadata c c1"
    using umount_on_failing_host(1) [OF m] st by auto
  from umount_on_failing_host(2) [OF m] obtain s1 c1 where u: "fs_umount (failing [True] s') = Inr (0, s1)"
    "host_files (host (dev s1)) path = Some c1" "content_block c1 0 = block_at (dev s') 0"
    "content_block c1 1 = block_at (dev s') 1" "content_block c1 2 = dir_image s'" by blast
  have b: "content_block c1 0 = content_block c 0" "content_block c1 1 = content_block c 1"
    using u(3,4) st(1) by (simp_all add: same_metadata_def block_at_content)
  have "image_file c1 i = slot_file s' i" if "i < FS_FILE_MAX_COUNT" for i
    using dir_image_entry [OF f that] by (simp add: image_file_def u(5))
  then show "\<exists>s1 c1. fs_umount (failing [True] s') = Inr (0, s1) \<and> host_files (host (dev s1)) path = Some c1 \<and>
      image_sb c1 = image_sb c \<and> image_fat c1 = image_fat c \<and> (\<forall>i < FS_FILE_MAX_COUNT. image_file c1 i = slot_file s' i)"
    using u(1,2) b by (intro exI [of _ s1] exI [of _ c1]) (simp add: image_sb_def image_fat_def)
qed

end
