(* ===== verification/Script.thy ===== *)
theory Script
  imports Tester
begin

text \<open>
  The script interpreter of \<open>src/apps/test_fs.c\<close> (\<open>thread_fs_script\<close>) and the dispatch of its commands
  (\<open>main\<close>). A script is a file of the host; every line is a command whose parts are separated by tabs.

  \<^item> The stream \<open>fopen\<close> returns is the rest of the file, as it was when it was opened; each \<open>fgets\<close> is
    a call of the host, which may fail.
  \<^item> \<open>command_args\<close> is an array of four pointers into the line. An entry that was not set for the
    current line is \<open>Dangling\<close>: it points into a line that is gone, or was never set.
  \<^item> A command ends the process with an exit status or goes on with the variables of the loop. A failed
    \<open>assert\<close> aborts the process, which the shell sees as status 134.
\<close>

section \<open>Reading and splitting lines\<close>

text \<open>\<open>fgets(buf, n, f)\<close>: at most \<open>n - 1\<close> bytes, up to and including a newline; nothing at the end.\<close>

definition fgets :: "nat \<Rightarrow> byte list \<Rightarrow> (byte list \<times> byte list) option" where
  "fgets n rest =
     (if rest = [] then None
      else let m = min (n - 1) (Suc (length (takeWhile (\<lambda>b. b \<noteq> 10) rest)))
           in Some (take m rest, drop m rest))"

text \<open>\<open>strtok(str, d)\<close> with one delimiter: the next token, if any, and what later calls go on with.\<close>

definition strtok :: "byte \<Rightarrow> byte list \<Rightarrow> byte list ptr \<times> byte list" where
  "strtok d str =
     (case dropWhile (\<lambda>b. b = d) str of
       [] \<Rightarrow> (Null, [])
     | b # bs \<Rightarrow> (Ptr (takeWhile (\<lambda>b. b \<noteq> d) (b # bs)), drop 1 (dropWhile (\<lambda>b. b \<noteq> d) (b # bs))))"

definition total_command_parts :: nat where
  "total_command_parts = 4"

text \<open>\<open>do { command_args[command_index] = strtok(NULL, "\t"); } while (\<dots>)\<close>.\<close>

function command_parts_from :: "nat \<Rightarrow> byte list ptr list \<Rightarrow> byte list \<Rightarrow> byte list ptr list res" where
  "command_parts_from command_index command_args str =
     (case strtok 9 str of (part, str) \<Rightarrow>
      bnd (store command_args command_index part) (\<lambda>command_args.
      if command_index < total_command_parts \<and> part \<noteq> Null
      then command_parts_from (command_index + 1) command_args str
      else Inr command_args))"
  by pat_completeness auto
termination
  by (relation "measure (\<lambda>(i, args, str). total_command_parts - i)") auto

declare command_parts_from.simps [simp del]

text \<open>The line up to its newline (or a zero byte, where a C string ends), split at the tabs.\<close>

definition line_text :: "byte list \<Rightarrow> byte list" where
  "line_text line_buffer = takeWhile (\<lambda>b. b \<noteq> 0 \<and> b \<noteq> 10) line_buffer"

definition command_parts :: "byte list \<Rightarrow> byte list ptr list res" where
  "command_parts line_buffer =
     (case strtok 9 (line_text line_buffer) of (part, str) \<Rightarrow>
      bnd (store (replicate total_command_parts Dangling) 0 part) (\<lambda>command_args.
      command_parts_from 1 command_args str))"

text \<open>\<open>atoi\<close>: white space, a sign, digits. The result of a number out of range is undefined.\<close>

definition is_space :: "byte \<Rightarrow> bool" where
  "is_space b \<longleftrightarrow> b = 32 \<or> 9 \<le> b \<and> b \<le> 13"

definition is_digit :: "byte \<Rightarrow> bool" where
  "is_digit b \<longleftrightarrow> 48 \<le> b \<and> b \<le> 57"

definition digits_value :: "byte list \<Rightarrow> int" where
  "digits_value ds = foldl (\<lambda>n b. 10 * n + (uint b - 48)) 0 (takeWhile is_digit ds)"

definition atoi :: "byte list \<Rightarrow> int res" where
  "atoi str =
     (case dropWhile is_space str of
       [] \<Rightarrow> Inr 0
     | b # bs \<Rightarrow>
         if b = 45 then c_int (- digits_value bs)
         else if b = 43 then c_int (digits_value bs)
         else c_int (digits_value (b # bs)))"

section \<open>The commands of a script\<close>

record script_vars =
  mounted :: bool
  script_fd :: int

datatype command_end = Exit int | Next_line script_vars

text \<open>\<open>die\<close> and \<open>fs_umount(); die\<close> inside the loop, and an argument passed on to the file system.\<close>

definition leave :: "(int \<times> fs) res \<Rightarrow> (command_end \<times> fs) res" where
  "leave m = bnd m (\<lambda>(status, s). Inr (Exit status, s))"

definition name_arg :: "byte list ptr \<Rightarrow> c_str res" where
  "name_arg p = (case p of Null \<Rightarrow> Inr None | Ptr text \<Rightarrow> Inr (Some text) | Dangling \<Rightarrow> Inl Use_after_free)"

definition script_mount :: "string \<Rightarrow> script_vars \<Rightarrow> fs \<Rightarrow> (command_end \<times> fs) res" where
  "script_mount diskname v s =
     bnd (fs_mount (Some diskname) s) (\<lambda>(r, s).
     if r \<noteq> 0 then leave (die s)
     else Inr (Next_line (v\<lparr>mounted := True\<rparr>), printf (''MOUNT successful.'' @ newline) [] s))"

definition script_umount :: "script_vars \<Rightarrow> fs \<Rightarrow> (command_end \<times> fs) res" where
  "script_umount v s =
     bnd (if mounted v then fs_umount s else Inr (0, s)) (\<lambda>(r, s).
     if r \<noteq> 0 then leave (die s)
     else Inr (Next_line (v\<lparr>mounted := False\<rparr>), printf (''UMOUNT successful.'' @ newline) [] s))"

definition script_create :: "byte list ptr list \<Rightarrow> script_vars \<Rightarrow> fs \<Rightarrow> (command_end \<times> fs) res" where
  "script_create command_args v s =
     bnd (bnd (fetch command_args 1) name_arg) (\<lambda>fs_filename.
     bnd (fs_create fs_filename s) (\<lambda>(r, s).
     if r \<noteq> 0 then leave (umount_and_die s)
     else Inr (Next_line v, printf (''CREATE successful.'' @ newline) [] s)))"

definition script_delete :: "byte list ptr list \<Rightarrow> script_vars \<Rightarrow> fs \<Rightarrow> (command_end \<times> fs) res" where
  "script_delete command_args v s =
     bnd (bnd (fetch command_args 1) name_arg) (\<lambda>fs_filename.
     bnd (fs_delete fs_filename s) (\<lambda>(r, s).
     if r \<noteq> 0 then leave (umount_and_die s)
     else Inr (Next_line v, printf (''DELETE successful.'' @ newline) [] s)))"

definition script_open :: "byte list ptr list \<Rightarrow> script_vars \<Rightarrow> fs \<Rightarrow> (command_end \<times> fs) res" where
  "script_open command_args v s =
     bnd (bnd (fetch command_args 1) name_arg) (\<lambda>fs_filename.
     bnd (fs_open fs_filename s) (\<lambda>(fs_fd, s).
     if fs_fd < 0 then leave (umount_and_die s)
     else Inr (Next_line (v\<lparr>script_fd := fs_fd\<rparr>), printf (''OPEN successful.'' @ newline) [] s)))"

definition script_close :: "script_vars \<Rightarrow> fs \<Rightarrow> (command_end \<times> fs) res" where
  "script_close v s =
     bnd (fs_close (script_fd v) s) (\<lambda>(r, s).
     if r \<noteq> 0 then leave (umount_and_die s)
     else Inr (Next_line v, printf (''CLOSE successful.'' @ newline) [] s))"

definition script_seek :: "byte list ptr list \<Rightarrow> script_vars \<Rightarrow> fs \<Rightarrow> (command_end \<times> fs) res" where
  "script_seek command_args v s =
     bnd (bnd (bnd (fetch command_args 1) deref) atoi) (\<lambda>offset.
     bnd (fs_lseek (script_fd v) (of_int offset) s) (\<lambda>(r, s).
     if r \<noteq> 0 then leave (umount_and_die s)
     else Inr (Next_line v, printf (''SEEK successful.'' @ newline) [] s)))"

text \<open>
  \<open>open\<close> and \<open>fstat\<close> of a file whose path is a part of the line (NULL is no path), which stays open; its
  size is stored in an \<open>int\<close>.
\<close>

definition path_of :: "byte list \<Rightarrow> string" where
  "path_of text = map (\<lambda>b. char_of (unat b)) text"

definition host_open_ptr :: "byte list ptr \<Rightarrow> host \<Rightarrow> (int \<times> host) res" where
  "host_open_ptr p h =
     (case p of
       Null \<Rightarrow> Inr (-1, h)
     | Ptr text \<Rightarrow> Inr (host_open (path_of text) h)
     | Dangling \<Rightarrow> Inl Use_after_free)"

definition int_of_size :: "nat \<Rightarrow> int" where
  "int_of_size n = signed_take_bit 31 (int n)"

text \<open>What is left of \<open>WRITE\<close> once the data and its size are known.\<close>

definition script_write_data :: "byte list option \<Rightarrow> int \<Rightarrow> script_vars \<Rightarrow> fs \<Rightarrow> (command_end \<times> fs) res" where
  "script_write_data data data_size v s =
     (if data = None then leave (umount_and_die s)
      else
      bnd (fs_write (script_fd v) data (of_int data_size) s) (\<lambda>(count, s).
      if count < 0 then leave (umount_and_die s)
      else Inr (Next_line v, printf (''Wrote %d bytes to file.'' @ newline) [Dec count] s)))"

definition script_write :: "byte list ptr list \<Rightarrow> script_vars \<Rightarrow> fs \<Rightarrow> (command_end \<times> fs) res" where
  "script_write command_args v s =
     bnd (bnd (fetch command_args 1) deref) (\<lambda>data_source.
     bnd (fetch command_args 2) (\<lambda>data_description.
     if data_source = literal ''DATA'' then
       bnd (deref data_description) (\<lambda>data.
       script_write_data (Some (c_mem data)) (int (length data)) v s)
     else if data_source = literal ''FILE'' then
       bnd (host_open_ptr data_description (host (dev s))) (\<lambda>(data_fd, h).
       if data_fd < 0 then leave (umount_and_die (set_host h s))
       else case host_fstat data_fd h of
         (None, h) \<Rightarrow> leave (umount_and_die (set_host h s))
       | (Some st_size, h) \<Rightarrow>
           let data_size = int_of_size st_size in
           (case host_mmap (unat (of_int data_size :: u64)) data_fd h of (data, h) \<Rightarrow>
            script_write_data (Some data) data_size v (set_host h s)))
     else script_write_data None 0 v s))"

text \<open>\<open>calloc(n, 1)\<close>: zeroed memory, or NULL. A negative \<open>int\<close> is a size no host can give.\<close>

definition calloc :: "int \<Rightarrow> fs \<Rightarrow> byte list option \<times> fs" where
  "calloc n s =
     (case malloc s of (obtained, s) \<Rightarrow>
       (if obtained \<and> 0 \<le> n then Some (replicate (nat n) 0) else None, s))"

text \<open>\<open>memcmp(a, b, n) == 0\<close>: both objects must have \<open>n\<close> bytes.\<close>

definition memcmp_eq :: "byte list \<Rightarrow> byte list \<Rightarrow> nat \<Rightarrow> bool res" where
  "memcmp_eq a b n =
     bnd (load_bytes a 0 n) (\<lambda>xs. bnd (load_bytes b 0 n) (\<lambda>ys. Inr (xs = ys)))"

text \<open>
  The file \<open>READ\<close> compares with, read by \<open>fopen\<close>, \<open>calloc\<close>, \<open>fread\<close>, \<open>fclose\<close> (neither \<open>fopen\<close> nor
  \<open>calloc\<close> is checked before \<open>fread\<close>); \<open>None\<close> where the \<open>assert\<close> on the number of bytes read fails.
\<close>

definition load_data_file ::
    "string \<Rightarrow> int \<Rightarrow> fs \<Rightarrow> (byte list option option \<times> fs) res" where
  "load_data_file path data_size s =
     (case host_open path (host (dev s)) of (data_file, h) \<Rightarrow>
      bnd (c_int (data_size + 1)) (\<lambda>n.
      case calloc n (set_host h s) of (data, s) \<Rightarrow>
      if data_file < 0 then Inl Null_deref
      else case host_read data_file 0 (unat (of_int data_size :: u64)) (host (dev s)) of (c, h) \<Rightarrow>
      let c = (case c of None \<Rightarrow> [] | Some c \<Rightarrow> c); s = set_host h s in
      bnd (case data of
             None \<Rightarrow> if c = [] then Inr None else Inl Null_deref
           | Some data \<Rightarrow> bnd (store_bytes data 0 c) (\<lambda>data. Inr (Some data))) (\<lambda>data.
      if (of_nat (length c) :: u64) \<noteq> of_int data_size then Inr (None, s)
      else Inr (Some data, set_host (host_close data_file (host (dev s))) s))))"

text \<open>What is left of \<open>READ\<close> once the data to compare with is known.\<close>

definition script_read_data ::
    "int \<Rightarrow> byte list option \<Rightarrow> int \<Rightarrow> script_vars \<Rightarrow> fs \<Rightarrow> (command_end \<times> fs) res" where
  "script_read_data read_req_length data data_size v s =
     (case data of
       None \<Rightarrow> leave (umount_and_die s)
     | Some data \<Rightarrow>
     if read_req_length < 0 then leave (umount_and_die s)
     else
     bnd (c_int (read_req_length + 1)) (\<lambda>n.
     case calloc n s of (read_buf, s) \<Rightarrow>
     bnd (fs_read (script_fd v) read_buf (of_int read_req_length) s) (\<lambda>(count, read_buf, s).
     if count < 0 then leave (umount_and_die s)
     else
     bnd (c_int (data_size + 1)) (\<lambda>m.
     bnd (memcmp_eq data (the read_buf) (unat (of_int m :: u64))) (\<lambda>equal.
     Inr (Next_line v,
       if equal
       then printf (''Read %d bytes from file. Compared %d correct.'' @ newline) [Dec count, Dec data_size] s
       else printf (''Read unexpected data! %s read vs given %s'' @ newline)
              [Str (c_text (the read_buf)), Str (c_text data)] s))))))"

definition script_read :: "byte list ptr list \<Rightarrow> script_vars \<Rightarrow> fs \<Rightarrow> (command_end \<times> fs) res" where
  "script_read command_args v s =
     bnd (bnd (bnd (fetch command_args 1) deref) atoi) (\<lambda>read_req_length.
     bnd (bnd (fetch command_args 2) deref) (\<lambda>data_source.
     bnd (fetch command_args 3) (\<lambda>data_description.
     if data_source = literal ''DATA'' then
       bnd (deref data_description) (\<lambda>data.
       script_read_data read_req_length (Some (c_mem data)) (int (length data)) v s)
     else if data_source = literal ''FILE'' then
       bnd (host_open_ptr data_description (host (dev s))) (\<lambda>(data_fd, h).
       if data_fd < 0 then leave (umount_and_die (set_host h s))
       else case host_fstat data_fd h of
         (None, h) \<Rightarrow> leave (umount_and_die (set_host h s))
       | (Some st_size, h) \<Rightarrow>
           let data_size = int_of_size st_size in
           bnd (bnd (deref data_description) (\<lambda>text. load_data_file (path_of text) data_size (set_host h s)))
             (\<lambda>(data, s).
           case data of
             None \<Rightarrow> Inr (Exit 134, s)
           | Some data \<Rightarrow> script_read_data read_req_length data data_size v s))
     else leave (umount_and_die s))))"

section \<open>The interpreter\<close>

text \<open>One line whose first part is \<open>command\<close>. Other first parts are skipped.\<close>

definition script_command ::
    "string \<Rightarrow> byte list \<Rightarrow> byte list ptr list \<Rightarrow> script_vars \<Rightarrow> fs \<Rightarrow> (command_end \<times> fs) res" where
  "script_command diskname command command_args v s =
     (if command = literal ''MOUNT'' then script_mount diskname v s
      else if command = literal ''UMOUNT'' then script_umount v s
      else if command = literal ''CREATE'' then script_create command_args v s
      else if command = literal ''DELETE'' then script_delete command_args v s
      else if command = literal ''OPEN'' then script_open command_args v s
      else if command = literal ''CLOSE'' then script_close v s
      else if command = literal ''SEEK'' then script_seek command_args v s
      else if command = literal ''WRITE'' then script_write command_args v s
      else if command = literal ''READ'' then script_read command_args v s
      else Inr (Next_line v, s))"

text \<open>The loop over the lines of the script, which ends at the end of the file or at a blank line.\<close>

lemma fgets_shorter: "fgets n rest = Some (line, rest') \<Longrightarrow> 1 < n \<Longrightarrow> length rest' < length rest"
  by (auto simp: fgets_def Let_def split: if_splits)

function script_lines ::
    "string \<Rightarrow> byte list \<Rightarrow> script_vars \<Rightarrow> fs \<Rightarrow> (command_end \<times> fs) res" where
  "script_lines diskname fd_script v s =
     (case host_call (host (dev s)) of (failed, h) \<Rightarrow>
      case (if failed then None else fgets 1024 fd_script) of
        None \<Rightarrow> Inr (Next_line v, set_host h s)
      | Some (line_buffer, fd_script) \<Rightarrow>
          bnd (command_parts line_buffer) (\<lambda>command_args.
          bnd (fetch command_args 0) (\<lambda>command.
          if command = Null then Inr (Next_line v, set_host h s)
          else
          bnd (deref command) (\<lambda>command.
          bnd (script_command diskname command command_args v (set_host h s)) (\<lambda>(e, s).
          case e of
            Exit status \<Rightarrow> Inr (Exit status, s)
          | Next_line v \<Rightarrow> script_lines diskname fd_script v s)))))"
  by pat_completeness auto
termination
  by (relation "measure (\<lambda>(diskname, f, v, s). length f)") (auto split: if_splits dest: fgets_shorter)

declare script_lines.simps [simp del]

definition thread_fs_script :: "string list \<Rightarrow> fs \<Rightarrow> (int \<times> fs) res" where
  "thread_fs_script argv s =
     (if length argv < 2 then die s
      else
      let diskname = argv ! 0 in
      case host_open (argv ! 1) (host (dev s)) of (fd, h) \<Rightarrow>
      if fd < 0 then die (set_host h s)
      else
      let fd_script = (case host_content fd h of None \<Rightarrow> [] | Some c \<Rightarrow> c) in
      bnd (script_lines diskname fd_script \<lparr>mounted = False, script_fd = -1\<rparr> (set_host h s)) (\<lambda>(e, s).
      case e of
        Exit status \<Rightarrow> Inr (status, s)
      | Next_line v \<Rightarrow>
          bnd (if mounted v then fs_umount s else Inr (0, s)) (\<lambda>(r, s).
          if r \<noteq> 0 then die s
          else Inr (0, set_host (host_close fd (host (dev s))) s))))"

section \<open>The dispatch of commands\<close>

definition commands :: "(string \<times> (string list \<Rightarrow> fs \<Rightarrow> (int \<times> fs) res)) list" where
  "commands =
     [(''info'', thread_fs_info), (''ls'', thread_fs_ls), (''add'', thread_fs_add), (''rm'', thread_fs_rm),
      (''cat'', thread_fs_cat), (''stat'', thread_fs_stat), (''script'', thread_fs_script)]"

text \<open>\<open>usage\<close> prints to the error stream.\<close>

definition usage :: "fs \<Rightarrow> (int \<times> fs) res" where
  "usage s = Inr (1, s)"

definition test_fs :: "string list \<Rightarrow> fs \<Rightarrow> (int \<times> fs) res" where
  "test_fs argv s =
     (case argv of
       [] \<Rightarrow> Inl Out_of_bounds
     | [program] \<Rightarrow> usage s
     | program # cmd # args \<Rightarrow>
         (case map_of commands cmd of
           None \<Rightarrow> usage s
         | Some func \<Rightarrow> func args s))"

end
