(* ===== verification/Script_Lines.thy ===== *)
theory Script_Lines
  imports Script
begin

text \<open>
  How the interpreter of scripts splits a line: its array of parts holds the texts between the tabs, or
  overflows.
\<close>

section \<open>How a line is split\<close>

fun fields :: "byte \<Rightarrow> byte list \<Rightarrow> byte list list" where
  "fields d [] = [[]]"
| "fields d (b # bs) =
     (if b = d then [] # fields d bs
      else (case fields d bs of [] \<Rightarrow> [[b]] | x # xs \<Rightarrow> (b # x) # xs))"

definition tokens :: "byte \<Rightarrow> byte list \<Rightarrow> byte list list" where
  "tokens d str = filter (\<lambda>x. x \<noteq> []) (fields d str)"

lemma fields_not_Nil [simp]: "fields d str \<noteq> []"
  by (induction str) (auto split: list.splits)

lemma fields_append:
  assumes "d \<notin> set xs"
  shows "fields d (xs @ ys) = (xs @ hd (fields d ys)) # tl (fields d ys)"
  using assms by (induction xs) auto

lemma fields_join: "d \<notin> set xs \<Longrightarrow> fields d (xs @ d # ys) = xs # fields d ys"
  by (simp add: fields_append)

lemma tokens_simps [simp]:
  "tokens d [] = []" "tokens d (d # ys) = tokens d ys"
  "d \<notin> set xs \<Longrightarrow> xs \<noteq> [] \<Longrightarrow> tokens d (xs @ d # ys) = xs # tokens d ys"
  by (simp_all add: tokens_def fields_join)

lemma tokens_single: "d \<notin> set xs \<Longrightarrow> xs \<noteq> [] \<Longrightarrow> tokens d xs = [xs]"
  using fields_append [of d xs "[]"] by (simp add: tokens_def)

lemma tokens_dropWhile: "tokens d (dropWhile (\<lambda>b. b = d) str) = tokens d str"
  by (induction str) auto

lemma strtok_tokens:
  "case tokens d str of
     [] \<Rightarrow> strtok d str = (Null, [])
   | x # xs \<Rightarrow> \<exists>rest. strtok d str = (Ptr x, rest) \<and> tokens d rest = xs"
proof (cases "dropWhile (\<lambda>b. b = d) str")
  case Nil
  have "tokens d str = []" using tokens_dropWhile [of d str, unfolded Nil] by simp
  then show ?thesis by (simp add: strtok_def Nil del: dropWhile_eq_Nil_conv)
next
  case (Cons b bs)
  let ?t = "takeWhile (\<lambda>b. b \<noteq> d) (b # bs)" and ?r = "dropWhile (\<lambda>b. b \<noteq> d) (b # bs)"
  have b: "b \<noteq> d" using Cons hd_dropWhile [of "\<lambda>b. b = d" str] by simp
  then have t: "d \<notin> set ?t" "?t \<noteq> []" by (auto dest: set_takeWhileD)
  have "tokens d (?t @ ?r) = ?t # tokens d (drop 1 ?r)"
  proof (cases ?r)
    case Nil
    then show ?thesis using tokens_single [OF t] by simp
  next
    case (Cons y ys)
    then have "y = d" using hd_dropWhile [of "\<lambda>b. b \<noteq> d" "b # bs"] by simp
    with Cons tokens_simps(3) [OF t] show ?thesis by simp
  qed
  then have "tokens d str = ?t # tokens d (drop 1 ?r)"
    using tokens_dropWhile [of d str] unfolding takeWhile_dropWhile_id Cons by simp
  with Cons show ?thesis by (simp add: strtok_def)
qed

lemma command_parts_from_tokens:
  assumes "0 < i" and "i \<le> total_command_parts" and "length args = total_command_parts"
  shows "command_parts_from i args str =
    (if i + length (tokens 9 str) < total_command_parts
     then Inr (take i args @ map Ptr (tokens 9 str) @ Null # drop (Suc (i + length (tokens 9 str))) args)
     else Inl Out_of_bounds)"
  using assms
proof (induction "tokens 9 str" arbitrary: i args str)
  case Nil
  then have "strtok 9 str = (Null, [])" using strtok_tokens [of 9 str] by simp
  with Nil show ?case
    by (auto simp: command_parts_from.simps [of i] store_def upd_conv_take_nth_drop)
next
  case (Cons x xs)
  then obtain rest where r: "strtok 9 str = (Ptr x, rest)" "tokens 9 rest = xs"
    using strtok_tokens [of 9 str] by (simp split: list.splits) metis
  show ?case
  proof (cases "i < total_command_parts")
    case True
    with Cons.prems Cons.hyps(1) [of rest "i + 1" "args[i := Ptr x]"] r Cons.hyps(2) [symmetric] show ?thesis
      by (auto simp: command_parts_from.simps [of i] store_def take_Suc_conv_app_nth)
  next
    case False
    with Cons.prems have i: "i = total_command_parts" by simp
    with r Cons.prems Cons.hyps(2) [symmetric] show ?thesis
      by (subst command_parts_from.simps) (simp add: store_def)
  qed
qed

definition part_array :: "byte list list \<Rightarrow> byte list ptr list" where
  "part_array parts =
     (if parts = [] then [Null, Null, Dangling, Dangling]
      else map Ptr parts @ Null # replicate (3 - length parts) Dangling)"

lemma command_parts_tokens:
  "command_parts line =
    (let parts = tokens 9 (line_text line)
     in if length parts \<le> 3 then Inr (part_array parts) else Inl Out_of_bounds)"
proof (cases "tokens 9 (line_text line)")
  have a: "store (replicate total_command_parts Dangling) 0 p = Inr (p # replicate 3 Dangling)" for p :: "byte list ptr"
    by (simp add: store_def total_command_parts_def numeral_eq_Suc)
  {
    case Nil
    then have s: "strtok 9 (line_text line) = (Null, [])" using strtok_tokens [of 9 "line_text line"] by simp
    have "command_parts_from 1 (Null # replicate 3 Dangling) [] = Inr [Null, Null, Dangling, Dangling]"
      by (subst command_parts_from_tokens) (simp_all add: total_command_parts_def numeral_eq_Suc)
    with Nil s a show ?thesis by (simp add: command_parts_def part_array_def)
  next
    case (Cons x xs)
    then obtain rest where r: "strtok 9 (line_text line) = (Ptr x, rest)" "tokens 9 rest = xs"
      using strtok_tokens [of 9 "line_text line"] by auto
    have "command_parts_from 1 (Ptr x # replicate 3 Dangling) rest =
      (if length xs < 3 then Inr (Ptr x # map Ptr xs @ Null # replicate (2 - length xs) Dangling)
       else Inl Out_of_bounds)"
      by (subst command_parts_from_tokens) (simp_all add: total_command_parts_def r)
    with Cons r a show ?thesis by (auto simp: command_parts_def part_array_def Let_def)
  }
qed

section \<open>Lines made of parts\<close>

fun join_tabs :: "byte list list \<Rightarrow> byte list" where
  "join_tabs [] = []"
| "join_tabs [p] = p"
| "join_tabs (p # ps) = p @ 9 # join_tabs ps"

definition line_of :: "byte list list \<Rightarrow> byte list" where
  "line_of parts = join_tabs parts @ [10]"

definition clean_part :: "byte list \<Rightarrow> bool" where
  "clean_part p \<longleftrightarrow> p \<noteq> [] \<and> 0 \<notin> set p \<and> 9 \<notin> set p \<and> 10 \<notin> set p"

definition good_line :: "byte list list \<Rightarrow> bool" where
  "good_line parts \<longleftrightarrow>
     parts \<noteq> [] \<and> length parts \<le> 3 \<and> (\<forall>p \<in> set parts. clean_part p) \<and> length (line_of parts) \<le> 1023"

lemma tokens_join: "\<forall>p \<in> set parts. clean_part p \<Longrightarrow> tokens 9 (join_tabs parts) = parts"
  by (induction parts rule: join_tabs.induct) (simp_all add: clean_part_def tokens_single)

lemma join_tabs_clean: "\<forall>p \<in> set parts. clean_part p \<Longrightarrow> b \<in> set (join_tabs parts) \<Longrightarrow> b \<noteq> 0 \<and> b \<noteq> 10"
  by (induction parts rule: join_tabs.induct) (auto simp: clean_part_def)

lemma command_parts_line_of:
  assumes "\<forall>p \<in> set parts. clean_part p"
  shows "command_parts (line_of parts) = (if length parts \<le> 3 then Inr (part_array parts) else Inl Out_of_bounds)"
proof -
  have "line_text (line_of parts) = join_tabs parts"
    using join_tabs_clean [OF assms] unfolding line_text_def line_of_def by (subst takeWhile_append2) auto
  then show ?thesis by (simp add: command_parts_tokens tokens_join [OF assms])
qed

lemma fgets_line_of:
  assumes "\<forall>p \<in> set parts. clean_part p" and "length (line_of parts) < n"
  shows "fgets n (line_of parts @ rest) = Some (line_of parts, rest)"
proof -
  have "takeWhile (\<lambda>b. b \<noteq> 10) (line_of parts @ rest) = join_tabs parts"
    using join_tabs_clean [OF assms(1)] unfolding line_of_def append_assoc by (subst takeWhile_append2) auto
  with assms(2) show ?thesis by (simp add: fgets_def Let_def line_of_def)
qed

lemma set_host_same [simp]: "set_host (host (dev s)) s = s"
  by (simp add: set_host_def)

lemma script_lines_line:
  assumes "good_line parts" and "calm (dev s)"
  shows "script_lines d (line_of parts @ rest) v s =
    bnd (script_command d (hd parts) (part_array parts) v s) (\<lambda>(e, s).
      case e of Exit status \<Rightarrow> Inr (Exit status, s) | Next_line v \<Rightarrow> script_lines d rest v s)"
proof -
  from assms(1) obtain p ps where p: "parts = p # ps" by (cases parts) (simp_all add: good_line_def)
  from assms show ?thesis
    by (subst script_lines.simps)
      (simp add: calm_def good_line_def fgets_line_of command_parts_line_of, simp add: p part_array_def fetch_def)
qed

lemma script_lines_end: "calm (dev s) \<Longrightarrow> script_lines d [] v s = Inr (Next_line v, s)"
  by (subst script_lines.simps) (simp add: calm_def fgets_def)

end
