(* ===== verification/Kept_States.thy ===== *)
theory Kept_States
  imports System
begin

text \<open>
  What every call keeps, proved once for any property of states: the locale \<open>kept_by_calls\<close> lists what
  the single steps of the calls on a mounted disk (a table entry, a file object, a descriptor, a transfer
  of a block) must keep, \<open>kept_by_descriptors\<close> those of opening and closing, \<open>kept_by_loading\<close> and
  \<open>kept_by_mounting\<close> those of mounting and unmounting; their lemmas follow each function through all its
  paths. The interpretations are in the theories that state the properties.
\<close>

section \<open>Calls on a mounted disk\<close>

text \<open>
  \<open>K\<close> is the property; \<open>okf\<close> says which objects the state may hold at an address, \<open>okd\<close> which pointers a
  descriptor may hold.
\<close>

locale kept_by_calls =
  fixes K :: "fs \<Rightarrow> bool" and okf :: "addr \<Rightarrow> File \<Rightarrow> bool" and okd :: "nat \<Rightarrow> addr option \<Rightarrow> bool"
  assumes fat_kept: "K s \<Longrightarrow> K (with_fat F s)"
    and printf_kept: "K s \<Longrightarrow> K (printf fmt args s)"
    and block_read_kept: "block_read i (dev s) = (r, data, d) \<Longrightarrow> K s \<Longrightarrow> K (s\<lparr>dev := d\<rparr>)"
    and block_write_kept: "block_write i bytes (dev s) = (r, d) \<Longrightarrow> length bytes = BLOCK_SIZE \<Longrightarrow> K s \<Longrightarrow> K (s\<lparr>dev := d\<rparr>)"
    and file_kept: "okf a f \<Longrightarrow> K s \<Longrightarrow> K (set_file a f s)"
    and fd_kept: "okd fd (fd_file e) \<Longrightarrow> K s \<Longrightarrow> K (set_fd_entry fd (Some e) s)"
    and file_found: "file_at p s = Inr (a, f) \<Longrightarrow> K s \<Longrightarrow> okf a f"
    and fd_found: "fd_entry fd s = Inr e \<Longrightarrow> K s \<Longrightarrow> okd fd (fd_file e)"
    and entry_kept: "okf a f \<Longrightarrow> length arr = length (filename f) \<Longrightarrow>
      okf a (f\<lparr>filename := arr, file_size := n32, first_index := first\<rparr>)"

text \<open>Opening and closing descriptors also allocates one, counts them and clears slots of the table.\<close>

locale kept_by_descriptors = kept_by_calls +
  assumes count_kept: "K s \<Longrightarrow> K (s\<lparr>num_open_files := count\<rparr>)"
    and malloc_kept: "malloc s = (obtained, s') \<Longrightarrow> K s \<Longrightarrow> K s'"
    and closed_kept: "K s \<Longrightarrow> K (set_fd_entry fd None s)"
    and slot_found: "fetch (root s) j = Inr p \<Longrightarrow> K s \<Longrightarrow> okd fd p"

lemma stored_length:
  "store xs i x = Inr ys \<Longrightarrow> length ys = length xs" "store_bytes xs i zs = Inr ys \<Longrightarrow> length ys = length xs"
  by (auto simp: store_def store_bytes_def split: if_splits)

context kept_by_calls
begin

lemma updates_kept:
  assumes "okf a f"
  shows "okf a (f\<lparr>file_size := n\<rparr>)" and "okf a (f\<lparr>first_index := i\<rparr>)"
  using entry_kept [OF assms, of "filename f" "first_index f" n] entry_kept [OF assms, of "filename f" i "file_size f"]
  by simp_all

lemma transfer_kept:
  "K s \<Longrightarrow> K (s\<lparr>dev := snd (snd (block_read i (dev s)))\<rparr>)" 
  "length bytes = BLOCK_SIZE \<Longrightarrow> K s \<Longrightarrow> K (s\<lparr>dev := snd (block_write i bytes (dev s))\<rparr>)"
  using block_read_kept [of i s] block_write_kept [of i bytes s] by (metis prod.collapse)+

lemma records_kept:
  "okf a f \<Longrightarrow> K s \<Longrightarrow> K (set_file a (f\<lparr>file_size := n\<rparr>) s)"
  "okf a f \<Longrightarrow> K s \<Longrightarrow> K (set_file a (f\<lparr>first_index := i\<rparr>) s)"
  "okd fd p \<Longrightarrow> K s \<Longrightarrow> K (set_fd_entry fd (Some \<lparr>fd_file = p, fd_offset = pos\<rparr>) s)"
  "okd fd (fd_file d) \<Longrightarrow> K s \<Longrightarrow> K (set_fd_entry fd (Some (d\<lparr>fd_offset := pos\<rparr>)) s)"
  by (auto intro: file_kept fd_kept updates_kept)

lemmas simple_kept [simp] =
  fat_kept printf_kept block_read_kept block_write_kept transfer_kept records_kept

lemma root_entry_found: "root_entry i s = Inr (a, f) \<Longrightarrow> K s \<Longrightarrow> okf a f"
  by (auto simp: root_entry_def bnd_eq_Inr_iff dest: file_found)

lemma opened_file_found: "opened_file fd s = Inr (a, f) \<Longrightarrow> K s \<Longrightarrow> okf a f"
  by (auto simp: opened_file_def bnd_eq_Inr_iff dest: file_found)

text \<open>The table.\<close>

lemma fat_set_kept: "fat_set i v s = Inr s' \<Longrightarrow> K s \<Longrightarrow> K s'"
  by (auto simp: fat_set_def bnd_eq_Inr_iff)

lemma extend_chain_kept: "extend_chain b n target s = Inr (r, s') \<Longrightarrow> K s \<Longrightarrow> K s'"
proof (induction b n target s rule: extend_chain.induct)
  case (1 b n target s)
  from "1.prems"(1) consider "s' = s" | i s1 s2 where "n < target" "find_free_entry s = Inr (Some i)"
    "fat_set (unat b) (of_nat i) s = Inr s1" "fat_set i FAT_EOC s1 = Inr s2"
    "extend_chain (of_nat i) (n + 1) target s2 = Inr (r, s')"
    by (subst (asm) extend_chain.simps) (auto simp: bnd_eq_Inr_iff split: if_splits option.splits)
  then show ?case
  proof cases
    case 2
    with "1.IH" [OF 2(1,2) refl 2(3,4,5)] "1.prems"(2) show ?thesis by (blast dest: fat_set_kept)
  qed (use "1.prems"(2) in simp)
qed

lemma allocate_first_block_kept:
  assumes "allocate_first_block a f s = Inr (r, s')" and "K s" and "okf a f"
  shows "K s'"
proof -
  from assms(1) consider "s' = s" | i s1 where "fat_set i FAT_EOC s = Inr s1"
    "s' = set_file a (f\<lparr>first_index := of_nat i\<rparr>) s1"
    by (auto simp: allocate_first_block_def bnd_eq_Inr_iff split: option.splits)
  then show ?thesis using assms(2,3) by cases (auto dest: fat_set_kept intro!: file_kept updates_kept)
qed

lemma allocate_blocks_kept:
  assumes "allocate_blocks_in_fat fd target s = Inr (r, s')" and "K s"
  shows "K s'"
proof (cases "target \<le> 0")
  case False
  with assms(1) obtain a f found s1 where o: "opened_file fd s = Inr (a, f)"
    and f: "(if first_index f = FAT_EOC then allocate_first_block a f s else Inr (True, s)) = Inr (found, s1)"
    and e: "s' = s1 \<or> (\<exists>b n. extend_chain b n target s1 = Inr (r, s'))"
    by (fastforce simp: allocate_blocks_in_fat_def bnd_eq_Inr_iff split: if_splits)
  have "K s1"
    using f assms(2) allocate_first_block_kept [OF _ assms(2) opened_file_found [OF o assms(2)]]
    by (auto split: if_splits)
  with e show ?thesis by (auto dest: extend_chain_kept)
qed (use assms in \<open>simp add: allocate_blocks_in_fat_def\<close>)

lemma free_chain_loop_kept: "free_chain_loop b s = Some (Inr (b', s')) \<Longrightarrow> K s \<Longrightarrow> K s'"
proof -
  have "\<forall>b' s'. r = Inr (b', s') \<longrightarrow> K s \<longrightarrow> K s'" if "free_chain_loop b s = Some r" for r
    using that
    by (rule free_chain_loop.raw_induct [rotated])
      (auto split: sum.splits if_splits dest: fat_set_kept)
  then show "free_chain_loop b s = Some (Inr (b', s')) \<Longrightarrow> K s \<Longrightarrow> K s'" by blast
qed

lemma free_file_blocks_kept: "free_file_blocks b s = Inr s' \<Longrightarrow> K s \<Longrightarrow> K s'"
  by (auto simp: free_file_blocks_def bnd_eq_Inr_iff returns_def split: if_splits option.splits
      dest: free_chain_loop_kept fat_set_kept)

text \<open>The calls on a mounted disk.\<close>

lemma fs_create_kept:
  assumes "fs_create name s = Inr (r, s')" and "K s"
  shows "K s'"
proof (cases "s' = s")
  case False
  with assms(1) obtain i a f arr arr' where f: "root_entry i s = Inr (a, f)"
    "store_bytes (filename f) 0 (take (strlen (the name)) (c_mem (the name))) = Inr arr"
    "store arr (strlen (the name)) 0 = Inr arr'"
    "s' = set_file a (f\<lparr>filename := arr', file_size := 0, first_index := FAT_EOC\<rparr>) s"
    by (auto simp: fs_create_def Let_def bnd_eq_Inr_iff split: if_splits)
  with root_entry_found [OF f(1) assms(2)] stored_length(1) [OF f(3)] stored_length(2) [OF f(2)] assms(2) show ?thesis
    by (auto intro!: file_kept entry_kept)
qed (use assms(2) in simp)

lemma fs_delete_kept:
  assumes "fs_delete name s = Inr (r, s')" and "K s"
  shows "K s'"
proof (cases "s' = s")
  case False
  with assms(1) obtain i a f s1 arr where f: "root_entry i s = Inr (a, f)"
    "free_file_blocks (first_index f) s = Inr s1" "store (filename f) 0 0 = Inr arr"
    "s' = set_file a (f\<lparr>filename := arr, file_size := 0, first_index := FAT_EOC\<rparr>) s1"
    by (auto simp: fs_delete_def Let_def bnd_eq_Inr_iff split: if_splits)
  with root_entry_found [OF f(1) assms(2)] stored_length(1) [OF f(3)] free_file_blocks_kept [OF f(2) assms(2)]
  show ?thesis by (auto intro!: file_kept entry_kept)
qed (use assms(2) in simp)

lemma ls_entries_kept: "ls_entries i s = Inr s' \<Longrightarrow> K s \<Longrightarrow> K s'"
proof (induction i s rule: ls_entries.induct)
  case (1 i s)
  show ?case
  proof (cases "i < FS_FILE_MAX_COUNT")
    case True
    with "1.prems"(1) obtain a f c where f: "root_entry i s = Inr (a, f)" "fetch (filename f) 0 = Inr c"
      unfolding ls_entries.simps [of i s] by (auto simp only: bnd_eq_Inr_iff if_True prod.case split_paired_Ex)
    note ih = "1.IH" [OF True f(1) refl f(2)]
    show ?thesis
    proof (cases "c = 0")
      case True
      with f \<open>i < FS_FILE_MAX_COUNT\<close> "1.prems" ih(2) show ?thesis
        unfolding ls_entries.simps [of i s] by (auto simp: fetch_def)
    next
      case False
      with f \<open>i < FS_FILE_MAX_COUNT\<close> "1.prems" ih(1) show ?thesis
        unfolding ls_entries.simps [of i s] by (auto simp: bnd_eq_Inr_iff)
    qed
  next
    case False
    with "1.prems" show ?thesis unfolding ls_entries.simps [of i s] by simp
  qed
qed

lemma fs_ls_kept: "fs_ls s = Inr (r, s') \<Longrightarrow> K s \<Longrightarrow> K s'"
  by (auto simp: fs_ls_def bnd_eq_Inr_iff dest: ls_entries_kept)

lemma fs_info_kept: "fs_info s = Inr (r, s') \<Longrightarrow> K s \<Longrightarrow> K s'"
  by (auto simp: fs_info_def Let_def bnd_eq_Inr_iff split: if_splits)

lemma fs_lseek_kept: "fs_lseek fd offset s = Inr (r, s') \<Longrightarrow> K s \<Longrightarrow> K s'"
  by (auto simp: fs_lseek_def Let_def bnd_eq_Inr_iff fd_found split: if_splits)

text \<open>Reading and writing.\<close>

lemma read_bounce_length: "read_bounce i s = Inr (r, b, s') \<Longrightarrow> length b = BLOCK_SIZE"
  by (auto simp: read_bounce_def bnd_eq_Inr_iff dest!: stored_length(2) split: prod.splits)

lemma read_bounce_kept: "read_bounce i s = Inr (r, b, s') \<Longrightarrow> K s \<Longrightarrow> K s'"
  by (auto simp: read_bounce_def bnd_eq_Inr_iff split: prod.splits)

lemma discard_read_kept [simp]: "K s \<Longrightarrow> K (discard_read i s)"
  by (simp add: discard_read_def split: prod.splits)

lemma write_first_block_kept:
  assumes "write_first_block fd buf count offset s = Inr (r, s')" and "K s"
  shows "K s'"
proof -
  from assms(1) consider "s' = s" | i rb b where "read_bounce i s = Inr (rb, b, s')"
    | i rb b s1 w j src bytes where "read_bounce i s = Inr (rb, b, s1)" "store_bytes b j src = Inr bytes"
        "s' = s1\<lparr>dev := snd (block_write w bytes (dev s1))\<rparr>"
    by (simp add: write_first_block_def Let_def bnd_eq_Inr_iff case_prod_unfold split: if_splits option.splits)
      (metis prod.collapse)+
  then show ?thesis
  proof cases
    case (3 i rb b s1 w j src bytes)
    show ?thesis
      unfolding 3(3)
      by (rule transfer_kept(2)) (simp_all add: stored_length(2) [OF 3(2)] read_bounce_length [OF 3(1)] read_bounce_kept [OF 3(1) assms(2)])
  qed (use assms(2) in \<open>auto dest: read_bounce_kept\<close>)
qed

lemma write_last_block_kept:
  assumes "write_last_block fd buf target n rem s = Inr (r, s')" and "K s"
  shows "K s'"
proof -
  from assms(1) consider "s' = s" | i rb b where "read_bounce i s = Inr (rb, b, s')"
    | i rb b s1 w j src bytes where "read_bounce i s = Inr (rb, b, s1)" "store_bytes b j src = Inr bytes"
        "s' = s1\<lparr>dev := snd (block_write w bytes (dev s1))\<rparr>"
    by (simp add: write_last_block_def Let_def bnd_eq_Inr_iff case_prod_unfold split: if_splits option.splits)
      (metis prod.collapse)+
  then show ?thesis
  proof cases
    case (3 i rb b s1 w j src bytes)
    show ?thesis
      unfolding 3(3)
      by (rule transfer_kept(2)) (simp_all add: stored_length(2) [OF 3(2)] read_bounce_length [OF 3(1)] read_bounce_kept [OF 3(1) assms(2)])
  qed (use assms(2) in \<open>auto dest: read_bounce_kept\<close>)
qed

lemma write_full_blocks_kept:
  "write_full_blocks fd buf i n bytes s = Inr (r, s') \<Longrightarrow> K s \<Longrightarrow> K s'"
proof (induction fd buf i n bytes s rule: write_full_blocks.induct)
  case (1 fd buf i n bytes s)
  show ?case
  proof (cases "i < n \<and> (\<exists>x. data_block fd i s = Inr (Some x))")
    case True
    then obtain x where x: "i < n" "data_block fd i s = Inr (Some x)" by blast
    with "1.prems"(1) obtain src where src: "load_bytes buf (nat bytes) BLOCK_SIZE = Inr src"
      unfolding write_full_blocks.simps [of fd buf i n bytes s] by (auto simp: bnd_eq_Inr_iff)
    then have len: "length src = BLOCK_SIZE" by (auto simp: load_bytes_def split: if_splits)
    obtain ws d where w: "block_write (ucast x) src (dev s) = (ws, d)" by fastforce
    note kept = block_write_kept [OF w len "1.prems"(2)]
    from kept "1.prems" x src w "1.IH" [OF x refl src w [symmetric] refl] show ?thesis
      unfolding write_full_blocks.simps [of fd buf i n bytes s]
      by (auto simp: Let_def bnd_eq_Inr_iff split: if_splits)
  next
    case False
    with "1.prems" show ?thesis
      unfolding write_full_blocks.simps [of fd buf i n bytes s]
      by (auto simp: bnd_eq_Inr_iff split: if_splits option.splits)
  qed
qed

lemma finish_write_kept: "finish_write fd n s = Inr (r, s') \<Longrightarrow> K s \<Longrightarrow> K s'"
  by (auto simp: finish_write_def Let_def bnd_eq_Inr_iff fd_found dest!: opened_file_found)

lemma and_then_kept:
  assumes "and_then m k = Inr (r, s')" and "\<And>x s1. m = Inr (x, s1) \<Longrightarrow> K s1"
    and "\<And>n s1. K s1 \<Longrightarrow> k n s1 = Inr (r, s') \<Longrightarrow> K s'"
  shows "K s'"
proof -
  from assms(1) obtain x s1 where m: "m = Inr (x, s1)" by (auto simp: and_then_def bnd_eq_Inr_iff)
  with assms show ?thesis by (cases x) (auto simp: and_then_def)
qed

lemma write_rest_kept:
  assumes "write_rest fd buf count offset target i n s = Inr (r, s')" and "K s"
  shows "K s'"
proof -
  from assms(1) obtain e where "and_then (write_full_blocks fd buf (uint i) e n s) (\<lambda>n s.
      let rem = remainder count n in
      and_then (if rem \<noteq> 0 then write_last_block fd buf target n rem s else Inr (Next n, s)) (finish_write fd)) = Inr (r, s')"
    by (auto simp: write_rest_def bnd_eq_Inr_iff)
  then show ?thesis
    by (rule and_then_kept)
      (auto simp: Let_def assms(2) elim!: and_then_kept split: if_splits
        intro: write_full_blocks_kept [OF _ assms(2)] write_last_block_kept finish_write_kept)
qed

lemma fs_write_kept:
  assumes "fs_write fd buf count s = Inr (r, s')" and "K s"
  shows "K s'"
proof (cases "s' = s")
  case False
  with assms(1) obtain b target a s1 pos i where w: "allocate_blocks_in_fat (nat fd) target s = Inr (a, s1)"
    "and_then (write_first_block (nat fd) b count pos s1) (write_rest (nat fd) b count pos target (i + 1)) = Inr (r, s') \<or>
     write_rest (nat fd) b count pos target i 0 s1 = Inr (r, s')"
    by (auto simp: fs_write_def Let_def bnd_eq_Inr_iff split: if_splits option.splits) blast+
  have "K s1" by (rule allocate_blocks_kept [OF w(1) assms(2)])
  with w(2) show ?thesis
    by (auto elim!: and_then_kept intro: write_rest_kept write_first_block_kept)
qed (use assms(2) in simp)

lemma read_first_block_kept:
  assumes "read_first_block fd buf count offset s = Inr (r, b, s')" and "K s"
  shows "K s'"
proof (cases "s' = s")
  case False
  with assms(1) obtain i rb c where "read_bounce i s = Inr (rb, c, s')"
    by (auto simp: read_first_block_def Let_def bnd_eq_Inr_iff split: if_splits option.splits)
  then show ?thesis by (rule read_bounce_kept [OF _ assms(2)])
qed (use assms(2) in simp)

lemma read_last_block_kept:
  assumes "read_last_block fd buf target n rem s = Inr (r, b, s')" and "K s"
  shows "K s'"
proof (cases "s' = s")
  case False
  with assms(1) obtain i rb c s1 where "read_bounce i s = Inr (rb, c, s1)" "s' = s1 \<or> s' = discard_read i s1"
    by (auto simp: read_last_block_def Let_def bnd_eq_Inr_iff split: if_splits option.splits)
  with read_bounce_kept [OF this(1) assms(2)] show ?thesis by auto
qed (use assms(2) in simp)

lemma read_full_blocks_kept:
  "read_full_blocks fd buf i n bytes s = Inr (r, b, s') \<Longrightarrow> K s \<Longrightarrow> K s'"
proof (induction fd buf i n bytes s rule: read_full_blocks.induct)
  case (1 fd buf i n bytes s)
  show ?case
  proof (cases "i < n \<and> (\<exists>x. data_block fd i s = Inr (Some x))")
    case True
    then obtain x where x: "i < n" "data_block fd i s = Inr (Some x)" by blast
    obtain rs data d where w: "block_read (ucast x) (dev s) = (rs, data, d)" by (cases "block_read (ucast x) (dev s)")
    with "1.prems"(1) x obtain buf' where b: "store_bytes buf (nat bytes) data = Inr buf'"
      unfolding read_full_blocks.simps [of fd buf i n bytes s] by (auto simp: bnd_eq_Inr_iff)
    from "1.prems" x w b "1.IH" [OF x refl w [symmetric] refl b refl] show ?thesis
      unfolding read_full_blocks.simps [of fd buf i n bytes s]
      by (auto simp: Let_def bnd_eq_Inr_iff split: if_splits)
  next
    case False
    with "1.prems" show ?thesis
      unfolding read_full_blocks.simps [of fd buf i n bytes s]
      by (auto simp: bnd_eq_Inr_iff split: if_splits option.splits)
  qed
qed

lemma and_then_buf_kept:
  assumes "and_then_buf m k = Inr (r, b, s')" and "\<And>x b1 s1. m = Inr (x, b1, s1) \<Longrightarrow> K s1"
    and "\<And>n b1 s1. K s1 \<Longrightarrow> k n b1 s1 = Inr (r, b, s') \<Longrightarrow> K s'"
  shows "K s'"
proof -
  from assms(1) obtain x b1 s1 where m: "m = Inr (x, b1, s1)" by (auto simp: and_then_buf_def bnd_eq_Inr_iff)
  with assms show ?thesis by (cases x) (auto simp: and_then_buf_def)
qed

lemma finish_read_kept: "finish_read fd n buf s = Inr (r, b, s') \<Longrightarrow> K s \<Longrightarrow> K s'"
  by (auto simp: finish_read_def bnd_eq_Inr_iff fd_found)

lemma read_rest_kept:
  assumes "read_rest fd count offset target i n buf s = Inr (r, b, s')" and "K s"
  shows "K s'"
proof -
  from assms(1) obtain e where "and_then_buf (read_full_blocks fd buf (uint i) e n s) (\<lambda>n buf s.
      let rem = remainder count n in
      if rem < 0 \<or> rem \<ge> int BLOCK_SIZE then Inr (-1, Some buf, s)
      else and_then_buf (if rem \<noteq> 0 then read_last_block fd buf target n rem s else Inr (Next n, buf, s)) (finish_read fd)) =
      Inr (r, b, s')"
    by (auto simp: read_rest_def bnd_eq_Inr_iff)
  then show ?thesis
    by (rule and_then_buf_kept)
      (auto simp: Let_def assms(2) elim!: and_then_buf_kept split: if_splits
        intro: read_full_blocks_kept [OF _ assms(2)] read_last_block_kept finish_read_kept)
qed

lemma fs_read_kept:
  assumes "fs_read fd buf count s = Inr (r, b, s')" and "K s"
  shows "K s'"
proof (cases "s' = s")
  case False
  with assms(1) obtain c target pos i where
    "and_then_buf (read_first_block (nat fd) c count pos s) (read_rest (nat fd) count pos target (i + 1)) = Inr (r, b, s') \<or>
     read_rest (nat fd) count pos target i 0 c s = Inr (r, b, s')"
    by (auto simp: fs_read_def Let_def bnd_eq_Inr_iff split: if_splits option.splits)
  with assms(2) show ?thesis
    by (auto elim!: and_then_buf_kept intro: read_rest_kept read_first_block_kept)
qed (use assms(2) in simp)

end

text \<open>Opening and closing.\<close>

context kept_by_descriptors
begin

lemmas descriptors_kept [simp] = count_kept closed_kept

lemma add_file_kept:
  assumes "add_file_to_fd_array p s = Inr (r, s')" and "K s" and "\<And>fd. okd fd p"
  shows "K s'"
proof (cases "malloc s")
  case (Pair b s1)
  have "K s1" by (rule malloc_kept [OF Pair assms(2)])
  with assms Pair show ?thesis
    by (auto simp: add_file_to_fd_array_def Let_def bnd_eq_Inr_iff split: if_splits option.splits)
qed

lemma fs_open_kept:
  assumes "fs_open name s = Inr (r, s')" and "K s"
  shows "K s'"
proof -
  from assms(1) consider "s' = s" | i p fd where "fetch (root s) i = Inr p" "add_file_to_fd_array p s = Inr (fd, s')"
    unfolding fs_open_def by (auto simp: bnd_eq_Inr_iff split: if_splits)
  then show ?thesis
  proof cases
    case 2
    then have "okd fd p" for fd using slot_found assms(2) by blast
    with 2(2) assms(2) show ?thesis by (rule add_file_kept)
  qed (use assms(2) in simp)
qed

lemma fs_close_kept: "fs_close fd s = Inr (r, s') \<Longrightarrow> K s \<Longrightarrow> K s'"
  by (auto simp: fs_close_def Let_def bnd_eq_Inr_iff split: if_splits)

end

section \<open>Mounting and unmounting\<close>

text \<open>
  Mounting and unmounting also replace the pointers to the superblock and the table, allocate and free the
  directory's objects and close the disk. Opening the disk file is left to the interpretation's theory.
\<close>

locale kept_by_loading =
  fixes K :: "fs \<Rightarrow> bool"
  assumes table_kept: "K s \<Longrightarrow> K (s\<lparr>fat := F\<rparr>)"
    and mounted_kept: "K s \<Longrightarrow> K (s\<lparr>is_disk_mounted := m\<rparr>)"
    and no_superblock_kept: "K s \<Longrightarrow> K (s\<lparr>sb := Null\<rparr>)" "K s \<Longrightarrow> K (s\<lparr>sb := Dangling\<rparr>)"
    and superblock_kept: "K s \<Longrightarrow> length (signature b) = SUPERBLOCK_SIG_LEN \<Longrightarrow>
      length (sb_padding b) = SUPERBLOCK_PAD_LEN \<Longrightarrow> K (s\<lparr>sb := Ptr b\<rparr>)"
    and allocation_kept: "malloc s = (obtained, s') \<Longrightarrow> K s \<Longrightarrow> K s'"
    and loading_kept: "block_read i (dev s) = (r, data, d) \<Longrightarrow> K s \<Longrightarrow> K (s\<lparr>dev := d\<rparr>)"
    and storing_kept: "block_write i bytes (dev s) = (r, d) \<Longrightarrow> length bytes = BLOCK_SIZE \<Longrightarrow> K s \<Longrightarrow> K (s\<lparr>dev := d\<rparr>)"
    and closing_kept: "block_disk_close (dev s) = (r, d) \<Longrightarrow> K s \<Longrightarrow> K (s\<lparr>dev := d\<rparr>)"
    and new_file_kept: "K s \<Longrightarrow> file_ok f \<Longrightarrow>
      K (s\<lparr>heap := (heap s)(next_addr s \<mapsto> f), root := (root s)[j := Some (next_addr s)], next_addr := Suc (next_addr s)\<rparr>)"
    and loaded_file: "root_entry j s = Inr (a, f) \<Longrightarrow> K s \<Longrightarrow> file_ok f"
    and free_kept: "K s \<Longrightarrow> K (s\<lparr>heap := (heap s)(a := None)\<rparr>)"

text \<open>A successful mount ends by clearing the table of descriptors.\<close>

definition cleared_table :: "fs \<Rightarrow> fs" where
  "cleared_table s = s\<lparr>open_files := map (\<lambda>_. None) (open_files s)\<rparr>"

locale kept_by_mounting = kept_by_loading +
  assumes no_descriptors_kept: "K s \<Longrightarrow> K (cleared_table s)"

lemma load_sb_padding_length:
  "load_sb_padding i ptr b = (r, b') \<Longrightarrow> signature b' = signature b \<and> length (sb_padding b') = length (sb_padding b)"
proof (induction i ptr b rule: load_sb_padding.induct)
  case (1 i ptr b)
  from "1.prems" "1.IH" show ?case
    unfolding load_sb_padding.simps [of i ptr b] by (fastforce simp: Let_def split: if_splits)
qed

lemma decode_file_ok: "ROOT_ENTRY_LEN \<le> length p \<Longrightarrow> file_ok (decode_file p)"
  by (simp add: file_ok_def decode_file_def fs_sizes)

context kept_by_loading
begin

lemma load_superblock_kept:
  assumes "load_superblock (Some p) s = (r, s')" and "K s" and "SUPERBLOCK_SIG_LEN \<le> length p"
  shows "K s'"
proof (cases "malloc s")
  case (Pair obtained s1)
  then have t: "K s1" by (rule allocation_kept) (rule assms(2))
  have raw: "length (sb_padding (raw_super_block j)) = SUPERBLOCK_PAD_LEN" for j by (simp add: raw_super_block_def)
  from assms(1,3) Pair show ?thesis
    by (auto simp: load_superblock_def Let_def raw min_absorb2 intro!: superblock_kept no_superblock_kept t dest!: load_sb_padding_length
        split: if_splits prod.splits)
qed

lemma read_fat_blocks_kept: "read_fat_blocks i n buf s = Inr (r, b, s') \<Longrightarrow> K s \<Longrightarrow> K s'"
proof (induction i n buf s rule: read_fat_blocks.induct)
  case (1 i n buf s)
  show ?case
  proof (cases "i < n")
    case True
    obtain rs data d where w: "block_read (of_nat (i + 1)) (dev s) = (rs, data, d)"
      by (cases "block_read (of_nat (i + 1) :: u64) (dev s)")
    with "1.prems" True "1.IH" [OF True w [symmetric] refl] loading_kept [OF w "1.prems"(2)] show ?thesis
      unfolding read_fat_blocks.simps [of i n buf s] by (auto simp: bnd_eq_Inr_iff split: if_splits)
  next
    case False
    with "1.prems" show ?thesis unfolding read_fat_blocks.simps [of i n buf s] by simp
  qed
qed

lemma load_fat_kept:
  assumes "load_fat s = Inr (r, s')" and "K s"
  shows "K s'"
proof (cases "malloc s")
  case (Pair obtained s1)
  then have t: "K s1" by (rule allocation_kept) (rule assms(2))
  from assms(1) Pair show ?thesis
    by (auto simp: load_fat_def Let_def bnd_eq_Inr_iff intro!: table_kept t dest!: read_fat_blocks_kept split: if_splits)
qed

lemma load_root_from_kept:
  "load_root_from i p s = (r, s') \<Longrightarrow> K s \<Longrightarrow> ROOT_ENTRY_LEN * (FS_FILE_MAX_COUNT - i) \<le> length p \<Longrightarrow> K s'"
proof (induction i p s rule: load_root_from.induct)
  case (1 i p s)
  show ?case
  proof (cases "i < FS_FILE_MAX_COUNT")
    case True
    then have l: "ROOT_ENTRY_LEN \<le> length p" "ROOT_ENTRY_LEN * (FS_FILE_MAX_COUNT - Suc i) \<le> length (drop ROOT_ENTRY_LEN p)"
      using "1.prems"(3) by (simp_all add: Suc_diff_Suc [symmetric])
    obtain b s1 where m: "malloc s = (b, s1)" by (cases "malloc s")
    then have t: "K s1" by (rule allocation_kept) (rule "1.prems"(2))
    from "1.prems"(1,2) True m t l new_file_kept [OF t decode_file_ok [OF l(1)], of i] "1.IH" [OF True m [symmetric] _ refl]
    show ?thesis
      unfolding load_root_from.simps [of i p s] by (auto simp: Let_def split: if_splits)
  next
    case False
    with "1.prems" show ?thesis unfolding load_root_from.simps [of i p s] by simp
  qed
qed

lemma load_root_directory_kept:
  assumes "load_root_directory p s = (r, s')" and "K s" and "length p = BLOCK_SIZE"
  shows "K s'"
  using load_root_from_kept [OF assms(1) [unfolded load_root_directory_def] assms(2)] assms(3)
  by (simp add: fs_sizes BLOCK_SIZE_def)

lemma mount_directory_loads:
  assumes "bnd (deref (sb s)) (\<lambda>b.
      case block_read (ucast (num_fat_blocks b) + 1) (dev s) of (read_success, data, d) \<Rightarrow>
      bnd (store_bytes buffer 0 data) (\<lambda>buffer.
      case load_root_directory buffer (s\<lparr>dev := d\<rparr>) of (r, s) \<Rightarrow>
      if r \<noteq> 0 then Inr (-1, s)
      else Inr (0, s\<lparr>open_files := map (\<lambda>_. None) (open_files s)\<rparr>))) = Inr (r :: int, s')"
    and "K s" and "length buffer = BLOCK_SIZE"
  obtains t where "K t" and "s' = (if r = 0 then cleared_table t else t)"
proof -
  from assms(1) obtain b where b: "sb s = Ptr b" by (auto simp: bnd_eq_Inr_iff)
  obtain r1 data d where l1: "block_read (ucast (num_fat_blocks b) + 1) (dev s) = (r1, data, d)"
    by (cases "block_read (ucast (num_fat_blocks b) + 1) (dev s)")
  with assms(1) b obtain buf where buf: "store_bytes buffer 0 data = Inr buf" by (auto simp: bnd_eq_Inr_iff)
  obtain r2 s2 where l2: "load_root_directory buf (s\<lparr>dev := d\<rparr>) = (r2, s2)"
    by (cases "load_root_directory buf (s\<lparr>dev := d\<rparr>)")
  have "K s2"
    by (rule load_root_directory_kept [OF l2]) (use assms(2,3) loading_kept [OF l1] stored_length(2) [OF buf] in simp_all)
  with assms(1) b l1 buf l2 show ?thesis by (intro that [of s2]) (auto simp: cleared_table_def split: if_splits)
qed

lemma fs_mount_loads:
  assumes "fs_mount name s = Inr (r, s')" and l1: "load_disk name s = (r1, s1)" and t1: "K s1"
  obtains t where "K t" and "s' = (if r = 0 then cleared_table t else t)"
proof -
  obtain r2 data d where l2: "block_read 0 (dev s1) = (r2, data, d)" by (cases "block_read 0 (dev s1)")
  note t2 = loading_kept [OF l2 t1]
  show ?thesis
  proof (cases "r1 = 0 \<and> r2 = 0")
    case True
    with assms(1) l1 l2 obtain buf where buf: "store_bytes (stack_buffer BLOCK_SIZE s1) 0 data = Inr buf"
      by (auto simp: fs_mount_def bnd_eq_Inr_iff)
    have b: "length buf = BLOCK_SIZE" using stored_length(2) [OF buf] by simp
    obtain r3 s3 where l3: "load_superblock (Some buf) (s1\<lparr>dev := d\<rparr>) = (r3, s3)"
      by (cases "load_superblock (Some buf) (s1\<lparr>dev := d\<rparr>)")
    have t3: "K s3" by (rule load_superblock_kept [OF l3]) (use t2 b in \<open>simp_all add: fs_sizes BLOCK_SIZE_def\<close>)
    note run = assms(1) [unfolded fs_mount_def l1 prod.case Let_def]
    show ?thesis
    proof (cases "r3 = 0")
      case True
      with run \<open>r1 = 0 \<and> r2 = 0\<close> l2 l3 buf obtain r4 s4 where l4: "load_fat s3 = Inr (r4, s4)"
        by (auto simp: bnd_eq_Inr_iff)
      have t4: "K s4" by (rule load_fat_kept [OF l4 t3])
      show ?thesis
      proof (cases "r4 = 0")
        case True
        show ?thesis
          by (rule mount_directory_loads [of s4 buf r s', OF _ t4 b that])
            (use run True \<open>r3 = 0\<close> \<open>r1 = 0 \<and> r2 = 0\<close> l2 l3 buf l4 in simp_all)
      next
        case False
        with run \<open>r3 = 0\<close> \<open>r1 = 0 \<and> r2 = 0\<close> l2 l3 buf l4 show ?thesis by (intro that [OF t4]) simp
      qed
    next
      case False
      with run \<open>r1 = 0 \<and> r2 = 0\<close> l2 l3 buf show ?thesis by (intro that [OF t3]) simp
    qed
  next
    case False
    with assms(1) l1 l2 t1 t2 that show ?thesis
      by (auto simp: fs_mount_def Let_def bnd_eq_Inr_iff split: if_splits)
  qed
qed

lemma free_files_kept: "free_files ps s = Inr s' \<Longrightarrow> K s \<Longrightarrow> K s'"
proof (induction ps arbitrary: s)
  case (Cons p ps)
  have "K (s\<lparr>heap := (heap s)(a := None)\<rparr>)" for a by (rule free_kept) (rule Cons.prems(2))
  with Cons show ?case by (auto split: option.splits if_splits)
qed simp

lemma write_fat_blocks_kept: "write_fat_blocks i n s = Inr s' \<Longrightarrow> K s \<Longrightarrow> K s'"
proof (induction i n s rule: write_fat_blocks.induct)
  case (1 i n s)
  show ?case
  proof (cases "i < n")
    case True
    with "1.prems"(1) obtain F where F: "deref (fat s) = Inr F"
      unfolding write_fat_blocks.simps [of i n s] by (auto simp: bnd_eq_Inr_iff)
    obtain r d where w: "block_write (of_nat (i + 1)) (fat_block_mem F (junk s) i) (dev s) = (r, d)"
      by (cases "block_write (of_nat (i + 1) :: u64) (fat_block_mem F (junk s) i) (dev s)")
    with "1.prems" True F "1.IH" [OF True F w [symmetric]] storing_kept [OF w length_fat_block_mem "1.prems"(2)] show ?thesis
      unfolding write_fat_blocks.simps [of i n s] by simp
  next
    case False
    with "1.prems" show ?thesis unfolding write_fat_blocks.simps [of i n s] by simp
  qed
qed

lemma encode_root_length:
  "encode_root i s = Inr bytes \<Longrightarrow> K s \<Longrightarrow> length bytes = ROOT_ENTRY_LEN * (FS_FILE_MAX_COUNT - i)"
proof (induction i s arbitrary: bytes rule: encode_root.induct)
  case (1 i s)
  show ?case
  proof (cases "i < FS_FILE_MAX_COUNT")
    case True
    with "1.prems"(1) obtain a f rest where f: "root_entry i s = Inr (a, f)" "encode_root (Suc i) s = Inr rest"
      "bytes = encode_file f @ rest"
      by (subst (asm) encode_root.simps) (auto simp: bnd_eq_Inr_iff)
    have "length rest = ROOT_ENTRY_LEN * (FS_FILE_MAX_COUNT - Suc i)" using "1.IH" [OF True f(1) refl f(2) "1.prems"(2)] .
    moreover have "length (encode_file f) = ROOT_ENTRY_LEN" by (rule filec.enc_length [OF loaded_file [OF f(1) "1.prems"(2)]])
    moreover have "FS_FILE_MAX_COUNT - i = Suc (FS_FILE_MAX_COUNT - Suc i)" using True by simp
    ultimately show ?thesis by (simp add: f(3))
  next
    case False
    with "1.prems"(1) show ?thesis by (subst (asm) encode_root.simps) simp
  qed
qed

lemma fs_umount_kept:
  assumes "fs_umount s = Inr (r, s')" and "K s"
  shows "K s'"
proof (cases "is_disk_mounted s")
  case True
  with assms(1) obtain b s1 a where m: "write_fat_blocks 0 (unat (num_fat_blocks b)) s = Inr s1" "encode_root 0 s1 = Inr a"
    "sb s = Ptr b"
    by (auto simp: fs_umount_def bnd_eq_Inr_iff)
  obtain r2 d where w: "block_write (ucast (root_index b)) a (dev s1) = (r2, d)"
    by (cases "block_write (ucast (root_index b)) a (dev s1)")
  from assms(1) True m w obtain s2 F sb' where s2: "free_files (root s1) (s1\<lparr>dev := d\<rparr>) = Inr s2"
    "freed (fat s2) = Inr F" "freed (sb s2) = Inr sb'"
    by (auto simp: fs_umount_def bnd_eq_Inr_iff)
  note t1 = write_fat_blocks_kept [OF m(1) assms(2)]
  have "length a = BLOCK_SIZE" using encode_root_length [OF m(2) t1] by (simp add: fs_sizes BLOCK_SIZE_def)
  from free_files_kept [OF s2(1) storing_kept [OF w this t1]] have t: "K s2" .
  have "sb' = Null \<or> sb' = Dangling" using s2(3) by (cases "sb s2") simp_all
  then have t2: "K (s2\<lparr>fat := F, sb := sb'\<rparr>)" using no_superblock_kept [OF table_kept [OF t, of F]] by auto
  obtain r3 d' where c: "block_disk_close (dev s2) = (r3, d')" by (cases "block_disk_close (dev s2)")
  with mounted_kept [OF closing_kept [OF _ t2]] have "K (s2\<lparr>fat := F, sb := sb', dev := d', is_disk_mounted := False\<rparr>)"
    by simp
  with assms(1) True m w s2 c show ?thesis by (auto simp: fs_umount_def)
next
  case False
  with assms show ?thesis by (simp add: fs_umount_def)
qed

end

context kept_by_mounting
begin

lemma fs_mount_kept:
  assumes "fs_mount name s = Inr (r, s')" and "load_disk name s = (r1, s1)" and "K s1"
  shows "K s'"
  by (rule fs_mount_loads [OF assms]) (simp add: no_descriptors_kept)

end

end
