(* ===== verification/Typed_States.thy ===== *)
theory Typed_States
  imports Kept_States
begin

text \<open>
  A type invariant of the library that needs no assumption: whatever calls a program makes, with whatever
  arguments and on whatever host, the arrays and objects of \<open>fs.c\<close> keep their declared sizes and its pointers
  lead to addresses that were given out. Every function keeps it, on every path on which it returns.
\<close>

section \<open>Typed states\<close>

text \<open>
  The two arrays have their declared sizes, every object on the heap has arrays of the declared sizes,
  so has the superblock, and all pointers are to addresses that were given out.
\<close>

definition typed :: "fs \<Rightarrow> bool" where
  "typed s \<longleftrightarrow>
     length (root s) = FS_FILE_MAX_COUNT \<and> length (open_files s) = FS_OPEN_MAX_COUNT \<and>
     (\<forall>a f. heap s a = Some f \<longrightarrow> a < next_addr s \<and> file_ok f) \<and>
     (\<forall>a. Some a \<in> set (root s) \<longrightarrow> a < next_addr s) \<and>
     (\<forall>d a. Some d \<in> set (open_files s) \<longrightarrow> fd_file d = Some a \<longrightarrow> a < next_addr s) \<and>
     (\<forall>b. sb s = Ptr b \<longrightarrow> length (signature b) = SUPERBLOCK_SIG_LEN \<and> length (sb_padding b) = SUPERBLOCK_PAD_LEN)"

lemma typed_updates [simp]:
  "typed (s\<lparr>dev := d\<rparr>) = typed s" "typed (s\<lparr>fat := F\<rparr>) = typed s" "typed (s\<lparr>num_open_files := n\<rparr>) = typed s"
  "typed (s\<lparr>is_disk_mounted := m\<rparr>) = typed s" "typed (s\<lparr>stdout := out\<rparr>) = typed s"
  by (simp_all add: typed_def)

lemma typed_init: "typed (fs_init j h)"
  by (simp add: typed_def fs_init_def)

text \<open>The state an operation leaves is typed and has given out the same addresses.\<close>

definition keeps :: "fs \<Rightarrow> fs \<Rightarrow> bool" where
  "keeps s s' \<longleftrightarrow> typed s' \<and> next_addr s' = next_addr s"

lemma keeps_updates [simp]:
  "keeps s (s'\<lparr>dev := d\<rparr>) = keeps s s'" "keeps s (s'\<lparr>fat := F\<rparr>) = keeps s s'"
  "keeps s (s'\<lparr>num_open_files := n\<rparr>) = keeps s s'" "keeps s (s'\<lparr>is_disk_mounted := m\<rparr>) = keeps s s'"
  "keeps s (s'\<lparr>stdout := out\<rparr>) = keeps s s'" "keeps s (printf fmt args s') = keeps s s'"
  by (simp_all add: keeps_def printf_def)

lemma keeps_self [simp]: "keeps s s = typed s"
  by (simp add: keeps_def)

definition valid_ptr :: "fs \<Rightarrow> addr option \<Rightarrow> bool" where
  "valid_ptr s p \<longleftrightarrow> (\<forall>a. p = Some a \<longrightarrow> a < next_addr s)"

lemma file_at_typed: "file_at p s = Inr (a, f) \<Longrightarrow> keeps s0 s \<Longrightarrow> a < next_addr s0 \<and> file_ok f"
  by (auto simp: file_at_def typed_def keeps_def split: option.splits)

lemma fd_entry_typed: "fd_entry fd s = Inr d \<Longrightarrow> keeps s0 s \<Longrightarrow> valid_ptr s0 (fd_file d)"
  by (auto simp: fd_entry_def bnd_eq_Inr_iff typed_def keeps_def valid_ptr_def split: option.splits) (metis nth_mem)

lemma set_file_keeps [intro]:
  "keeps s0 s \<Longrightarrow> a < next_addr s0 \<Longrightarrow> file_ok f \<Longrightarrow> keeps s0 (set_file a f s)"
  by (auto simp: keeps_def typed_def set_file_def)

lemma file_ok_updates [simp]:
  "file_ok (f\<lparr>file_size := n\<rparr>) = file_ok f" "file_ok (f\<lparr>first_index := i\<rparr>) = file_ok f"
  "file_ok (f\<lparr>filename := arr\<rparr>) \<longleftrightarrow> length arr = FS_FILENAME_LEN \<and> length (file_padding f) = ROOT_PAD_LEN"
  by (simp_all add: file_ok_def)

lemma set_fd_entry_keeps [intro]:
  assumes "keeps s0 s" and "\<And>d. e = Some d \<Longrightarrow> valid_ptr s0 (fd_file d)"
  shows "keeps s0 (set_fd_entry fd e s)"
proof -
  have "d \<in> set (open_files s) \<or> d = e" if "d \<in> set ((open_files s)[fd := e])" for d
    using that set_update_subset_insert by fastforce
  with assms show ?thesis by (fastforce simp: keeps_def typed_def set_fd_entry_def valid_ptr_def)
qed

lemma malloc_keeps: "malloc s = (b, s') \<Longrightarrow> keeps s0 s \<Longrightarrow> keeps s0 s'"
  by (auto simp: malloc_def split: prod.splits)

interpretation types: kept_by_descriptors "keeps s0" "\<lambda>a f. a < next_addr s0 \<and> file_ok f" "\<lambda>_. valid_ptr s0" for s0
proof
  show "fetch (root s) j = Inr p \<Longrightarrow> keeps s0 s \<Longrightarrow> valid_ptr s0 p" for s j p
    by (auto simp: keeps_def typed_def valid_ptr_def) (metis nth_mem)
qed (auto simp: malloc_keeps file_ok_def dest: file_at_typed fd_entry_typed)

section \<open>Mounting and unmounting\<close>

text \<open>Mounting gives out new addresses: the state it leaves is typed.\<close>

lemma typedI: "keeps s s' \<Longrightarrow> typed s'"
  by (simp add: keeps_def)

lemma malloc_typed: "malloc s = (b, s') \<Longrightarrow> typed s \<Longrightarrow> typed s'"
  using malloc_keeps [of s b s' s] by (simp add: keeps_def)

lemma new_file_typed:
  assumes "typed s" and "file_ok f"
  shows "typed (s\<lparr>heap := (heap s)(next_addr s \<mapsto> f), root := (root s)[i := Some (next_addr s)], next_addr := Suc (next_addr s)\<rparr>)"
proof -
  have "p \<in> set (root s) \<or> p = Some (next_addr s)" if "p \<in> set ((root s)[i := Some (next_addr s)])" for p
    using that set_update_subset_insert by fastforce
  with assms show ?thesis by (fastforce simp: typed_def less_Suc_eq)
qed

lemma typed_sb:
  "typed s \<Longrightarrow> length (signature b) = SUPERBLOCK_SIG_LEN \<Longrightarrow> length (sb_padding b) = SUPERBLOCK_PAD_LEN \<Longrightarrow>
    typed (s\<lparr>sb := Ptr b\<rparr>)" "typed s \<Longrightarrow> typed (s\<lparr>sb := Null\<rparr>)" "typed s \<Longrightarrow> typed (s\<lparr>sb := Dangling\<rparr>)"
  by (simp_all add: typed_def)

interpretation mounted: kept_by_mounting typed
proof
  show "typed s \<Longrightarrow> typed (cleared_table s)" for s by (auto simp: typed_def cleared_table_def)
  show "typed s \<Longrightarrow> typed (s\<lparr>heap := (heap s)(a := None)\<rparr>)" for s a by (auto simp: typed_def)
  show "root_entry j s = Inr (a, f) \<Longrightarrow> typed s \<Longrightarrow> file_ok f" for s j a f
    using types.root_entry_found [of j s a f s] by simp
qed (use malloc_typed new_file_typed in \<open>simp_all add: typed_sb\<close>)

lemma fs_mount_typed:
  assumes "fs_mount name s = Inr (r, s')" and "typed s"
  shows "typed s'"
proof (cases "load_disk name s")
  case (Pair r1 s1)
  then have "typed s1" using assms(2) by (auto simp: load_disk_def split: option.splits if_splits prod.splits)
  with assms(1) Pair show ?thesis by (rule mounted.fs_mount_kept)
qed

section \<open>Any program\<close>

text \<open>Any sequence of calls of the library, with any arguments, on any host.\<close>

inductive any_call :: "fs \<Rightarrow> fs \<Rightarrow> bool" where
  mount: "fs_mount name s = Inr (r, s') \<Longrightarrow> any_call s s'"
| umount: "fs_umount s = Inr (r, s') \<Longrightarrow> any_call s s'"
| call: "run_call k s = Inr (r, s') \<Longrightarrow> any_call s s'"

lemma any_call_typed: "any_call s s' \<Longrightarrow> typed s \<Longrightarrow> typed s'"
proof (induction rule: any_call.induct)
  case (call k s r s')
  have "keeps s s" using call.prems by simp
  with call.hyps have "keeps s s'"
    by (cases k) (auto simp: bnd_eq_Inr_iff intro: types.fs_create_kept types.fs_delete_kept types.fs_ls_kept types.fs_info_kept types.fs_open_kept
        types.fs_close_kept types.fs_lseek_kept types.fs_write_kept types.fs_read_kept)
  then show ?case by (rule typedI)
qed (auto intro: fs_mount_typed mounted.fs_umount_kept)

end
