(* ===== verification/Host_Files.thy ===== *)
theory Host_Files
  imports Typed_States
begin

text \<open>
  Which files of the host the library writes: none but the disk files a program mounts, whatever it calls
  with whatever arguments, and whatever the host fails. No file is created or removed, nor does one grow or
  shrink: the library writes whole blocks inside the disk file only.
\<close>

section \<open>The files a state may write\<close>

text \<open>
  All files of the host but \<open>P\<close> are as in \<open>files\<close>, and all have the length they have there. The open disk
  file is one of \<open>P\<close>, its descriptor was given out, and it has the blocks that \<open>bcount\<close> counts.
\<close>

definition writes_only :: "string set \<Rightarrow> (string \<rightharpoonup> byte list) \<Rightarrow> dev \<Rightarrow> bool" where
  "writes_only P files d \<longleftrightarrow>
     (\<forall>p. p \<notin> P \<longrightarrow> host_files (host d) p = files p) \<and>
     (\<forall>p. map_option length (host_files (host d) p) = map_option length (files p)) \<and>
     (disk_fd (disk d) \<noteq> INVALID_FD \<longrightarrow> disk_fd (disk d) < host_next (host d) \<and>
       (\<forall>p. host_fds (host d) (disk_fd (disk d)) = Some p \<longrightarrow> p \<in> P \<and>
         (\<forall>c. host_files (host d) p = Some c \<longrightarrow> BLOCK_SIZE * unat (bcount (disk d)) \<le> length c)))"

text \<open>Only \<open>write\<close> changes the files of the host, only \<open>open\<close> and \<open>close\<close> its descriptors.\<close>

definition host_same :: "host \<Rightarrow> host \<Rightarrow> bool" where
  "host_same h h' \<longleftrightarrow> host_files h' = host_files h \<and> host_fds h' = host_fds h \<and> host_next h' = host_next h"

lemma host_call_same: "host_call h = (b, h') \<Longrightarrow> host_same h h'"
  by (auto simp: host_call_def host_same_def split: list.splits)

lemma host_lseek_same: "host_lseek fd off h = (r, h') \<Longrightarrow> host_same h h'"
  by (auto simp: host_lseek_def dest: host_call_same split: prod.splits if_splits)

lemma host_read_same: "host_read fd pos n h = (r, h') \<Longrightarrow> host_same h h'"
  by (auto simp: host_read_def dest: host_call_same split: prod.splits if_splits option.splits)

lemma host_fstat_same: "host_fstat fd h = (r, h') \<Longrightarrow> host_same h h'"
  by (auto simp: host_fstat_def dest: host_call_same split: prod.splits if_splits)

lemma host_write_same:
  assumes "host_write fd pos buf h = (r, h')"
  shows "host_same h h' \<or> (\<exists>path c. host_fds h fd = Some path \<and> host_files h path = Some c \<and>
    host_files h' = (host_files h)(path \<mapsto> overwrite c pos buf) \<and> host_fds h' = host_fds h \<and> host_next h' = host_next h)"
proof (cases "host_call h")
  case (Pair failed h1)
  with host_call_same [OF Pair] assms show ?thesis
    by (auto simp: host_write_def host_same_def split: if_splits option.splits)
qed

lemma host_same_trans: "host_same h h1 \<Longrightarrow> host_same h1 h2 \<Longrightarrow> host_same h h2"
  by (simp add: host_same_def)

lemma writes_only_host:
  "writes_only P files d \<Longrightarrow> host_same (host d) h \<Longrightarrow> writes_only P files (d\<lparr>host := h\<rparr>)"
  by (simp add: writes_only_def host_same_def)

lemma block_read_writes: "block_read i d = (r, data, d') \<Longrightarrow> writes_only P files d \<Longrightarrow> writes_only P files d'"
  by (auto simp: block_read_def intro!: writes_only_host dest!: host_lseek_same host_read_same
      intro: host_same_trans split: if_splits prod.splits option.splits)

lemma length_overwrite_inside: "pos + length bs \<le> length c \<Longrightarrow> length (overwrite c pos bs) = length c"
  by (simp add: overwrite_def)

lemma block_position:
  assumes "i < bcount k"
  shows "unat (i * of_nat BLOCK_SIZE) + BLOCK_SIZE \<le> BLOCK_SIZE * unat (bcount k)"
proof -
  have "unat (i * of_nat BLOCK_SIZE :: u64) \<le> unat i * BLOCK_SIZE"
    by (simp add: unat_word_ariths BLOCK_SIZE_def)
  moreover have "BLOCK_SIZE * Suc (unat i) \<le> BLOCK_SIZE * unat (bcount k)"
    using assms by (intro mult_le_mono2) (simp add: word_less_nat_alt)
  ultimately show ?thesis by (simp add: mult.commute)
qed

lemma block_write_writes:
  assumes "block_write i b d = (r, d')" and "length b = BLOCK_SIZE" and "writes_only P files d"
  shows "writes_only P files d'"
proof (cases "disk_fd (disk d) = INVALID_FD \<or> i \<ge> bcount (disk d)")
  case False
  let ?pos = "unat (i * of_nat BLOCK_SIZE :: u64)"
  obtain pos h1 where l: "host_lseek (disk_fd (disk d)) ?pos (host d) = (pos, h1)" by fastforce
  note same = host_lseek_same [OF l]
  show ?thesis
  proof (cases pos)
    case None
    with assms False l same show ?thesis by (auto simp: block_write_def intro: writes_only_host)
  next
    case (Some p)
    then have p: "p = ?pos" using l by (auto simp: host_lseek_def split: prod.splits if_splits)
    obtain w h2 where h2: "host_write (disk_fd (disk d)) p b h1 = (w, h2)" by fastforce
    with assms(1) False l Some have d': "d' = d\<lparr>host := h2\<rparr>" by (auto simp: block_write_def split: if_splits)
    from host_write_same [OF h2] same consider "host_same (host d) h2"
      | path c where "host_fds (host d) (disk_fd (disk d)) = Some path" "host_files (host d) path = Some c"
        "host_files h2 = (host_files (host d))(path \<mapsto> overwrite c p b)" "host_fds h2 = host_fds (host d)"
        "host_next h2 = host_next (host d)"
      by (auto simp: host_same_def)
    then show ?thesis
    proof cases
      case 1
      with d' assms(3) show ?thesis by (auto intro: writes_only_host)
    next
      case (2 path c)
      then have own: "path \<in> P" "BLOCK_SIZE * unat (bcount (disk d)) \<le> length c"
        using assms(3) False by (auto simp: writes_only_def)
      have "length (overwrite c p b) = length c"
        using own(2) block_position [of i "disk d"] False by (intro length_overwrite_inside) (simp add: p assms(2) not_le)
      moreover have "map_option length (files path) = Some (length c)"
        using assms(3) 2(2) unfolding writes_only_def by (metis option.simps(9))
      ultimately show ?thesis using 2 own assms(3) unfolding d' by (auto simp: writes_only_def)
    qed
  qed
qed (use assms in \<open>auto simp: block_write_def split: if_splits\<close>)

interpretation writes: kept_by_descriptors "\<lambda>s. writes_only P files (dev s)" "\<lambda>_ _. True" "\<lambda>_ _. True" for P files
proof
  show "writes_only P files (dev s')" if "malloc s = (obtained, s')" "writes_only P files (dev s)" for s obtained s'
    using that host_call_same [of "host (dev s)"] by (auto simp: malloc_def intro: writes_only_host split: prod.splits)
qed (auto simp: printf_def set_file_def set_fd_entry_def intro: block_read_writes block_write_writes)

text \<open>A typed state that writes these files only: in it, the directory that \<open>fs_umount\<close> writes is one block.\<close>

definition owns :: "string set \<Rightarrow> (string \<rightharpoonup> byte list) \<Rightarrow> fs \<Rightarrow> bool" where
  "owns P files s \<longleftrightarrow> typed s \<and> writes_only P files (dev s)"

lemma owns_updates [simp]:
  "owns P files (s\<lparr>fat := F\<rparr>) = owns P files s" "owns P files (s\<lparr>is_disk_mounted := m\<rparr>) = owns P files s"
  "owns P files (s\<lparr>dev := d\<rparr>) \<longleftrightarrow> typed s \<and> writes_only P files d" "owns P files (s\<lparr>stdout := out\<rparr>) = owns P files s"
  "owns P files (printf fmt args s) = owns P files s"
  by (simp_all add: owns_def printf_def)

section \<open>Mounting and unmounting\<close>

lemma writes_only_mono: "writes_only P files d \<Longrightarrow> P \<subseteq> Q \<Longrightarrow> writes_only Q files d"
  by (auto simp: writes_only_def)

lemma disk_open_writes:
  assumes "block_disk_open name d = (r, d')" and "writes_only P files d"
  shows "writes_only (P \<union> set_option name) files d'"
proof (cases "\<exists>path. name = Some path \<and> disk_fd (disk d) = INVALID_FD")
  case False
  with assms(1) have "d' = d" by (auto simp: block_disk_open_def split: option.splits if_splits)
  with assms(2) show ?thesis by (auto intro: writes_only_mono)
next
  case True
  then obtain path where path: "name = Some path" and closed: "disk_fd (disk d) = INVALID_FD" by blast
  obtain fd h where h: "host_open path (host d) = (fd, h)" by fastforce
  have "host_files h = host_files (host d) \<and> (fd < 0 \<or> host_fds h = (host_fds (host d))(fd \<mapsto> path) \<and> fd < host_next h)"
    using h host_call_same by (fastforce simp: host_open_def host_same_def split: prod.splits if_splits option.splits)
  moreover obtain st h2 where h2: "host_fstat fd h = (st, h2)" by fastforce
  ultimately have files: "host_files h = host_files (host d)" "host_files h2 = host_files (host d)"
    "0 \<le> fd \<Longrightarrow> host_fds h2 fd = Some path \<and> fd < host_next h2"
    using host_fstat_same [OF h2] by (auto simp: host_same_def)
  from assms(1) closed path h h2 consider "d' = d\<lparr>host := h\<rparr>" | "d' = d\<lparr>host := h2\<rparr>"
    | k where "d' = d\<lparr>disk := \<lparr>disk_fd = fd, bcount = of_nat (k div BLOCK_SIZE)\<rparr>, host := h2\<rparr>" "0 \<le> fd" "st = Some k"
    by (auto simp: block_disk_open_def split: option.splits if_splits)
  then show ?thesis
  proof cases
    case (3 k)
    have "BLOCK_SIZE * unat (of_nat (k div BLOCK_SIZE) :: u64) \<le> BLOCK_SIZE * (k div BLOCK_SIZE)"
      by (intro mult_le_mono2) (simp add: unat_of_nat)
    also have "\<dots> \<le> k" by simp
    finally have "BLOCK_SIZE * unat (of_nat (k div BLOCK_SIZE) :: u64) \<le> k" .
    moreover have "host_files (host d) path = Some c \<Longrightarrow> length c = k" for c
      using h h2 host_call_same [of h] 3(2,3) files host_fstat_same [OF h2]
      by (auto simp: host_fstat_def host_content_def host_same_def split: prod.splits if_splits option.splits)
    ultimately show ?thesis using 3 files assms(2) closed path by (simp add: writes_only_def)
  qed (use files assms(2) closed path in \<open>simp_all add: writes_only_def\<close>)
qed

lemma load_disk_owns:
  assumes "load_disk name s = (r, s')" and "owns P files s"
  shows "owns (P \<union> set_option name) files s'"
proof (cases "block_disk_open name (dev s)")
  case (Pair x d)
  from assms(2) have s: "typed s" "writes_only P files (dev s)" by (simp_all add: owns_def)
  with assms(1) Pair disk_open_writes [OF Pair s(2)] writes_only_mono [OF s(2), of "P \<union> set_option name"] show ?thesis
    by (auto simp: load_disk_def owns_def split: if_splits)
qed

lemma disk_close_writes: "block_disk_close d = (r, d') \<Longrightarrow> writes_only P files d \<Longrightarrow> writes_only P files d'"
  by (auto simp: block_disk_close_def host_close_def writes_only_def split: if_splits)

interpretation owned: kept_by_mounting "owns P files" for P files
proof
  show "owns P files s'" if "malloc s = (obtained, s')" "owns P files s" for s obtained s'
    using that malloc_typed writes.malloc_kept [OF that(1)] by (auto simp: owns_def)
  show "file_ok f" if "root_entry j s = Inr (a, f)" "owns P files s" for s j a f
    using that mounted.loaded_file by (auto simp: owns_def)
  show "owns P files (s\<lparr>heap := (heap s)(next_addr s \<mapsto> f), root := (root s)[j := Some (next_addr s)],
    next_addr := Suc (next_addr s)\<rparr>)" if "owns P files s" "file_ok f" for s f j
    using that mounted.new_file_kept by (simp add: owns_def)
  show "owns P files (s\<lparr>heap := (heap s)(a := None)\<rparr>)" if "owns P files s" for s a
    using that mounted.free_kept by (simp add: owns_def)
  show "owns P files (cleared_table s)" if "owns P files s" for s
    using that mounted.no_descriptors_kept [of s] by (simp add: owns_def cleared_table_def)
qed (auto simp: owns_def typed_sb intro: block_read_writes block_write_writes disk_close_writes)

lemma fs_mount_owns:
  assumes "fs_mount name s = Inr (r, s')" and "owns P files s"
  shows "owns (P \<union> set_option name) files s'"
proof (cases "load_disk name s")
  case (Pair r1 s1)
  show ?thesis by (rule owned.fs_mount_kept [OF assms(1) Pair load_disk_owns [OF Pair assms(2)]])
qed

section \<open>Any program\<close>

text \<open>\<open>program P s s'\<close>: a run of calls with any arguments from \<open>s\<close> to \<open>s'\<close>, which mounted the files \<open>P\<close>.\<close>

inductive program :: "string set \<Rightarrow> fs \<Rightarrow> fs \<Rightarrow> bool" where
  start: "program {} s s"
| mounts: "program P s s1 \<Longrightarrow> fs_mount name s1 = Inr (r, s2) \<Longrightarrow> program (P \<union> set_option name) s s2"
| umounts: "program P s s1 \<Longrightarrow> fs_umount s1 = Inr (r, s2) \<Longrightarrow> program P s s2"
| calls: "program P s s1 \<Longrightarrow> run_call k s1 = Inr (r, s2) \<Longrightarrow> program P s s2"

lemma run_call_owns:
  assumes "run_call k s = Inr (r, s')" and "owns P files s"
  shows "owns P files s'"
proof -
  from assms(2) have s: "typed s" "writes_only P files (dev s)" by (simp_all add: owns_def)
  have "writes_only P files (dev s')"
    using assms(1) s(2) by (cases k) (auto simp: bnd_eq_Inr_iff intro: writes.fs_create_kept writes.fs_delete_kept
      writes.fs_ls_kept writes.fs_info_kept writes.fs_open_kept writes.fs_close_kept writes.fs_lseek_kept
      writes.fs_write_kept writes.fs_read_kept)
  with any_call_typed [OF any_call.call [OF assms(1)] s(1)] show ?thesis by (simp add: owns_def)
qed

lemma owns_init: "owns {} (host_files h) (fs_init j h)"
  by (simp add: owns_def typed_init) (simp add: writes_only_def fs_init_def disk_init_def)

lemma program_owns: "program P s s' \<Longrightarrow> owns {} files s \<Longrightarrow> owns P files s'"
proof (induction rule: program.induct)
  case (mounts P s s1 name r s2)
  then show ?case by (blast intro: fs_mount_owns)
qed (blast intro: owned.fs_umount_kept run_call_owns)+

end
