(* ===== verification/Script_Files.thy ===== *)
theory Script_Files
  imports Script_Lines Host_Files
begin

text \<open>
  The line \<open>WRITE FILE\<close> of a script, whose data is another file of the host: it opens that file while the
  disk is mounted, which does not concern the disk.
\<close>

lemma holds_on_device:
  assumes "holds path A s" and "disk d = disk (dev s)" and "host_files (host d) = host_files (host (dev s))"
    and "host_fds (host d) (disk_fd (disk d)) = host_fds (host (dev s)) (disk_fd (disk d))"
    and "calm d" and "0 \<le> host_next (host d)"
  shows "holds path A (s\<lparr>dev := d\<rparr>)"
proof -
  let ?s = "s\<lparr>dev := d\<rparr>"
  have im: "disk_image d = disk_image (dev s)" "host_content (disk_fd (disk d)) (host d) = host_content (disk_fd (disk d)) (host (dev s))"
    using assms(2-4) by (simp_all add: disk_image_def host_content_def split: option.splits)
  then have d: "block_at d = block_at (dev s)" "blocks d = blocks (dev s)" "disk_ok d = disk_ok (dev s)"
    using assms(2) by (simp_all add: fun_eq_iff block_at_def blocks_def disk_ok_def)
  have e: "the_sb ?s = the_sb s" "the_fat ?s = the_fat s" "fat_ok ?s = fat_ok s" "files_ok ?s = files_ok s"
    "slot_addr ?s = slot_addr s"
    by (simp_all add: the_sb_def the_fat_def fat_ok_def files_ok_def slot_addr_def fun_eq_iff)
  have f: "slot_file ?s = slot_file s" by (simp add: slot_file_def fun_eq_iff e)
  have n: "slot_name ?s = slot_name s" by (simp add: slot_name_def fun_eq_iff f)
  have u: "used ?s = used s" by (simp add: used_def fun_eq_iff n)
  have c: "slot_chain ?s = slot_chain s" by (simp add: slot_chain_def fun_eq_iff f e)
  have "file_data ?s = file_data s" by (simp add: file_data_def disk_blocks_def fun_eq_iff d c e)
  then have "abs_file ?s = abs_file s" by (simp add: abs_file_def fun_eq_iff f)
  moreover have "catalog ?s = catalog s" by (simp add: catalog_def fun_eq_iff n)
  moreover have "fd_name ?s = fd_name s" by (simp add: fd_name_def fun_eq_iff n e)
  ultimately have a: "abs_fs ?s = abs_fs s" by (simp add: abs_fs_def e cong: if_cong)
  have "names_terminated ?s = names_terminated s" by (simp add: names_terminated_def f)
  moreover have "names_distinct ?s = names_distinct s" "chains_ok ?s = chains_ok s" "count_ok ?s = count_ok s"
    "open_used ?s = open_used s" "layout_ok ?s = layout_ok s"
    by (simp_all add: names_distinct_def n chains_ok_def chain_ok_def u c f e count_ok_def used_fds_def open_used_def layout_ok_def d)
  ultimately show ?thesis
    using assms d e f a by (simp add: holds_def in_session_def sound_def fs_ok_def mounted_on_def)
qed

text \<open>Opening another file of the host does not concern the disk.\<close>

definition opened_host :: "string \<Rightarrow> host \<Rightarrow> host" where
  "opened_host name h = h\<lparr>host_fds := (host_fds h)(host_next h \<mapsto> name), host_next := host_next h + 1\<rparr>"

lemma host_opened:
  assumes "host_files h name = Some c" and "host_faults h = []"
  shows "host_open name h = (host_next h, opened_host name h)"
    and "host_fstat (host_next h) (opened_host name h) = (Some (length c), opened_host name h)"
    and "host_mmap (length c) (host_next h) (opened_host name h) = (c, opened_host name h)"
  using assms by (simp_all add: host_open_def host_fstat_def host_mmap_def host_content_def opened_host_def)

lemma owns_opened: "owns {path} files s \<Longrightarrow> owns {path} files (set_host (opened_host name (host (dev s))) s)"
  by (auto simp: owns_def writes_only_def set_host_def opened_host_def)

lemma holds_opened:
  assumes "holds path A s" and "owns {path} files s"
  shows "holds path A (set_host (opened_host name (host (dev s))) s)"
proof -
  from assms(1) have m: "disk_ok (dev s)" "calm (dev s)" "0 \<le> host_next (host (dev s))"
    by (simp_all add: holds_def in_session_def mounted_on_def)
  have fd: "disk_fd (disk (dev s)) < host_next (host (dev s))"
    using assms(2) m(1) by (simp add: owns_def writes_only_def disk_ok_def)
  show ?thesis
    unfolding set_host_def by (rule holds_on_device [OF assms(1)]) (use m fd in \<open>simp_all add: opened_host_def calm_def\<close>)
qed

text \<open>The name of a file, as a part of a line and as a path.\<close>

lemma path_of_literal: "path_of (literal name) = name"
proof -
  have "(of_char c :: byte) = word_of_nat (of_char c)" for c by (simp only: of_nat_of_char)
  then have "unat (of_char c :: byte) = of_char c mod 256" for c by (simp only: unat_of_nat) simp
  then show ?thesis by (simp add: path_of_def literal_def map_idI)
qed

lemma script_write_file:
  assumes "host_files (host (dev s)) (path_of p) = Some c" and "calm (dev s)" and "0 \<le> host_next (host (dev s))"
    and "length c < 2 ^ 31"
  shows "script_write [Ptr (literal ''WRITE''), Ptr (literal ''FILE''), Ptr p, Null] v s =
    script_write_data (Some c) (int (length c)) v (set_host (opened_host (path_of p) (host (dev s))) s)"
proof -
  have "int_of_size (length c) = int (length c)"
    using assms(4) by (simp add: int_of_size_def signed_take_bit_int_eq_self)
  moreover have "unat (of_nat (length c) :: u64) = length c" using assms(4) by (simp add: unat_of_nat)
  ultimately show ?thesis
    using assms(2,3) host_opened [OF assms(1)]
    by (simp add: script_write_def fetch_def host_open_ptr_def calm_def literal_def)
qed

lemma script_write_missing:
  assumes "host_files (host (dev s)) (path_of p) = None" and "calm (dev s)"
  shows "script_write [Ptr (literal ''WRITE''), Ptr (literal ''FILE''), Ptr p, Null] v s = leave (umount_and_die s)"
  using assms by (simp add: script_write_def fetch_def host_open_ptr_def calm_def literal_def host_open_def set_host_def)

end
