(* ===== verification/Script_Spec.thy ===== *)
theory Script_Spec
  imports Script_Files
begin

text \<open>
  What scripts do: a script whose lines have a meaning (\<open>covered\<close>) does on the disk what \<open>spec_line\<close> says
  of every line, in terms of the abstract file systems of theory \<open>Abstract_Fs\<close>.
\<close>

section \<open>What a script does\<close>

text \<open>
  The call of the API a line makes, if it makes one whose arguments are defined. \<open>path\<close> is the disk file and
  \<open>F\<close> the files of the host, for \<open>WRITE FILE\<close> of another file. \<open>gives_up\<close> are the lines that end the process
  without a call.
\<close>

definition first_arg :: "byte list list \<Rightarrow> c_str" where
  "first_arg parts = (case tl parts of [] \<Rightarrow> None | p # _ \<Rightarrow> Some p)"

definition script_call :: "string \<Rightarrow> (string \<rightharpoonup> byte list) \<Rightarrow> byte list list \<Rightarrow> int \<Rightarrow> call option" where
  "script_call path F parts fd =
     (if hd parts = literal ''CREATE'' then Some (Create (first_arg parts))
      else if hd parts = literal ''DELETE'' then Some (Delete (first_arg parts))
      else if hd parts = literal ''OPEN'' then Some (Open (first_arg parts))
      else if hd parts = literal ''CLOSE'' then Some (Close fd)
      else if hd parts = literal ''SEEK'' then
        (case first_arg parts of
          None \<Rightarrow> None
        | Some p \<Rightarrow> (case atoi p of Inl _ \<Rightarrow> None | Inr n \<Rightarrow> Some (Lseek fd (of_int n))))
      else if hd parts = literal ''WRITE'' then
        (case tl parts of
          [source, d] \<Rightarrow>
            if source = literal ''DATA'' then Some (Write fd (Some (c_mem d)) (of_nat (length d)))
            else if source = literal ''FILE'' \<and> path_of d \<noteq> path then
              (case F (path_of d) of
                None \<Rightarrow> None
              | Some c \<Rightarrow> if length c < 2147418112 then Some (Write fd (Some c) (of_nat (length c))) else None)
            else None
        | _ \<Rightarrow> None)
      else None)"

definition gives_up :: "string \<Rightarrow> (string \<rightharpoonup> byte list) \<Rightarrow> byte list list \<Rightarrow> bool" where
  "gives_up path F parts \<longleftrightarrow>
     (case parts of
       [w, source] \<Rightarrow> w = literal ''WRITE'' \<and> source \<noteq> literal ''DATA''
     | [w, x, y] \<Rightarrow>
         w = literal ''WRITE'' \<and> x \<noteq> literal ''DATA'' \<and>
           (x = literal ''FILE'' \<longrightarrow> path_of y \<noteq> path \<and> F (path_of y) = None) \<or>
         w = literal ''READ'' \<and> y \<noteq> literal ''DATA'' \<and> \<not> isl (atoi x)
     | _ \<Rightarrow> False)"

definition call_failed :: "call \<Rightarrow> int \<Rightarrow> bool" where
  "call_failed k r \<longleftrightarrow> (case k of Open _ \<Rightarrow> r < 0 | Write _ _ _ \<Rightarrow> r < 0 | _ \<Rightarrow> r \<noteq> 0)"

definition next_vars :: "call \<Rightarrow> int \<Rightarrow> script_vars \<Rightarrow> script_vars" where
  "next_vars k r v = (case k of Open _ \<Rightarrow> v\<lparr>script_fd := r\<rparr> | _ \<Rightarrow> v)"

definition script_reply :: "call \<Rightarrow> int \<Rightarrow> printed" where
  "script_reply k r =
     (case k of
       Create _ \<Rightarrow> (''CREATE successful.'' @ newline, [])
     | Delete _ \<Rightarrow> (''DELETE successful.'' @ newline, [])
     | Open _ \<Rightarrow> (''OPEN successful.'' @ newline, [])
     | Close _ \<Rightarrow> (''CLOSE successful.'' @ newline, [])
     | Lseek _ _ \<Rightarrow> (''SEEK successful.'' @ newline, [])
     | _ \<Rightarrow> (''Wrote %d bytes to file.'' @ newline, [Dec r]))"

lemma good_line_cases:
  assumes "good_line parts"
  obtains (one) p where "parts = [p]" | (two) p q where "parts = [p, q]" | (three) p q r where "parts = [p, q, r]"
proof (cases parts)
  case (Cons p ps)
  note p = this
  show ?thesis
  proof (cases ps)
    case (Cons q qs)
    with p assms that show ?thesis by (cases qs) (auto simp: good_line_def)
  qed (use p that in simp)
qed (use assms in \<open>simp add: good_line_def\<close>)

lemma part_array_simps [simp]:
  "part_array [p] = [Ptr p, Null, Dangling, Dangling]" "part_array [p, q] = [Ptr p, Ptr q, Null, Dangling]"
  "part_array [p, q, r] = [Ptr p, Ptr q, Ptr r, Null]"
  by (simp_all add: part_array_def numeral_eq_Suc)

lemma name_arg_first:
  assumes "good_line parts"
  shows "bnd (fetch (part_array parts) 1) name_arg = Inr (first_arg parts)"
    and "bnd (fetch (part_array parts) 1) deref = (case first_arg parts of None \<Rightarrow> Inl Null_deref | Some p \<Rightarrow> Inr p)"
  using assms by (auto elim!: good_line_cases simp: first_arg_def name_arg_def fetch_def)

lemma command_names [simp]:
  "literal ''MOUNT'' = [77, 79, 85, 78, 84]" "literal ''UMOUNT'' = [85, 77, 79, 85, 78, 84]"
  "literal ''CREATE'' = [67, 82, 69, 65, 84, 69]" "literal ''DELETE'' = [68, 69, 76, 69, 84, 69]"
  "literal ''OPEN'' = [79, 80, 69, 78]" "literal ''CLOSE'' = [67, 76, 79, 83, 69]"
  "literal ''SEEK'' = [83, 69, 69, 75]" "literal ''WRITE'' = [87, 82, 73, 84, 69]"
  "literal ''READ'' = [82, 69, 65, 68]" "literal ''DATA'' = [68, 65, 84, 65]" "literal ''FILE'' = [70, 73, 76, 69]"
  by (simp_all add: literal_def)

text \<open>A line runs its call on the state it finds, or with one more file of the host open.\<close>

definition beside :: "fs \<Rightarrow> fs \<Rightarrow> bool" where
  "beside s s0 \<longleftrightarrow> s0 = s \<or> (\<exists>name. s0 = set_host (opened_host name (host (dev s))) s)"

lemma script_command_call:
  assumes "good_line parts" and "script_call path F parts (script_fd v) = Some k"
    and "calm (dev s)" and "0 \<le> host_next (host (dev s))" and "\<And>p. p \<noteq> path \<Longrightarrow> host_files (host (dev s)) p = F p"
  obtains s0 where "beside s s0"
    and "script_command d (hd parts) (part_array parts) v s = bnd (run_call k s0) (\<lambda>(r, s).
      if call_failed k r then leave (umount_and_die s)
      else Inr (Next_line (next_vars k r v), printf (fst (script_reply k r)) (snd (script_reply k r)) s))"
proof (cases "hd parts = literal ''WRITE''")
  note defs = script_command_def call_failed_def next_vars_def script_reply_def
  {
    case True
    with assms(1,2) obtain source x where x: "parts = [literal ''WRITE'', source, x]"
      by (auto elim!: good_line_cases simp: script_call_def split: if_splits)
    show ?thesis
    proof (cases "source = literal ''DATA''")
      case True
      with x assms(2) have "k = Write (script_fd v) (Some (c_mem x)) (of_nat (length x))" by (simp add: script_call_def)
      with x True show ?thesis
        by (intro that [of s])
          (simp_all add: beside_def defs script_write_def script_write_data_def fetch_def cong: if_cong)
    next
      case False
      with x assms(2) obtain c where c: "source = literal ''FILE''" "path_of x \<noteq> path" "F (path_of x) = Some c"
        "length c < 2147418112" "k = Write (script_fd v) (Some c) (of_nat (length c))"
        by (auto simp: script_call_def split: if_splits option.splits)
      have f: "host_files (host (dev s)) (path_of x) = Some c" using assms(5) [OF c(2)] c(3) by simp
      show ?thesis
        by (rule that [of "set_host (opened_host (path_of x) (host (dev s))) s"])
          (use script_write_file [OF f assms(3,4), of v] c x in
            \<open>simp_all add: beside_def defs script_write_data_def cong: if_cong, blast?\<close>)
    qed
  next
    case False
    with assms(2) show ?thesis
      by (intro that [of s])
        (auto simp: beside_def script_call_def defs script_create_def script_delete_def script_open_def script_close_def
          script_seek_def name_arg_first [OF assms(1), unfolded One_nat_def]
          split: if_splits option.splits sum.splits cong: if_cong)
  }
qed

lemma gives_up_cases:
  assumes "gives_up path F parts"
  obtains (two) x where "parts = [literal ''WRITE'', x]" "x \<noteq> literal ''DATA''"
    | (missing) y where "parts = [literal ''WRITE'', literal ''FILE'', y]" "path_of y \<noteq> path" "F (path_of y) = None"
    | (other) x y where "parts = [literal ''WRITE'', x, y]" "x \<noteq> literal ''DATA''" "x \<noteq> literal ''FILE''"
    | (read) x y n where "parts = [literal ''READ'', x, y]" "y \<noteq> literal ''DATA''" "atoi x = Inr n"
  using assms by (auto simp: gives_up_def isl_def simp del: command_names split: list.splits) (metis sum.exhaust)

lemma gives_up_exits:
  assumes "gives_up path F parts" and "calm (dev s)" and "\<And>p. p \<noteq> path \<Longrightarrow> host_files (host (dev s)) p = F p"
  shows "script_command d (hd parts) (part_array parts) v s = leave (umount_and_die s)"
  using assms(1)
proof (cases rule: gives_up_cases)
  case missing
  with script_write_missing [of s _ v] assms(2,3) show ?thesis by (simp add: script_command_def)
qed (simp_all add: script_command_def script_write_def script_write_data_def script_read_def host_open_ptr_def fetch_def
    set_host_def)

section \<open>Scripts on abstract file systems\<close>

text \<open>
  \<open>spec_line\<close> is what a line does according to the specification of the API: it ends the process or goes
  on. \<open>None\<close> marks the lines for which the code has no defined result or does not do what it should: a
  second \<open>MOUNT\<close>, \<open>READ DATA\<close>, \<open>WRITE\<close>, \<open>READ\<close> and \<open>SEEK\<close> with missing or undefined arguments, \<open>WRITE FILE\<close>
  of the disk file itself or of \<open>2 ^ 31 - 2 ^ 16\<close> bytes and more, and \<open>DELETE\<close> of a file of two blocks or more.
\<close>

definition a_closed :: "afs \<Rightarrow> afs" where
  "a_closed A = A\<lparr>a_descs := Map.empty\<rparr>"

definition deletes_short :: "call \<Rightarrow> afs \<Rightarrow> bool" where
  "deletes_short k A \<longleftrightarrow>
     (case k of
       Delete (Some n) \<Rightarrow>
         (case a_files A (c_text n) of None \<Rightarrow> True | Some f \<Rightarrow> length (a_data f) \<le> BLOCK_SIZE)
     | _ \<Rightarrow> True)"

definition script_words :: "byte list set" where
  "script_words = literal ` {''MOUNT'', ''UMOUNT'', ''CREATE'', ''DELETE'', ''OPEN'', ''CLOSE'', ''SEEK'', ''WRITE'', ''READ''}"

definition spec_line :: "string \<Rightarrow> (string \<rightharpoonup> byte list) \<Rightarrow> (nat \<Rightarrow> byte) \<Rightarrow> byte list list \<Rightarrow> script_vars \<Rightarrow> afs \<Rightarrow> (command_end \<times> afs) option" where
  "spec_line path F stale parts v A =
     (if hd parts = literal ''UMOUNT'' then Some (Next_line (v\<lparr>mounted := False\<rparr>), a_closed A)
      else if hd parts \<notin> script_words then Some (Next_line v, A)
      else if gives_up path F parts then Some (Exit 1, a_closed A)
      else case script_call path F parts (script_fd v) of
        None \<Rightarrow> None
      | Some k \<Rightarrow>
          if \<not> mounted v then Some (Exit 1, A)
          else if \<not> deletes_short k A then None
          else case a_call stale k A of (r, _, A') \<Rightarrow>
            if r < 0 then Some (Exit 1, a_closed A') else Some (Next_line (next_vars k r v), A'))"

text \<open>
  A script is covered if no run of it meets a line without specification; \<open>script_outcome\<close> relates it to
  the statuses and file systems it may end with.
\<close>

primrec covered :: "string \<Rightarrow> (string \<rightharpoonup> byte list) \<Rightarrow> byte list list list \<Rightarrow> script_vars \<Rightarrow> afs \<Rightarrow> bool" where
  "covered path F [] v A = True"
| "covered path F (parts # rest) v A =
     (\<forall>stale. case spec_line path F stale parts v A of
       None \<Rightarrow> False
     | Some (Exit _, _) \<Rightarrow> True
     | Some (Next_line v', A') \<Rightarrow> covered path F rest v' A')"

inductive script_outcome :: "string \<Rightarrow> (string \<rightharpoonup> byte list) \<Rightarrow> byte list list list \<Rightarrow> script_vars \<Rightarrow> afs \<Rightarrow> int \<Rightarrow> afs \<Rightarrow> bool" where
  finished: "script_outcome path F [] v A 0 (a_closed A)"
| exits: "spec_line path F stale parts v A = Some (Exit status, A') \<Longrightarrow> script_outcome path F (parts # rest) v A status A'"
| goes_on: "spec_line path F stale parts v A = Some (Next_line v', A') \<Longrightarrow> script_outcome path F rest v' A' status A'' \<Longrightarrow>
    script_outcome path F (parts # rest) v A status A''"

text \<open>
  The states of the interpreter between two lines: the disk is mounted and holds \<open>A\<close>, or it was
  unmounted and the disk file is an image of \<open>A\<close>; the other files of the host are those of \<open>F\<close>.
\<close>

definition left_on :: "string \<Rightarrow> afs \<Rightarrow> fs \<Rightarrow> bool" where
  "left_on path A s \<longleftrightarrow>
     (\<exists>c. host_files (host (dev s)) path = Some c \<and> formatted c \<and> image_afs c = A) \<and>
     calm (dev s) \<and> 0 \<le> host_next (host (dev s))"

definition between_lines :: "string \<Rightarrow> (string \<rightharpoonup> byte list) \<Rightarrow> script_vars \<Rightarrow> afs \<Rightarrow> fs \<Rightarrow> bool" where
  "between_lines path F v A s \<longleftrightarrow>
     fd_arg (script_fd v) \<and> owns {path} F s \<and>
     (if mounted v then holds path A s else \<not> is_disk_mounted s \<and> a_closed A = A \<and> left_on path A s)"

lemma fs_umount_unmounts: "fs_umount s = Inr (0, s') \<Longrightarrow> \<not> is_disk_mounted s'"
  by (auto simp: fs_umount_def bnd_eq_Inr_iff case_prod_unfold split: if_splits)

lemma umount_leaves:
  assumes "holds path A s"
  obtains s' where "fs_umount s = Inr (0, s')" and "\<not> is_disk_mounted s'" and "left_on path (a_closed A) s'"
proof -
  have "runs (fs_umount s) (\<lambda>(r, s'). r = 0 \<and> left_on path (a_closed A) s')"
    by (rule runs_umount [OF assms]) (simp add: left_on_def a_closed_def calm_def)
  with fs_umount_unmounts that show ?thesis by (auto simp: runs_iff)
qed

lemma holds_printf: "holds path A s \<Longrightarrow> holds path A (printf fmt args s)"
  using stdout_fine [of s 0 "stdout s @ [(fmt, args)]"] in_session_kept [of path s "printf fmt args s"]
  by (auto simp: holds_def printf_def step_fine_def in_session_def)

lemma left_on_printf [simp]: "left_on path A (printf fmt args s) = left_on path A s"
  by (simp add: left_on_def)

lemma a_closed_closed [simp]: "a_closed (a_closed A) = a_closed A"
  by (simp add: a_closed_def)

lemma call_unmounted:
  assumes "\<not> is_disk_mounted s" and "script_call path F parts fd = Some k"
  shows "run_call k s = Inr (-1, s)"
  using assms
  by (auto simp: script_call_def fs_create_def fs_delete_def fs_open_def fs_close_def fs_lseek_def fs_write_def
      split: if_splits option.splits sum.splits list.splits)

section \<open>The interpreter implements it\<close>

lemma leave_die: "leave (die s) = Inr (Exit 1, s)"
  by (simp add: leave_def die_def)

lemma leave_unmounted: "\<not> is_disk_mounted s \<Longrightarrow> leave (umount_and_die s) = Inr (Exit 1, s)"
  by (simp add: umount_and_die_def fs_umount_def leave_die)

lemma leave_mounted:
  assumes "holds path A s"
  obtains s' where "leave (umount_and_die s) = Inr (Exit 1, s')" and "left_on path (a_closed A) s'"
  by (rule umount_leaves [OF assms]) (simp add: umount_and_die_def leave_die)

lemma call_failed_iff:
  assumes "script_call path F parts fd = Some k" and "a_call stale k A = (r, out, A')"
  shows "call_failed k r \<longleftrightarrow> r < 0"
  using assms
  by (auto simp: script_call_def call_failed_def a_create_def a_delete_def a_close_def a_lseek_def
      split: if_splits option.splits sum.splits list.splits prod.splits)

lemma script_call_write:
  assumes "script_call path F parts fd = Some k" and "good_line parts" and "hd parts = literal ''WRITE''"
  obtains buf n where "k = Write fd (Some buf) (of_nat n)" and "n \<le> length buf" and "n < 2147418112"
proof -
  from assms consider x where "parts = [literal ''WRITE'', literal ''DATA'', x]" "k = Write fd (Some (c_mem x)) (of_nat (length x))"
    | c where "length c < 2147418112" "k = Write fd (Some c) (of_nat (length c))"
    by (auto elim!: good_line_cases simp: script_call_def split: if_splits option.splits)
  then show ?thesis
  proof cases
    case (1 x)
    with assms(2) have "length x \<le> 1023" by (simp add: good_line_def line_of_def)
    with 1 show ?thesis by (intro that [of "c_mem x" "length x"]) (simp_all add: c_mem_def)
  qed (use that in auto)
qed

lemma script_call_admissible:
  assumes "script_call path F parts fd = Some k" and "good_line parts" and "fd_arg fd" and "holds path A s"
    and "deletes_short k A"
  shows "admissible k s"
proof (cases "hd parts = literal ''WRITE''")
  case True
  from script_call_write [OF assms(1,2) True] obtain buf n where
    w: "k = Write fd (Some buf) (of_nat n)" "n \<le> length buf" "n < 2147418112" by blast
  then have "unat (of_nat n :: u64) = n" by (simp add: unat_of_nat)
  with w assms(3) show ?thesis by (simp add: buf_arg_def small_count_def)
next
  case False
  have "admissible (Delete name) s" if "deletes_short (Delete name) A" for name
    by (rule short_delete_admissible [OF assms(4)]) (use that in \<open>simp add: deletes_short_def\<close>)
  with False assms show ?thesis
    by (auto simp: script_call_def simp del: admissible.simps(1) split: if_splits option.splits sum.splits)
qed

lemma call_does_not_give_up: "script_call path F parts fd = Some k \<Longrightarrow> \<not> gives_up path F parts"
  by (auto simp: script_call_def elim!: gives_up_cases)

lemma fd_arg_next:
  assumes "a_call stale k A = (r, out, A')" and "fd_arg (script_fd v)"
  shows "fd_arg (script_fd (next_vars k r v))"
proof (cases k)
  case (Open name)
  then have "r = -1 \<or> (\<exists>i. r = int i \<and> i < FS_OPEN_MAX_COUNT)"
    using assms(1) by (auto simp: a_open_def find_upt_Some_iff split: option.splits if_splits)
  with Open show ?thesis by (auto simp: next_vars_def fd_arg_def)
qed (use assms in \<open>simp_all add: next_vars_def\<close>)

lemma script_command_others:
  assumes "hd parts \<notin> script_words"
  shows "script_command d (hd parts) args v s = Inr (Next_line v, s)"
  using assms by (simp add: script_command_def script_words_def del: command_names)

lemma umount_line:
  assumes "between_lines path F v A s"
  obtains s' where "(if mounted v then fs_umount s else Inr (0, s)) = Inr (0, s')" and "\<not> is_disk_mounted s'"
    and "left_on path (a_closed A) s'" and "owns {path} F s'"
proof (cases "mounted v")
  case True
  with assms have s: "holds path A s" "owns {path} F s" by (simp_all add: between_lines_def)
  show ?thesis by (rule umount_leaves [OF s(1)]) (use True owned.fs_umount_kept [OF _ s(2)] that in auto)
qed (use assms that in \<open>auto simp: between_lines_def\<close>)

lemma script_umount_ok:
  assumes "between_lines path F v A s"
  obtains s' where "script_umount v s = Inr (Next_line (v\<lparr>mounted := False\<rparr>), s')"
    and "between_lines path F (v\<lparr>mounted := False\<rparr>) (a_closed A) s'"
proof (rule umount_line [OF assms])
  fix s0
  assume "(if mounted v then fs_umount s else Inr (0, s)) = Inr (0, s0)" "\<not> is_disk_mounted s0"
    "left_on path (a_closed A) s0" "owns {path} F s0"
  with assms show ?thesis
    by (intro that [of "printf (''UMOUNT successful.'' @ newline) [] s0"])
      (simp_all add: script_umount_def between_lines_def printf_def left_on_def)
qed

text \<open>Opening another file of the host leaves the interpreter where it is between two lines.\<close>

lemma between_linesD:
  assumes "between_lines path F v A s"
  shows "calm (dev s)" and "0 \<le> host_next (host (dev s))" and "p \<noteq> path \<Longrightarrow> host_files (host (dev s)) p = F p"
  using assms
  by (auto simp: between_lines_def left_on_def holds_def in_session_def mounted_on_def owns_def writes_only_def split: if_splits)

lemma beside_between_lines:
  assumes "between_lines path F v A s" and "beside s s0"
  shows "between_lines path F v A s0"
proof -
  have "left_on path A (set_host (opened_host name (host (dev s))) s)" if "left_on path A s" for name
    using that by (auto simp: left_on_def set_host_def opened_host_def calm_def)
  moreover have "is_disk_mounted (set_host h s) = is_disk_mounted s" for h by (simp add: set_host_def)
  ultimately show ?thesis
    using assms by (auto simp: between_lines_def beside_def intro: holds_opened owns_opened)
qed

text \<open>A line that names a call, on a mounted disk.\<close>

lemma script_call_ok:
  assumes "between_lines path F v A s" and "mounted v" and "good_line parts"
    and "script_call path F parts (script_fd v) = Some k" and "deletes_short k A"
  obtains stale r out A' e s' where "a_call stale k A = (r, out, A')"
    and "script_command path (hd parts) (part_array parts) v s = Inr (e, s')"
    and "if r < 0 then e = Exit 1 \<and> left_on path (a_closed A') s'
      else e = Next_line (next_vars k r v) \<and> between_lines path F (next_vars k r v) A' s'"
proof (rule script_command_call [OF assms(3,4) between_linesD [OF assms(1)], where d = path])
  fix s0
  assume s0: "beside s s0" "script_command path (hd parts) (part_array parts) v s = bnd (run_call k s0) (\<lambda>(r, s).
    if call_failed k r then leave (umount_and_die s)
    else Inr (Next_line (next_vars k r v), printf (fst (script_reply k r)) (snd (script_reply k r)) s))"
  have b: "holds path A s0" "fd_arg (script_fd v)" "owns {path} F s0"
    using beside_between_lines [OF assms(1) s0(1)] assms(2) by (simp_all add: between_lines_def)
  show ?thesis
  proof (rule runs_call [OF b(1) script_call_admissible [OF assms(4,3) b(2,1) assms(5)]])
    fix stale r out s'
    assume k: "a_call stale k A = (r, out, abs_fs s')" "observe k s0 = Inr (r, out, s')" "in_session path s'"
    then have h': "holds path (abs_fs s') s'" by (simp add: holds_def)
    note c = s0(2) [unfolded observe_run_call [OF k(2)], simplified, unfolded call_failed_iff [OF assms(4) k(1)]]
    show ?thesis
    proof (cases "r < 0")
      case True
      obtain s1 where "leave (umount_and_die s') = Inr (Exit 1, s1)" "left_on path (a_closed (abs_fs s')) s1"
        by (rule leave_mounted [OF h'])
      with True c k(1) show ?thesis by (intro that [of stale r out "abs_fs s'" "Exit 1" s1]) simp_all
    next
      case False
      have "mounted (next_vars k r v)" using assms(2) by (simp add: next_vars_def split: call.splits)
      moreover have "owns {path} F s'" by (rule run_call_owns [OF observe_run_call [OF k(2)] b(3)])
      ultimately show ?thesis using False c k(1)
        by (intro that [of stale r out "abs_fs s'" "Next_line (next_vars k r v)"
            "printf (fst (script_reply k r)) (snd (script_reply k r)) s'"])
          (simp_all add: between_lines_def fd_arg_next [OF k(1) b(2)] holds_printf [OF h'])
    qed
  qed
qed

text \<open>A line that names a call, after \<open>UMOUNT\<close>, and a line that ends the process.\<close>

lemma script_call_unmounted:
  assumes "between_lines path F v A s" and "\<not> mounted v" and "good_line parts"
    and "script_call path F parts (script_fd v) = Some k"
  obtains s' where "script_command path (hd parts) (part_array parts) v s = Inr (Exit 1, s')" and "left_on path A s'"
proof (rule script_command_call [OF assms(3,4) between_linesD [OF assms(1)], where d = path])
  fix s0
  assume s0: "beside s s0" "script_command path (hd parts) (part_array parts) v s = bnd (run_call k s0) (\<lambda>(r, s).
    if call_failed k r then leave (umount_and_die s)
    else Inr (Next_line (next_vars k r v), printf (fst (script_reply k r)) (snd (script_reply k r)) s))"
  have s: "\<not> is_disk_mounted s0" "left_on path A s0"
    using beside_between_lines [OF assms(1) s0(1)] assms(2) by (simp_all add: between_lines_def)
  have "call_failed k (-1)" by (simp add: call_failed_def split: call.splits)
  then show ?thesis by (intro that [of s0]) (simp_all add: s0(2) call_unmounted [OF s(1) assms(4)] leave_unmounted s)
qed

lemma gives_up_ok:
  assumes "between_lines path F v A s" and "gives_up path F parts"
  obtains s' where "script_command path (hd parts) (part_array parts) v s = Inr (Exit 1, s')"
    and "left_on path (a_closed A) s'"
proof (cases "mounted v")
  case True
  with assms(1) have "holds path A s" by (simp add: between_lines_def)
  then obtain s' where "leave (umount_and_die s) = Inr (Exit 1, s')" "left_on path (a_closed A) s'" by (rule leave_mounted)
  with gives_up_exits [OF assms(2) between_linesD(1,3) [OF assms(1)]] that show ?thesis by simp
next
  case False
  with assms(1) have "\<not> is_disk_mounted s" "left_on path (a_closed A) s" by (simp_all add: between_lines_def)
  with gives_up_exits [OF assms(2) between_linesD(1,3) [OF assms(1)]] that leave_unmounted show ?thesis by simp
qed

lemma script_call_line_ok:
  assumes "between_lines path F v A s" and "good_line parts" and "script_call path F parts (script_fd v) = Some k"
    and "hd parts \<noteq> literal ''UMOUNT''" and "hd parts \<in> script_words" and "\<not> gives_up path F parts"
    and "\<And>stale. spec_line path F stale parts v A \<noteq> None"
  obtains stale e A' s' where "script_command path (hd parts) (part_array parts) v s = Inr (e, s')"
    and "spec_line path F stale parts v A = Some (e, A')"
    and "case e of Exit _ \<Rightarrow> left_on path A' s' | Next_line v' \<Rightarrow> between_lines path F v' A' s'"
proof (cases "mounted v")
  case False
  from script_call_unmounted [OF assms(1) False assms(2,3)] that [of "Exit 1" _ undefined A] assms(3-6) False
  show ?thesis by (auto simp: spec_line_def)
next
  case True
  have d: "deletes_short k A" using assms(7) [of undefined] assms(3-6) True by (auto simp: spec_line_def split: if_splits)
  show ?thesis
  proof (rule script_call_ok [OF assms(1) True assms(2,3) d])
    fix stale r out A' e s'
    assume k: "a_call stale k A = (r, out, A')"
      "script_command path (hd parts) (part_array parts) v s = Inr (e, s')"
      "if r < 0 then e = Exit 1 \<and> left_on path (a_closed A') s'
       else e = Next_line (next_vars k r v) \<and> between_lines path F (next_vars k r v) A' s'"
    with assms(3-6) True d show ?thesis
      by (intro that [of e s' stale "if r < 0 then a_closed A' else A'"])
        (auto simp: spec_line_def split: if_splits)
  qed
qed

lemma script_command_ok:
  assumes "between_lines path F v A s" and "good_line parts" and "\<And>stale. spec_line path F stale parts v A \<noteq> None"
  obtains stale e A' s' where "script_command path (hd parts) (part_array parts) v s = Inr (e, s')"
    and "spec_line path F stale parts v A = Some (e, A')"
    and "case e of Exit _ \<Rightarrow> left_on path A' s' | Next_line v' \<Rightarrow> between_lines path F v' A' s'"
proof -
  consider (umount) "hd parts = literal ''UMOUNT''" | (other) "hd parts \<notin> script_words"
    | (gives_up) "gives_up path F parts" "hd parts \<noteq> literal ''UMOUNT''" "hd parts \<in> script_words"
    | (call) k where "script_call path F parts (script_fd v) = Some k" "hd parts \<noteq> literal ''UMOUNT''" "hd parts \<in> script_words"
        "\<not> gives_up path F parts"
    using assms(3) [of undefined] by (auto simp: spec_line_def split: option.splits if_splits simp del: command_names)
  then show ?thesis
  proof cases
    case umount
    obtain s' where "script_umount v s = Inr (Next_line (v\<lparr>mounted := False\<rparr>), s')"
      "between_lines path F (v\<lparr>mounted := False\<rparr>) (a_closed A) s'"
      by (rule script_umount_ok [OF assms(1)])
    with umount show ?thesis
      by (intro that [of "Next_line (v\<lparr>mounted := False\<rparr>)" s' undefined "a_closed A"])
        (simp_all add: script_command_def spec_line_def)
  next
    case other
    with assms(1) show ?thesis
      by (intro that [of "Next_line v" s undefined A])
        (simp_all add: script_command_others, auto simp: spec_line_def script_words_def)
  next
    case gives_up
    from gives_up_ok [OF assms(1) gives_up(1)] that [of "Exit 1" _ undefined "a_closed A"] gives_up show ?thesis
      by (auto simp: spec_line_def)
  next
    case call
    from script_call_line_ok [OF assms(1,2) call(1) _ _ call(4)] call(2,3) assms(3) that show ?thesis by metis
  qed
qed

section \<open>A whole script\<close>

definition script_text :: "byte list list list \<Rightarrow> byte list" where
  "script_text cmds = concat (map line_of cmds)"

lemma coveredD: "covered path F (parts # rest) v A \<Longrightarrow> spec_line path F stale parts v A \<noteq> None"
  by (auto split: option.splits)

lemma script_lines_ok:
  assumes "between_lines path F v A s" and "\<forall>parts \<in> set cmds. good_line parts" and "covered path F cmds v A"
  shows "\<exists>e s'. script_lines path (script_text cmds) v s = Inr (e, s') \<and>
    (case e of
      Exit status \<Rightarrow> \<exists>A'. script_outcome path F cmds v A status A' \<and> left_on path A' s'
    | Next_line v' \<Rightarrow> \<exists>A'. script_outcome path F cmds v A 0 (a_closed A') \<and> between_lines path F v' A' s')"
  using assms
proof (induction cmds arbitrary: v A s)
  case Nil
  then show ?case
    using script_lines_end [OF between_linesD(1) [OF Nil.prems(1)]]
    by (auto simp: script_text_def intro: script_outcome.finished)
next
  case (Cons parts rest)
  have g: "good_line parts" using Cons.prems(2) by simp
  have t: "script_text (parts # rest) = line_of parts @ script_text rest" by (simp add: script_text_def)
  show ?case
  proof (rule script_command_ok [OF Cons.prems(1) g coveredD [OF Cons.prems(3)]])
    fix stale e A' s'
    assume c: "script_command path (hd parts) (part_array parts) v s = Inr (e, s')"
      "spec_line path F stale parts v A = Some (e, A')"
      "case e of Exit _ \<Rightarrow> left_on path A' s' | Next_line v' \<Rightarrow> between_lines path F v' A' s'"
    note l = script_lines_line [OF g between_linesD(1) [OF Cons.prems(1)], of path "script_text rest" v, unfolded c(1)]
    show ?case
    proof (cases e)
      case (Exit status)
      with c(2,3) l t show ?thesis by (auto intro: script_outcome.exits)
    next
      case (Next_line v')
      have "covered path F rest v' A'" using Cons.prems(3) c(2) Next_line by (auto dest!: spec [of _ stale])
      with Cons.IH [of v' A' s'] Cons.prems(2) c(3) Next_line
      obtain e' s'' where "script_lines path (script_text rest) v' s' = Inr (e', s'')"
        "case e' of
          Exit status \<Rightarrow> \<exists>A''. script_outcome path F rest v' A' status A'' \<and> left_on path A'' s''
        | Next_line v'' \<Rightarrow> \<exists>A''. script_outcome path F rest v' A' 0 (a_closed A'') \<and> between_lines path F v'' A'' s''"
        by auto
      with l t c(2) Next_line show ?thesis
        by (cases e') (auto intro: script_outcome.goes_on)
    qed
  qed
qed

text \<open>The variables of the interpreter after the first \<open>MOUNT\<close>.\<close>

definition mounted_vars :: script_vars where
  "mounted_vars = \<lparr>mounted = True, script_fd = -1\<rparr>"

lemma mount_line_ok:
  assumes "host_files h path = Some c" and "formatted c" and "host_faults h = []" and "0 \<le> host_next h"
  obtains s where "script_lines path (line_of [literal ''MOUNT''] @ rest) \<lparr>mounted = False, script_fd = -1\<rparr> (fs_init j h) =
      script_lines path rest mounted_vars s"
    and "between_lines path (host_files h) mounted_vars (image_afs c) s"
proof (rule mount_abs [OF assms, of j])
  fix s assume s: "fs_mount (Some path) (fs_init j h) = Inr (0, s)" "in_session path s" "abs_fs s = image_afs c"
  let ?s = "printf (''MOUNT successful.'' @ newline) [] s"
  have "good_line [literal ''MOUNT'']"
    by (simp add: good_line_def clean_part_def line_of_def)
  moreover have "calm (dev (fs_init j h))" using assms(3) by (simp add: calm_def fs_init_def)
  ultimately have "script_lines path (line_of [literal ''MOUNT''] @ rest) \<lparr>mounted = False, script_fd = -1\<rparr> (fs_init j h) =
      script_lines path rest mounted_vars ?s"
    using s(1) by (simp add: script_lines_line script_command_def script_mount_def mounted_vars_def)
  moreover have h: "holds path (image_afs c) ?s" by (rule holds_printf) (simp add: holds_def s(2,3))
  have "owns {path} (host_files h) ?s" using fs_mount_owns [OF s(1) owns_init] by (simp add: printf_def)
  with h have "between_lines path (host_files h) mounted_vars (image_afs c) ?s"
    by (simp add: between_lines_def mounted_vars_def fd_arg_def)
  ultimately show ?thesis by (rule that)
qed

lemma script_ok:
  assumes "host_files h path = Some c" and "formatted c" and "host_faults h = []" and "0 \<le> host_next h"
    and "host_files h script = Some (script_text ([literal ''MOUNT''] # cmds))"
    and "\<forall>parts \<in> set cmds. good_line parts" and "covered path (host_files h) cmds mounted_vars (image_afs c)"
  obtains status A s where "thread_fs_script [path, script] (fs_init j h) = Inr (status, s)"
    and "script_outcome path (host_files h) cmds mounted_vars (image_afs c) status A" and "left_on path A s"
proof -
  let ?h = "h\<lparr>host_fds := (host_fds h)(host_next h \<mapsto> script), host_next := host_next h + 1\<rparr>"
  have h: "host_open script h = (host_next h, ?h)" "host_content (host_next h) ?h = host_files h script"
    using assms(3,5) by (simp_all add: host_open_def host_content_def)
  have st: "script_text ([literal ''MOUNT''] # cmds) = line_of [literal ''MOUNT''] @ script_text cmds"
    by (simp add: script_text_def)
  have run: "thread_fs_script [path, script] (fs_init j h) =
      bnd (script_lines path (line_of [literal ''MOUNT''] @ script_text cmds) \<lparr>mounted = False, script_fd = -1\<rparr> (fs_init j ?h))
        (\<lambda>(e, s). case e of
          Exit status \<Rightarrow> Inr (status, s)
        | Next_line v \<Rightarrow> bnd (if mounted v then fs_umount s else Inr (0, s)) (\<lambda>(r, s).
            if r \<noteq> 0 then die s else Inr (0, set_host (host_close (host_next h) (host (dev s))) s)))"
    using assms(4,5) h st by (simp add: thread_fs_script_def fs_init_def set_host_def)
  obtain s where s: "script_lines path (line_of [literal ''MOUNT''] @ script_text cmds) \<lparr>mounted = False, script_fd = -1\<rparr>
      (fs_init j ?h) = script_lines path (script_text cmds) mounted_vars s"
    "between_lines path (host_files h) mounted_vars (image_afs c) s"
    by (rule mount_line_ok [of ?h path c "script_text cmds" j]) (use assms(1-4) in simp_all)
  from script_lines_ok [OF s(2) assms(6,7)] obtain e s' where e:
    "script_lines path (script_text cmds) mounted_vars s = Inr (e, s')"
    "case e of
      Exit status \<Rightarrow> \<exists>A'. script_outcome path (host_files h) cmds mounted_vars (image_afs c) status A' \<and> left_on path A' s'
    | Next_line v' \<Rightarrow> \<exists>A'. script_outcome path (host_files h) cmds mounted_vars (image_afs c) 0 (a_closed A') \<and> between_lines path (host_files h) v' A' s'"
    by blast
  show ?thesis
  proof (cases e)
    case (Exit status)
    with run s(1) e that show ?thesis by auto
  next
    case (Next_line v)
    with e(2) obtain A' where A: "script_outcome path (host_files h) cmds mounted_vars (image_afs c) 0 (a_closed A')"
      "between_lines path (host_files h) v A' s'" by auto
    obtain s0 where s0: "(if mounted v then fs_umount s' else Inr (0, s')) = Inr (0, s0)" "left_on path (a_closed A') s0"
      by (rule umount_line [OF A(2)])
    with run s(1) e(1) Next_line have
      "thread_fs_script [path, script] (fs_init j h) = Inr (0, set_host (host_close (host_next h) (host (dev s0))) s0)"
      by simp
    moreover have "left_on path (a_closed A') (set_host (host_close (host_next h) (host (dev s0))) s0)"
      using s0(2) by (simp add: left_on_def calm_def host_close_def)
    ultimately show ?thesis using A(1) by (intro that)
  qed
qed

section \<open>Following a script\<close>

inductive_simps script_outcome_simps: "script_outcome path F [] v A status A'" "script_outcome path F (parts # rest) v A status A'"

text \<open>
  A script is covered, and all that it may end with satisfies \<open>P\<close>: line by line.
\<close>

definition script_ends :: "string \<Rightarrow> (string \<rightharpoonup> byte list) \<Rightarrow> (int \<Rightarrow> afs \<Rightarrow> bool) \<Rightarrow> byte list list list \<Rightarrow> script_vars \<Rightarrow> afs \<Rightarrow> bool" where
  "script_ends path F P cmds v A \<longleftrightarrow> covered path F cmds v A \<and> (\<forall>status A'. script_outcome path F cmds v A status A' \<longrightarrow> P status A')"

lemma script_ends_Nil: "P 0 (a_closed A) \<Longrightarrow> script_ends path F P [] v A"
  by (simp add: script_ends_def script_outcome_simps)

lemma script_ends_line:
  assumes "\<And>stale. \<exists>v' A'. spec_line path F stale parts v A = Some (Next_line v', A') \<and> script_ends path F P rest v' A'"
  shows "script_ends path F P (parts # rest) v A"
proof -
  have "case spec_line path F stale parts v A of None \<Rightarrow> False | Some (Exit _, _) \<Rightarrow> True | Some (Next_line v', A') \<Rightarrow> covered path F rest v' A'"
    for stale using assms [of stale] by (auto simp: script_ends_def)
  moreover have "P status A''" if "script_outcome path F (parts # rest) v A status A''" for status A''
    using that assms by (auto simp: script_outcome_simps script_ends_def) (metis Pair_inject command_end.distinct(1) command_end.inject(2) option.inject)+
  ultimately show ?thesis by (simp add: script_ends_def)
qed

lemma script_ends_call:
  assumes "script_call path F parts (script_fd v) = Some k" and "hd parts \<in> script_words - {literal ''UMOUNT''}" and "mounted v"
    and "deletes_short k A"
    and "\<And>stale. \<exists>r out A'. a_call stale k A = (r, out, A') \<and> 0 \<le> r \<and> script_ends path F P rest (next_vars k r v) A'"
  shows "script_ends path F P (parts # rest) v A"
proof (rule script_ends_line)
  fix stale
  from assms(5) [of stale] obtain r out A' where
    "a_call stale k A = (r, out, A')" "0 \<le> r" "script_ends path F P rest (next_vars k r v) A'" by blast
  with assms(1-4) show "\<exists>v' A'. spec_line path F stale parts v A = Some (Next_line v', A') \<and> script_ends path F P rest v' A'"
    by (auto simp: spec_line_def call_does_not_give_up)
qed

lemma a_write_c_mem:
  assumes "length d < 2147418112"
  shows "a_write stale fd (Some (c_mem d)) (of_nat (length d)) A = a_write stale fd (Some d) (of_nat (length d)) A"
proof -
  have "unat (of_nat (length d) :: u64) = length d" using assms by (simp add: unat_of_nat)
  moreover have "take (min (length d) k) (d @ [0]) = take (min (length d) k) d" for k by simp
  ultimately show ?thesis
    by (cases "a_desc A fd") (auto simp del: take_append simp: a_write_def c_mem_def Let_def)
qed

lemma with_file_closed: "a_descs A = Map.empty \<Longrightarrow> a_closed (with_file n d rest A) = with_file n d rest A"
  by (cases A) (simp add: a_closed_def with_file_def)

text \<open>A script that creates a file and writes to it; \<open>line_data\<close> is what a line \<open>WRITE\<close> writes.\<close>

definition line_data :: "string \<Rightarrow> (string \<rightharpoonup> byte list) \<Rightarrow> byte list list \<Rightarrow> byte list option" where
  "line_data path F parts =
     (case parts of
       [w, source, x] \<Rightarrow>
         if w \<noteq> literal ''WRITE'' then None
         else if source = literal ''DATA'' then Some x
         else if source = literal ''FILE'' \<and> path_of x \<noteq> path then F (path_of x)
         else None
     | _ \<Rightarrow> None)"

lemma line_data_call:
  assumes "line_data path F parts = Some d" and "length d < 2147418112"
  obtains b where "script_call path F parts fd = Some (Write fd (Some b) (of_nat (length d)))" and "b = d \<or> b = c_mem d"
    and "hd parts = literal ''WRITE''"
proof -
  from assms(1) obtain source x where x: "parts = [literal ''WRITE'', source, x]"
    by (auto simp: line_data_def simp del: command_names split: list.splits if_splits)
  with assms that [of d] that [of "c_mem d"] show ?thesis
    by (auto simp: line_data_def script_call_def split: if_splits)
qed

definition store_script :: "byte list \<Rightarrow> byte list list \<Rightarrow> byte list list list" where
  "store_script n w = [[literal ''CREATE'', n], [literal ''OPEN'', n], w, [literal ''CLOSE'']]"

lemma script_ends_write:
  assumes "line_data path F w = Some d" and "length d < 2147418112" and "mounted v"
    and "\<And>stale. \<exists>A'. a_write stale (script_fd v) (Some d) (of_nat (length d)) A = (int (length d), A') \<and>
      script_ends path F P rest v A'"
  shows "script_ends path F P (w # rest) v A"
proof -
  from line_data_call [OF assms(1,2), of "script_fd v"] obtain b where
    b: "script_call path F w (script_fd v) = Some (Write (script_fd v) (Some b) (of_nat (length d)))" "b = d \<or> b = c_mem d"
      "hd w = literal ''WRITE''"
    by blast
  have "\<exists>r out A'. a_call stale (Write (script_fd v) (Some b) (of_nat (length d))) A = (r, out, A') \<and> 0 \<le> r \<and>
      script_ends path F P rest v A'" for stale
    using assms(4) [of stale] b(2) a_write_c_mem [OF assms(2)] by auto
  with assms(3) b(3) show ?thesis
    by (intro script_ends_call [OF b(1)]) (simp_all add: deletes_short_def script_words_def next_vars_def)
qed

lemma store_script_ends:
  assumes "room_for n (length d) A" and "line_data path F w = Some d"
  shows "script_ends path F (\<lambda>status A'. status = 0 \<and> (\<exists>rest. A' = with_file n d rest A)) (store_script n w) mounted_vars A"
proof -
  let ?A1 = "A\<lparr>a_files := (a_files A)(c_text n \<mapsto> \<lparr>a_size = 0, a_data = []\<rparr>)\<rparr>"
  let ?A2 = "a_move 0 (c_text n) 0 ?A1" and ?v = "mounted_vars\<lparr>script_fd := 0\<rparr>"
  from assms(1) have A: "a_descs A = Map.empty" "valid_name n" "a_files A (c_text n) = None"
    "\<not> FS_FILE_MAX_COUNT \<le> card (dom (a_files A))" "0 < length d" "length d < 2147418112"
    "blocks_needed (length d) \<le> a_room A"
    by (simp_all add: room_for_def)
  have v: "mounted mounted_vars" "mounted ?v" "script_fd ?v = 0" by (simp_all add: mounted_vars_def)
  note line = v script_call_def first_arg_def deletes_short_def script_words_def
  let ?P = "\<lambda>status A'. status = 0 \<and> (\<exists>rest. A' = with_file n d rest A)"
  let ?A3 = "\<lambda>rest. a_move 0 (c_text n) (of_nat (length d)) (?A2\<lparr>a_files := (a_files ?A2)(c_text n \<mapsto>
    \<lparr>a_size = of_nat (length d), a_data = d @ rest\<rparr>), a_room := a_room ?A2 - blocks_needed (length d)\<rparr>)"
  have close4: "script_ends path F ?P [[literal ''CLOSE'']] ?v (?A3 rest)" for rest
  proof (rule script_ends_call [where k = "Close 0"], goal_cases)
    case (5 stale)
    have "a_call stale (Close 0) (?A3 rest) = (0, None, with_file n d rest A)"
      by (simp add: a_close_def with_file_def) (simp add: a_move_def A(1))
    moreover have "script_ends path F ?P [] ?v (with_file n d rest A)"
      by (rule script_ends_Nil) (simp add: with_file_closed A(1), blast)
    ultimately show ?case by (simp add: next_vars_def)
  qed (simp_all add: line)
  have write3: "script_ends path F ?P [w, [literal ''CLOSE'']] ?v ?A2"
  proof (rule script_ends_write [OF assms(2) A(6) v(2)])
    fix stale
    obtain rest where "a_write stale 0 (Some d) (of_nat (length d)) ?A2 = (int (length d), ?A3 rest)"
      by (rule a_write_new [of ?A2 0 "c_text n" d stale]) (use A in simp_all)
    with close4 [of rest] show "\<exists>A'. a_write stale (script_fd ?v) (Some d) (of_nat (length d)) ?A2 = (int (length d), A') \<and>
        script_ends path F ?P [[literal ''CLOSE'']] ?v A'"
      unfolding v(3) by blast
  qed
  have open2: "script_ends path F ?P [[literal ''OPEN'', n], w, [literal ''CLOSE'']]
    mounted_vars ?A1"
  proof (rule script_ends_call [where k = "Open (Some n)"], goal_cases)
    case (5 stale)
    have "a_call stale (Open (Some n)) ?A1 = (0, None, ?A2)" using a_open_first [of ?A1 n] A by simp
    with write3 show ?case by (auto simp: next_vars_def simp del: a_call.simps)
  qed (simp_all add: line)
  show ?thesis unfolding store_script_def
  proof (rule script_ends_call [where k = "Create (Some n)"], goal_cases)
    case (5 stale)
    have "a_call stale (Create (Some n)) A = (0, None, ?A1)" using A by (simp add: a_create_def)
    with open2 show ?case by (auto simp: next_vars_def simp del: a_call.simps)
  qed (simp_all add: line)
qed

end
