(* ===== verification/Open_Counts.thy ===== *)
theory Open_Counts
  imports Typed_States
begin

text \<open>
  The global \<open>num_open_files\<close> of \<open>fs.c\<close> against the table of descriptors, in every run of every program,
  with any arguments and on any host. \<open>fs_open\<close> and \<open>fs_close\<close> keep the two in step; \<open>fs_umount\<close> touches
  neither, and a successful \<open>fs_mount\<close> clears the table but not the counter.
\<close>

section \<open>Slots in use\<close>

definition in_use :: "fs \<Rightarrow> bool list" where
  "in_use s = map (\<lambda>e. e \<noteq> None) (open_files s)"

lemma used_fds_in_use: "used_fds s = count_list (in_use s) True"
proof -
  have "length (filter (\<lambda>e. e \<noteq> None) es) = count_list (map (\<lambda>e. e \<noteq> None) es) True" for es :: "'a option list"
    by (induction es) auto
  then show ?thesis by (simp add: used_fds_def in_use_def)
qed

lemma count_list_taken: "i < length us \<Longrightarrow> \<not> us ! i \<Longrightarrow> count_list (us[i := True]) True = Suc (count_list us True)"
  by (induction us arbitrary: i) (auto split: nat.split simp: nth_Cons')

lemma count_list_released: "i < length us \<Longrightarrow> us ! i \<Longrightarrow> Suc (count_list (us[i := False]) True) = count_list us True"
  by (induction us arbitrary: i) (auto split: nat.split simp: nth_Cons')

lemma in_use_simps [simp]:
  "in_use (s\<lparr>dev := d\<rparr>) = in_use s" "in_use (s\<lparr>num_open_files := n\<rparr>) = in_use s" "in_use (with_fat F s) = in_use s"
  "in_use (printf fmt args s) = in_use s" "in_use (set_file a f s) = in_use s"
  "num_open_files (printf fmt args s) = num_open_files s"
  "in_use (set_fd_entry fd e s) = (in_use s)[fd := (e \<noteq> None)]"
  by (simp_all add: in_use_def printf_def set_fd_entry_def map_update)

lemma fd_entry_in_use: "fd_entry fd s = Inr e \<Longrightarrow> fd < length (in_use s) \<and> in_use s ! fd"
  by (auto simp: fd_entry_def bnd_eq_Inr_iff in_use_def fetch_def split: option.splits if_splits)

section \<open>Calls\<close>

text \<open>No call but \<open>fs_open\<close> and \<open>fs_close\<close> changes which slots are in use, or the counter.\<close>

interpretation counts: kept_by_calls "\<lambda>s. in_use s = us \<and> num_open_files s = n" "\<lambda>_ _. True" "\<lambda>fd _. fd < length us \<and> us ! fd"
  for us n
proof
  show "fd < length us \<and> us ! fd" if "fd_entry fd s = Inr e" "in_use s = us \<and> num_open_files s = n" for fd s e
    using fd_entry_in_use [OF that(1)] that(2) by simp
  show "in_use (set_fd_entry fd (Some e) s) = us \<and> num_open_files (set_fd_entry fd (Some e) s) = n"
    if "fd < length us \<and> us ! fd" "in_use s = us \<and> num_open_files s = n" for fd e s
    using that list_update_id [of us fd] by simp
qed simp_all

lemma find_first_SomeD: "find_first i n p = Inr (Some k) \<Longrightarrow> k < n \<and> p k = Inr True"
proof (induction i n p rule: find_first.induct)
  case (1 i n p)
  from "1.prems" obtain hit where "i < n" "p i = Inr hit" "if hit then k = i else find_first (Suc i) n p = Inr (Some k)"
    by (subst (asm) find_first.simps) (auto simp: bnd_eq_Inr_iff split: if_splits)
  with "1.IH" show ?case by (cases hit) auto
qed

lemma malloc_counts: "malloc s = (b, s') \<Longrightarrow> in_use s' = in_use s \<and> num_open_files s' = num_open_files s"
  by (auto simp: malloc_def split: prod.splits)

text \<open>Opening takes a free slot and counts it.\<close>

lemma add_file_counts:
  assumes "add_file_to_fd_array p s = Inr (r, s')"
  shows "(in_use s' = in_use s \<and> num_open_files s' = num_open_files s) \<or>
    (\<exists>i < length (in_use s). \<not> in_use s ! i \<and> in_use s' = (in_use s)[i := True] \<and>
      unat (num_open_files s) \<le> FS_OPEN_MAX_COUNT \<and> num_open_files s' = num_open_files s + 1)"
proof (cases "malloc s")
  case (Pair b s1)
  note m = malloc_counts [OF Pair]
  let ?hit = "\<lambda>i. bnd (fetch (open_files s1) i) (\<lambda>e. Inr (e = None))"
  show ?thesis
  proof (cases "FS_OPEN_MAX_COUNT < unat (num_open_files s) \<or> \<not> b")
    case True
    with assms Pair m show ?thesis by (auto simp: add_file_to_fd_array_def split: if_splits)
  next
    case False
    with assms Pair obtain hit where f: "find_first 0 FS_OPEN_MAX_COUNT ?hit = Inr hit"
      by (auto simp: add_file_to_fd_array_def bnd_eq_Inr_iff)
    show ?thesis
    proof (cases hit)
      case None
      with assms Pair False f m show ?thesis by (simp add: add_file_to_fd_array_def)
    next
      case (Some i)
      with f have "?hit i = Inr True" by (blast dest: find_first_SomeD)
      then have "i < length (in_use s1) \<and> \<not> in_use s1 ! i"
        by (auto simp: in_use_def bnd_eq_Inr_iff fetch_def split: if_splits)
      moreover from assms Pair False f Some have
        "s' = (set_fd_entry i (Some \<lparr>fd_file = p, fd_offset = 0\<rparr>) s1)\<lparr>num_open_files := num_open_files s1 + 1\<rparr>"
        by (simp add: add_file_to_fd_array_def Let_def)
      ultimately show ?thesis using m False by (intro disjI2 exI [of _ i]) simp
    qed
  qed
qed

lemma fs_open_counts:
  assumes "fs_open name s = Inr (r, s')"
  shows "(in_use s' = in_use s \<and> num_open_files s' = num_open_files s) \<or>
    (\<exists>i < length (in_use s). \<not> in_use s ! i \<and> in_use s' = (in_use s)[i := True] \<and>
      unat (num_open_files s) \<le> FS_OPEN_MAX_COUNT \<and> num_open_files s' = num_open_files s + 1)"
proof -
  from assms consider "s' = s" | p fd where "add_file_to_fd_array p s = Inr (fd, s')"
    unfolding fs_open_def by (auto simp: bnd_eq_Inr_iff split: if_splits)
  then show ?thesis by cases (auto dest: add_file_counts)
qed

text \<open>Closing releases a slot that is in use.\<close>

lemma fs_close_counts:
  assumes "fs_close fd s = Inr (r, s')"
  shows "s' = s \<or> (\<exists>i < length (in_use s). in_use s ! i \<and> in_use s' = (in_use s)[i := False] \<and>
    num_open_files s' = num_open_files s - 1)"
proof -
  from assms consider "s' = s" | "fd_rejected fd s = Inr False"
    "s' = (set_fd_entry (nat fd) None s)\<lparr>num_open_files := num_open_files s - 1\<rparr>"
    unfolding fs_close_def by (auto simp: Let_def bnd_eq_Inr_iff split: if_splits)
  then show ?thesis
  proof cases
    case 2
    then have "nat fd < length (in_use s) \<and> in_use s ! nat fd"
      by (auto simp: fd_rejected_def in_use_def bnd_eq_Inr_iff fetch_def split: if_splits)
    with 2 show ?thesis by auto
  qed simp
qed

section \<open>The counter\<close>

text \<open>
  The counter is the number of descriptors in use and of \<open>n\<close> that were lost, and it never passes 33: the
  check of \<open>add_file_to_fd_array\<close> is \<open>>\<close> where it means \<open>\<ge>\<close>.
\<close>

definition tallied :: "nat \<Rightarrow> fs \<Rightarrow> bool" where
  "tallied n s \<longleftrightarrow> unat (num_open_files s) = used_fds s + n \<and> unat (num_open_files s) \<le> Suc FS_OPEN_MAX_COUNT"

lemma tallied_same:
  "in_use s' = in_use s \<and> num_open_files s' = num_open_files s \<Longrightarrow> tallied n s \<Longrightarrow> tallied n s'"
  by (simp add: tallied_def used_fds_in_use)

lemma fs_open_tallied:
  assumes "fs_open name s = Inr (r, s')" and "tallied n s"
  shows "tallied n s'"
  using fs_open_counts [OF assms(1)]
proof
  assume "\<exists>i < length (in_use s). \<not> in_use s ! i \<and> in_use s' = (in_use s)[i := True] \<and>
    unat (num_open_files s) \<le> FS_OPEN_MAX_COUNT \<and> num_open_files s' = num_open_files s + 1"
  then obtain i where i: "i < length (in_use s)" "\<not> in_use s ! i" "in_use s' = (in_use s)[i := True]"
    and n: "unat (num_open_files s) \<le> FS_OPEN_MAX_COUNT" "num_open_files s' = num_open_files s + 1" by blast
  have "unat (num_open_files s') = Suc (unat (num_open_files s))"
    using n by (simp add: unat_word_ariths FS_OPEN_MAX_COUNT_def)
  moreover have "used_fds s' = Suc (used_fds s)" using count_list_taken [OF i(1,2)] by (simp add: used_fds_in_use i(3))
  ultimately show ?thesis using assms(2) n(1) by (simp add: tallied_def)
qed (rule tallied_same [OF _ assms(2)])

lemma fs_close_tallied:
  assumes "fs_close fd s = Inr (r, s')" and "tallied n s"
  shows "tallied n s'"
  using fs_close_counts [OF assms(1)]
proof
  assume "\<exists>i < length (in_use s). in_use s ! i \<and> in_use s' = (in_use s)[i := False] \<and> num_open_files s' = num_open_files s - 1"
  then obtain i where i: "i < length (in_use s)" "in_use s ! i" "in_use s' = (in_use s)[i := False]"
    and n: "num_open_files s' = num_open_files s - 1" by blast
  have u: "Suc (used_fds s') = used_fds s" using count_list_released [OF i(1,2)] by (simp add: used_fds_in_use i(3))
  then have "num_open_files s \<noteq> 0" using assms(2) by (auto simp: tallied_def)
  then have "Suc (unat (num_open_files s')) = unat (num_open_files s)" by (simp add: n unat_minus_one unat_gt_0)
  with u assms(2) show ?thesis by (simp add: tallied_def)
qed (use assms(2) in simp)

lemma run_call_tallied:
  assumes "run_call k s = Inr (r, s')" and "tallied n s"
  shows "tallied n s'"
proof (cases k)
  case (Open name)
  with assms show ?thesis by (auto intro: fs_open_tallied)
next
  case (Close fd)
  with assms show ?thesis by (auto intro: fs_close_tallied)
qed (use assms in \<open>auto simp: bnd_eq_Inr_iff intro!: tallied_same [OF _ assms(2)]
    dest: counts.fs_create_kept counts.fs_delete_kept counts.fs_ls_kept counts.fs_info_kept counts.fs_lseek_kept
      counts.fs_write_kept counts.fs_read_kept\<close>)

section \<open>Mounting and unmounting\<close>

interpretation loads: kept_by_loading "\<lambda>s. typed s \<and> open_files s = es \<and> num_open_files s = n" for es n
proof
  show "typed s' \<and> open_files s' = es \<and> num_open_files s' = n"
    if "malloc s = (obtained, s')" "typed s \<and> open_files s = es \<and> num_open_files s = n" for s obtained s'
    using that malloc_typed [OF that(1)] by (auto simp: malloc_def split: prod.splits)
  show "file_ok f" if "root_entry j s = Inr (a, f)" "typed s \<and> open_files s = es \<and> num_open_files s = n" for s j a f
    using that mounted.loaded_file by blast
qed (use new_file_typed mounted.free_kept in \<open>auto simp: typed_sb\<close>)

lemma fs_umount_tallied:
  "fs_umount s = Inr (r, s') \<Longrightarrow> typed s \<Longrightarrow> tallied n s \<Longrightarrow> tallied n s'"
  using loads.fs_umount_kept [of s r s' "open_files s" "num_open_files s"] by (simp add: tallied_def used_fds_def)

text \<open>A mount that succeeds loses the descriptors that were open.\<close>

lemma fs_mount_tallied:
  assumes "fs_mount name s = Inr (r, s')" and "typed s" and "tallied n s"
  shows "tallied (if r = 0 then n + used_fds s else n) s'"
proof (cases "load_disk name s")
  case (Pair r1 s1)
  then have "typed s1 \<and> open_files s1 = open_files s \<and> num_open_files s1 = num_open_files s"
    using assms(2) by (auto simp: load_disk_def split: option.splits if_splits prod.splits)
  from loads.fs_mount_loads [OF assms(1) Pair this]
  obtain t where t: "typed t \<and> open_files t = open_files s \<and> num_open_files t = num_open_files s"
    "s' = (if r = 0 then cleared_table t else t)" .
  have "filter (\<lambda>e. e \<noteq> None) (map (\<lambda>_. None) es) = []" for es :: "FileDescriptor option list" by (induction es) auto
  with t assms(3) show ?thesis by (simp add: tallied_def used_fds_def cleared_table_def)
qed

section \<open>Any program\<close>

text \<open>
  \<open>discarding n s s'\<close>: a run of calls with any arguments from \<open>s\<close> to \<open>s'\<close> in which the mounts that
  succeeded found \<open>n\<close> descriptors open, all together.
\<close>

inductive discarding :: "nat \<Rightarrow> fs \<Rightarrow> fs \<Rightarrow> bool" where
  start: "discarding 0 s s"
| mounts: "discarding n s s1 \<Longrightarrow> fs_mount name s1 = Inr (r, s2) \<Longrightarrow> discarding (if r = 0 then n + used_fds s1 else n) s s2"
| umounts: "discarding n s s1 \<Longrightarrow> fs_umount s1 = Inr (r, s2) \<Longrightarrow> discarding n s s2"
| calls: "discarding n s s1 \<Longrightarrow> run_call k s1 = Inr (r, s2) \<Longrightarrow> discarding n s s2"

lemma discarding_tallied: "discarding n s s' \<Longrightarrow> typed s \<and> tallied 0 s \<Longrightarrow> typed s' \<and> tallied n s'"
proof (induction rule: discarding.induct)
  case (mounts n s s1 name r s2)
  then show ?case by (blast intro: fs_mount_typed fs_mount_tallied)
next
  case (umounts n s s1 r s2)
  then show ?case by (blast intro: mounted.fs_umount_kept fs_umount_tallied)
next
  case (calls n s s1 k r s2)
  then show ?case by (blast intro: any_call_typed any_call.call run_call_tallied)
qed

lemma tallied_init: "tallied 0 (fs_init j h)"
  by (simp add: tallied_def used_fds_def fs_init_def)

end
