(* ===== verification/Properties.thy ===== *)
theory Properties
  imports Samples Stopped_Sessions Script_Spec Open_Counts Host_Files
begin

text \<open>
  What the single components promise: the operations on files, on the table, on the directory, on the
  descriptors, mounting and unmounting, and the virtual disk. Each property is followed by a use of it on
  one of the concrete states of theory \<open>Samples\<close>. Properties that span several components or several
  programs are in the root theory.
\<close>

section \<open>The open-file table\<close>

text \<open>
  C7. Whatever calls a program makes, with any arguments, valid or not, on any host, the global
  \<open>num_open_files\<close> is exactly the number of descriptors in use plus the number of
  descriptors that were still open at the \<open>fs_mount\<close> calls that succeeded, which
  clear the table but not the counter; and it never exceeds 33, one more than the table has
  entries, so that the 8-bit counter never wraps.
\<close>

theorem open_count_exact:
  assumes "discarding n (fs_init j h) s"
  shows "unat (num_open_files s) = used_fds s + n \<and> unat (num_open_files s) \<le> Suc FS_OPEN_MAX_COUNT"
  using discarding_tallied [OF assms] by (simp add: typed_init tallied_init) (simp add: tallied_def)

lemma open_count_exact_witness:
  "\<exists>s0 r1 s1 r2 s2 s3 s4. fs_mount (Some ''disk.fs'') (fs_init (\<lambda>_. 0) sample_host) = Inr (0, s0) \<and>
    fs_create (Some [98]) s0 = Inr (r1, s1) \<and> fs_open (Some [98]) s1 = Inr (r2, s2) \<and>
    fs_umount s2 = Inr (0, s3) \<and> fs_mount (Some ''disk.fs'') s3 = Inr (0, s4) \<and>
    unat (num_open_files s4) = used_fds s4 + used_fds s3"
proof -
  obtain s0 where s0: "fs_mount (Some ''disk.fs'') (fs_init (\<lambda>_. 0) sample_host) = Inr (0, s0)" "in_session ''disk.fs'' s0"
    by (rule mount_abs [OF _ formatted_blank, of sample_host "''disk.fs''" "\<lambda>_. 0"]) (auto simp: sample_host_def)
  obtain r1 s1 where c: "run_call (Create (Some [98])) s0 = Inr (r1, s1)" "in_session ''disk.fs'' s1"
    by (rule session_run_call [OF s0(2), of "Create (Some [98])"]) auto
  obtain r2 s2 where o: "run_call (Open (Some [98])) s1 = Inr (r2, s2)" "in_session ''disk.fs'' s2"
    by (rule session_run_call [OF c(2), of "Open (Some [98])"]) auto
  obtain s3 s4 where u: "fs_umount s2 = Inr (0, s3)" "fs_mount (Some ''disk.fs'') s3 = Inr (0, s4)"
    by (rule session_remount [OF o(2)])
  note run = discarding.mounts [OF discarding.umounts [OF discarding.calls [OF discarding.calls [OF
    discarding.mounts [OF discarding.start s0(1)] c(1)] o(1)] u(1)] u(2)]
  have "used_fds (fs_init (\<lambda>_. 0) sample_host) = 0" by (simp add: used_fds_def fs_init_def)
  with open_count_exact [OF run] s0(1) c(1) o(1) u show ?thesis by auto
qed

text \<open>
  C30. \<open>fs_open\<close> of an existing name, while fewer than 32 descriptors are open,
  returns the lowest one that is not, at offset 0 of that file; the other descriptors, the files
  and the disk do not change.
\<close>

theorem open_takes_lowest_free_descriptor:
  assumes "fs_ok s" and "valid_name n" and "catalog s (c_text n) = Some i" and "used_fds s < FS_OPEN_MAX_COUNT"
  shows "\<exists>k s'. fs_open (Some n) s = Inr (int k, s') \<and> k < FS_OPEN_MAX_COUNT \<and>
    \<not> open_fd s (int k) \<and> (\<forall>j < k. open_fd s (int j)) \<and>
    fs_ok s' \<and> same_files s s' \<and> fd_slot s' (int k) = Some i \<and> fd_pos s' (int k) = 0 \<and>
    (\<forall>fd. open_fd s fd \<longrightarrow> open_fd s' fd \<and> the_fd s' fd = the_fd s fd)"
proof -
  note ok = fs_okD [OF assms(1)]
  have n: "unat (num_open_files s) \<le> FS_OPEN_MAX_COUNT"
    using ok(6) used_fds_le [OF ok(13)] by (simp add: count_ok_def)
  from assms(4) obtain k where k: "free_fd s = Some k"
    using free_fd_None_iff [OF ok(13)] by (cases "free_fd s") auto
  note kD = free_fd_SomeD [OF k]
  from catalog_SomeD [OF assms(3)] have i: "i < FS_FILE_MAX_COUNT" "used s i" by (auto simp: used_def)
  have "fs_open (Some n) s = Inr (int k, opened k i s)"
    using assms(2,3) k by (simp add: fs_open_eq [OF ok(1,3,4,11) n])
  moreover have "open_fd (opened k i s) fd \<and> the_fd (opened k i s) fd = the_fd s fd" if "open_fd s fd" for fd
    using that kD by (cases "nat fd = k") (auto simp: open_fd_def the_fd_def opened_def)
  moreover have "\<not> open_fd s (int k)" "\<forall>j < k. open_fd s (int j)"
    using kD by (simp_all add: open_fd_def)
  ultimately show ?thesis
    using opened_ok [OF ok(3,4,6) i(1) k] opened_fs_ok [OF assms(1) i(2) k] kD
    by (intro exI [of _ k] exI [of _ "opened k i s"]) (simp add: fd_pos_def)
qed

lemma open_takes_lowest_free_descriptor_witness:
  "\<exists>s'. fs_open (Some sample_name) (sample table1 10 1 (Some 5)) = Inr (1, s') \<and>
    fd_slot s' 1 = Some 0 \<and> fd_pos s' 1 = 0 \<and> fd_pos s' 0 = 5"
proof -
  let ?s = "sample table1 10 1 (Some 5)"
  have u: "used_fds ?s = 1" by (simp add: used_fds_def sample_def)
  have o: "open_fd ?s fd \<longleftrightarrow> fd = 0" for fd
    by (auto simp: open_fd_def sample_def nth_Cons FS_OPEN_MAX_COUNT_def split: nat.splits)
  from open_takes_lowest_free_descriptor [of ?s sample_name 0] u obtain k s' where r:
    "fs_open (Some sample_name) ?s = Inr (int k, s')" "k \<noteq> 0" "\<forall>j < k. j = 0"
    "fd_slot s' (int k) = Some 0" "fd_pos s' (int k) = 0" "the_fd s' 0 = the_fd ?s 0"
    by (auto simp: o FS_OPEN_MAX_COUNT_def)
  from r(2,3) have "k = 1" by (cases k) (auto dest: spec [of _ 1])
  with r show ?thesis by (auto simp: fd_pos_def)
qed

text \<open>
  C31. \<open>fs_lseek\<close> accepts exactly the offsets up to the file size, and stores them
  modulo \<open>2 ^ 16\<close>: past 65535 bytes the descriptor ends up elsewhere than requested.
\<close>

theorem seek_truncates_offset:
  assumes "fs_ok s" and "open_fd s fd" and "fd_slot s fd = Some i"
  shows "\<exists>r s'. fs_lseek fd offset s = Inr (r, s') \<and> fs_ok s' \<and> same_files s s' \<and>
    (r = 0 \<longleftrightarrow> unat offset \<le> unat (file_size (slot_file s i))) \<and> (r = 0 \<or> r = -1 \<and> s' = s) \<and>
    (r = 0 \<longrightarrow> fd_pos s' fd = unat offset mod 2 ^ 16)"
proof -
  note ok = fs_okD [OF assms(1)]
  have "nat fd < length (open_files s)" using assms(2) ok(13) by (auto simp: open_fd_def)
  with set_offset_ok [OF assms(1,2), of "ucast offset"] show ?thesis
    by (auto simp: fs_lseek_eq [OF ok(1,3,4) assms(2,3)] fd_pos_def the_fd_def assms(1) same_files_def
        unsigned_ucast_eq take_bit_eq_mod)
qed

lemma seek_truncates_offset_witness:
  "\<exists>s'. fs_lseek 0 65540 (sample table1 70000 1 (Some 5)) = Inr (0, s') \<and> fd_pos s' 0 = 4"
  using seek_truncates_offset [of "sample table1 70000 1 (Some 5)" 0 0 65540] by auto

text \<open>
  C32. A descriptor from 32 to 127 passes the range check of \<open>fs_close\<close>,
  \<open>fs_stat\<close>, \<open>fs_lseek\<close>, \<open>fs_read\<close> and
  \<open>fs_write\<close>, and all five read past the end of \<open>open_files\<close>.
\<close>

theorem descriptor_beyond_table:
  assumes "fs_ok s" and "32 \<le> fd" and "fd < 128"
  shows "fs_close fd s = Inl Out_of_bounds \<and> fs_stat fd s = Inl Out_of_bounds \<and>
    fs_lseek fd offset s = Inl Out_of_bounds \<and> fs_read fd buf count s = Inl Out_of_bounds \<and>
    fs_write fd buf count s = Inl Out_of_bounds"
proof -
  have "fd_rejected fd s = Inl Out_of_bounds"
    using fd_rejected_eq [OF fs_okD(13,1) [OF assms(1)], of fd] assms(2,3) by (simp add: fs_sizes)
  then show ?thesis by (simp add: fs_close_def fs_stat_def fs_lseek_def fs_read_def fs_write_def)
qed

lemma descriptor_beyond_table_witness: "fs_close 32 (sample table1 10 1 None) = Inl Out_of_bounds"
  using descriptor_beyond_table [of "sample table1 10 1 None" 32] by simp

section \<open>Files of the host\<close>

text \<open>
  C8. The library writes no file of the host but the disk files it mounts: after any calls of the
  API, with any arguments, valid or not, and whatever the host fails, every other file is as it
  was when the program started, and no file, the disk files included, was created or removed, or
  has grown or shrunk.
\<close>

theorem other_files_untouched:
  assumes "program P (fs_init j h) s"
  shows "\<forall>p. map_option length (host_files (host (dev s)) p) = map_option length (host_files h p) \<and>
    (p \<notin> P \<longrightarrow> host_files (host (dev s)) p = host_files h p)"
proof -
  have "owns P (host_files h) s" by (rule program_owns [OF assms owns_init])
  then show ?thesis by (simp add: owns_def writes_only_def)
qed

lemma other_files_untouched_witness:
  "\<exists>s. fs_mount (Some ''disk.fs'') (fs_init (\<lambda>_. 0) (other_host [7])) = Inr (0, s) \<and>
    host_files (host (dev s)) ''b'' = Some [7]"
proof -
  obtain s where s: "fs_mount (Some ''disk.fs'') (fs_init (\<lambda>_. 0) (other_host [7])) = Inr (0, s)"
    by (rule mount_abs [OF _ formatted_blank, of "other_host [7]" "''disk.fs''" "\<lambda>_. 0"]) (auto simp: other_host_def sample_host_def)
  have "program {''disk.fs''} (fs_init (\<lambda>_. 0) (other_host [7])) s" using program.mounts [OF program.start s] by simp
  from other_files_untouched [OF this] s show ?thesis by (auto simp: other_host_def sample_host_def)
qed

section \<open>Reading and writing\<close>

text \<open>
  C9. \<open>fs_write\<close> of \<open>count\<close> bytes at offset \<open>pos\<close> extends
  the chain of the file by first-fit blocks to what \<open>pos + count\<close> needs, or as far as
  the table has room, replaces \<open>r\<close> bytes of its data at \<open>pos\<close> by the
  first \<open>r\<close> bytes of the buffer, where \<open>r\<close> is \<open>count\<close> cut
  at the end of the chain, and returns \<open>r\<close>. Size and offset grow by \<open>r\<close>
  when the write is complete; a short write leaves both as they were.
\<close>

theorem write_result:
  assumes "fs_ok s" and "open_fd s fd" and "fd_slot s fd = Some i" and "small_count count"
    and "0 < count" and "unat count \<le> length buf"
  shows "let pos = fd_pos s fd; n = pos + unat count; xs = chain_for s i n;
      r = min (unat count) (BLOCK_SIZE * length xs - pos);
      counted = (if r = unat count then r else 0) in
    \<exists>s'. fs_write fd (Some buf) count s = Inr (int r, s') \<and> fs_ok s' \<and>
      slot_chain s' i = xs \<and>
      file_data s' i = overwrite (file_data s i @ stale_data s i n) pos (take r buf) \<and>
      file_size (slot_file s' i) = file_size (slot_file s i) + of_nat counted \<and>
      fd_pos s' fd = (pos + counted) mod 2 ^ 16"
proof -
  let ?pos = "fd_pos s fd"
  let ?n = "?pos + unat count"
  let ?xs = "chain_for s i ?n"
  let ?r = "min (unat count) (BLOCK_SIZE * length ?xs - ?pos)"
  have c: "0 < unat count" using assms(5) by (simp add: word_less_nat_alt)
  obtain s' where w: "fs_write fd (Some buf) count s = Inr (int ?r, s')" "fs_ok s'" "kept s s'"
    "others_same i s s'" "used s' i" "slot_chain s' i = ?xs"
    "slot_file s' i = (slot_file s i)\<lparr>first_index := first_of ?xs,
      file_size := file_size (slot_file s i) + (if ?r = unat count then of_nat ?r else 0)\<rparr>"
    "file_data s' i = put_data (file_data s i @ stale_data s i ?n) ?pos ?r buf"
    "open_files s' = (open_files s)[nat fd := Some ((the_fd s fd)\<lparr>fd_offset :=
      fd_offset (the_fd s fd) + (if ?r = unat count then of_nat ?r else 0)\<rparr>)]"
    "slot_addr s' = slot_addr s"
    by (rule write_ok [OF assms(1-4) c assms(6)])
  have "nat fd < length (open_files s)"
    using assms(2) fs_okD(13) [OF assms(1)] by (auto simp: open_fd_def)
  then have "fd_offset (the_fd s' fd) = fd_offset (the_fd s fd) + (if ?r = unat count then of_nat ?r else 0)"
    by (simp add: the_fd_def w(9))
  moreover have "unat (x + (if P then of_nat m else 0)) = (unat x + (if P then m else 0)) mod 2 ^ 16"
    for x :: u16 and P m by (simp add: unat_word_ariths unat_of_nat mod_simps)
  ultimately have p: "fd_pos s' fd = (?pos + (if ?r = unat count then ?r else 0)) mod 2 ^ 16"
    by (simp only: fd_pos_def)
  show ?thesis
    unfolding Let_def
    by (rule exI [of _ s']) (use w p in \<open>simp add: put_data_def\<close>)
qed

lemma write_result_witness:
  "\<exists>s'. fs_write 0 (Some (replicate 4096 7)) 4096 (sample table1 10 1 (Some 4)) = Inr (4096, s') \<and>
    slot_chain s' 0 = [1, 2] \<and> file_size (slot_file s' 0) = 4106 \<and> fd_pos s' 0 = 4100"
proof -
  let ?s = "sample table1 10 1 (Some 4)"
  have "chain_for ?s 0 4100 = [1, 2]"
    by (simp add: chain_for_def fresh_blocks_def table_free blocks_needed_def BLOCK_SIZE_def)
  with write_result [of ?s 0 0 4096 "replicate 4096 7"] show ?thesis
    by (simp add: Let_def BLOCK_SIZE_def) blast
qed

text \<open>
  C12. \<open>fs_read\<close> of \<open>count\<close> bytes stores in the buffer the bytes of the
  file's blocks from its offset on, cut at the end of its last block (not at the file size),
  leaves the rest of the buffer alone, and returns how many there were. The offset advances,
  modulo \<open>2 ^ 16\<close>, when the read is complete and stays when it is short.
\<close>

theorem read_result:
  assumes "fs_ok s" and "open_fd s fd" and "fd_slot s fd = Some i" and "small_count count"
    and "0 < count" and "unat count \<le> length buf"
  shows "let pos = fd_pos s fd; r = min (unat count) (length (file_data s i) - pos);
      counted = (if r = unat count then r else 0) in
    \<exists>s'. fs_read fd (Some buf) count s =
        Inr (int r, Some (overwrite buf 0 (take r (drop pos (file_data s i)))), s') \<and>
      fs_ok s' \<and> same_files s s' \<and> fd_pos s' fd = (pos + counted) mod 2 ^ 16"
proof -
  let ?pos = "fd_pos s fd"
  let ?r = "min (unat count) (length (file_data s i) - ?pos)"
  define s' where "s' = (if ?r = unat count
    then set_fd_entry (nat fd) (Some ((the_fd s fd)\<lparr>fd_offset := fd_offset (the_fd s fd) + ucast count\<rparr>)) s
    else s)"
  note so = set_offset_ok [OF assms(1,2)]
  have "nat fd < length (open_files s)"
    using assms(2) fs_okD(13) [OF assms(1)] by (auto simp: open_fd_def)
  then have p: "fd_pos s' fd = (?pos + (if ?r = unat count then ?r else 0)) mod 2 ^ 16"
    by (simp add: fd_pos_def s'_def the_fd_def unat_word_ariths unsigned_ucast_eq take_bit_eq_mod mod_simps
        mod_less unat_u16_bound)
  have "fs_ok s'" "same_files s s'"
    using so assms(1) by (simp_all add: s'_def) (simp add: same_files_def)
  moreover have "fs_read fd (Some buf) count s =
      Inr (int ?r, Some (overwrite buf 0 (take ?r (drop ?pos (file_data s i)))), s')"
    using read_ok [OF assms refl] by (simp only: got_def s'_def)
  ultimately show ?thesis
    unfolding Let_def using p by (intro exI [of _ s']) simp
qed

lemma read_result_witness:
  "\<exists>s'. fs_read 0 (Some [7, 7, 7, 7]) 3 (sample table1 10 1 (Some 4)) =
      Inr (3, Some [0, 0, 0, 7], s') \<and> fd_pos s' 0 = 7"
proof -
  let ?s = "sample table1 10 1 (Some 4)"
  have d: "file_data ?s 0 = replicate BLOCK_SIZE 0"
    using sample_data [of "[1]" table1 1 10 "Some 4"] table_chains by simp
  from read_result [of ?s 0 0 3 "[7, 7, 7, 7]"] show ?thesis
    by (simp add: d Let_def BLOCK_SIZE_def overwrite_def) (auto simp: numeral_3_eq_3)
qed

text \<open>
  C13. \<open>fs_write\<close> changes no other file: its directory entry, its chain of blocks and
  its data stay the same.
\<close>

theorem write_keeps_other_files:
  assumes "fs_ok s" and "open_fd s fd" and "fd_slot s fd = Some i" and "small_count count"
    and "unat count \<le> length buf" and "fs_write fd (Some buf) count s = Inr (r, s')"
    and "used s j" and "j \<noteq> i"
  shows "used s' j \<and> slot_file s' j = slot_file s j \<and> slot_chain s' j = slot_chain s j \<and>
    file_data s' j = file_data s j"
proof (cases "count = 0")
  case True
  from fs_ok_open [OF assms(1,2)] have "fd_rejected fd s = Inr False" by blast
  with True assms(6) have "s' = s" by (simp add: fs_write_def)
  with assms(7) show ?thesis by simp
next
  case False
  then have c: "0 < unat count" by (simp add: unat_gt_0)
  have "others_same i s s'"
    by (rule write_ok [OF assms(1-4) c assms(5)]) (use assms(6) in simp)
  with assms(7,8) show ?thesis by (simp add: others_same_def)
qed

lemma write_keeps_other_files_witness:
  "\<exists>r s'. fs_write 0 (Some [1, 2, 3]) 3 (pair (Some 5)) = Inr (r, s') \<and>
    slot_chain s' 1 = [3, 4] \<and> slot_file s' 1 = pair_file"
proof -
  have "\<exists>r s'. fs_write 0 (Some [1, 2, 3]) 3 (pair (Some 5)) = Inr (r, s')"
    by (rule write_ok [OF pair_fs_ok, of "Some 5" 0 0 3 "[1, 2, 3]"]) auto
  then obtain r s' where w: "fs_write 0 (Some [1, 2, 3]) 3 (pair (Some 5)) = Inr (r, s')" by blast
  from write_keeps_other_files [OF pair_fs_ok _ _ _ _ w, of 0 1] show ?thesis using w by simp
qed

text \<open>
  C15. Whatever transfers the host fails, \<open>fs_write\<close> to an open file either gives the
  same result and state as on a host that never fails, or returns -1: then the file system is well
  formed, the other files keep entry, chain and data, the file has the chain the whole write
  needed (or all the table had room for), the first \<open>k\<close> bytes of the buffer are in
  place for some \<open>k\<close> and all its other bytes are as before, and its size and the
  offset are unchanged.
\<close>

theorem write_reports_failures:
  assumes "fs_ok (hush s)" and "open_fd s fd" and "fd_slot s fd = Some i" and "small_count count"
    and "0 < unat count" and "unat count \<le> length buf"
  shows "\<exists>r s'. fs_write fd (Some buf) count s = Inr (r, s') \<and>
    (let pos = fd_pos s fd; n = pos + unat count; ys = chain_for s i n in
      fs_write fd (Some buf) count (hush s) = Inr (r, hush s') \<or>
      r = -1 \<and> fs_ok (hush s') \<and> others_same i (hush s) (hush s') \<and> slot_chain s' i = ys \<and>
      slot_file s' i = (slot_file s i)\<lparr>first_index := first_of ys\<rparr> \<and> open_files s' = open_files s \<and>
      (\<exists>k \<le> min (unat count) (BLOCK_SIZE * length ys - pos).
        file_data s' i = overwrite (file_data s i @ stale_data s i n) pos (take k buf)))"
  by (rule write_on_failing_host [OF assms]) (simp add: Let_def put_data_def, blast)

lemma write_reports_failures_witness:
  "\<exists>r s'. fs_write 0 (Some (replicate 4096 7)) 4096 (failing [False, True] (sample table1 10 1 (Some 4))) = Inr (r, s') \<and>
    (fs_write 0 (Some (replicate 4096 7)) 4096 (sample table1 10 1 (Some 4)) = Inr (r, hush s') \<or>
      r = -1 \<and> fs_ok (hush s') \<and> slot_chain s' 0 = [1, 2] \<and> file_size (slot_file s' 0) = 10)"
proof -
  let ?t = "sample table1 10 1 (Some 4)"
  let ?s = "failing [False, True] ?t"
  have h2: "hush ?t = ?t" using sample_dev_ok(2) by (simp add: hush_calm)
  then have h: "hush ?s = ?t" by simp
  have v: "open_fd ?s = open_fd ?t" "fd_slot ?s = fd_slot ?t" "fd_pos ?s = fd_pos ?t" "chain_for ?s = chain_for ?t"
    "slot_file ?s = slot_file ?t"
    using hush_fds(1,3,4) [of ?s] hush_files(7) [of ?s] hush_slots(7) [of ?s] unfolding h by simp_all
  have "chain_for ?t 0 4100 = [1, 2]"
    by (simp add: chain_for_def fresh_blocks_def table_free blocks_needed_def BLOCK_SIZE_def)
  with write_reports_failures [of ?s 0 0 4096 "replicate 4096 7"]
  obtain r s' where w: "fs_write 0 (Some (replicate 4096 7)) 4096 ?s = Inr (r, s')"
    "fs_write 0 (Some (replicate 4096 7)) 4096 ?t = Inr (r, hush s') \<or>
      r = -1 \<and> fs_ok (hush s') \<and> slot_chain s' 0 = [1, 2] \<and>
      slot_file s' 0 = (slot_file ?t 0)\<lparr>first_index := first_of [1, 2]\<rparr>"
    by (auto simp: v h h2 Let_def)
  then show ?thesis by (auto simp: sample_file_def)
qed

text \<open>
  C16. Whatever transfers the host fails, for any descriptor, buffer and count in any state,
  \<open>fs_read\<close> either gives the same result, buffer, state and fault as on a host that
  never fails, or returns -1 and leaves the file system as it was: no block that could not be read
  is passed off as data.
\<close>

theorem read_reports_failures:
  "fs_read fd buf count (hush s) = bnd (fs_read fd buf count s) (\<lambda>(r, b, s'). Inr (r, b, hush s')) \<or>
    (\<exists>b s'. fs_read fd buf count s = Inr (-1, b, s') \<and> hush s' = hush s)"
  using fs_read_honest [of s fd buf count]
  by (auto simp: honest_def failed_def case_prod_unfold apsnd_def map_prod_def)

text \<open>
  C19. In a well-formed state, for a write at offset \<open>pos\<close> of an open file of
  \<open>count\<close> bytes, at least 1 and less than \<open>2 ^ 31 - 2 ^ 16\<close>, for which
  the disk has room: \<open>fs_write\<close> returns \<open>count\<close> and adds
  \<open>count\<close> to the size (modulo \<open>2 ^ 32\<close>). If the new size is at least
  \<open>pos\<close>, seeking back to \<open>pos\<close> returns 0 and reading
  \<open>count\<close> bytes then returns exactly the bytes written; if it is less (as for a write
  that begins more than \<open>count\<close> bytes past the end, where \<open>fs_read\<close> can
  leave the offset), the seek back returns -1.
\<close>

theorem write_seek_read_back:
  assumes "fs_ok s" and "open_fd s fd" and "fd_slot s fd = Some i" and "small_count count"
    and "0 < count" and "unat count \<le> length buf" and "length buf' = unat count"
    and "fd_pos s fd + unat count \<le> BLOCK_SIZE * length (chain_for s i (fd_pos s fd + unat count))"
  shows "\<exists>s1. fs_write fd (Some buf) count s = Inr (int (unat count), s1) \<and>
    file_size (slot_file s1 i) = file_size (slot_file s i) + of_nat (unat count) \<and>
    (if fd_pos s fd \<le> unat (file_size (slot_file s i) + of_nat (unat count))
     then \<exists>s2 s3. fs_lseek fd (of_nat (fd_pos s fd)) s1 = Inr (0, s2) \<and>
       fs_read fd (Some buf') count s2 = Inr (int (unat count), Some (take (unat count) buf), s3)
     else fs_lseek fd (of_nat (fd_pos s fd)) s1 = Inr (-1, s1))"
proof -
  have l: "unat count \<le> length buf'" using assms(7) by simp
  have r: "unat count \<le> BLOCK_SIZE * length (chain_for s i (fd_pos s fd + unat count)) - fd_pos s fd"
    using assms(8) by linarith
  have o: "overwrite buf' 0 (take (unat count) buf) = take (unat count) buf"
    using assms(6,7) by (simp add: overwrite_all)
  show ?thesis by (rule write_seek_read [OF assms(1-6) l r, unfolded o]) (auto simp: not_le)
qed

lemma write_seek_read_back_witness:
  "\<exists>s1 s2 s3. fs_write 0 (Some [1, 2, 3]) 3 (sample table0 0 FAT_EOC (Some 0)) = Inr (3, s1) \<and>
    fs_lseek 0 0 s1 = Inr (0, s2) \<and> fs_read 0 (Some [7, 7, 7]) 3 s2 = Inr (3, Some [1, 2, 3], s3)"
proof -
  let ?s = "sample table0 0 FAT_EOC (Some 0)"
  have "chain_for ?s 0 3 = [1]"
    by (simp add: chain_for_def fresh_blocks_def table_free blocks_needed_def BLOCK_SIZE_def)
  with write_seek_read_back [of ?s 0 0 3 "[1, 2, 3]" "[7, 7, 7]"] show ?thesis
    by (simp add: BLOCK_SIZE_def) blast
qed

text \<open>
  C22. \<open>fs_read\<close> with \<open>count\<close> 0, at an offset inside a block that is not
  the last one of the file, writes a whole block into the caller's buffer: out of bounds for any
  buffer shorter than a block.
\<close>

theorem read_zero_overflows:
  assumes "fs_ok s" and "open_fd s fd" and "fd_slot s fd = Some i"
    and "fd_pos s fd mod BLOCK_SIZE \<noteq> 0"
    and "Suc (fd_pos s fd div BLOCK_SIZE) < length (slot_chain s i)" and "length buf < BLOCK_SIZE"
  shows "fs_read fd (Some buf) 0 s = Inl Out_of_bounds"
  by (rule fs_read_zero [OF assms])

lemma read_zero_overflows_witness:
  "fs_read 0 (Some []) 0 (sample table2 8192 1 (Some 5)) = Inl Out_of_bounds"
  by (rule read_zero_overflows [where i = 0]) (simp_all add: BLOCK_SIZE_def)

text \<open>
  C23. \<open>find_num_target_blocks\<close> returns the least number of blocks that hold
  \<open>offset + count\<close> bytes, for every offset and every count below \<open>2 ^ 31 - 2 ^
  16\<close>, without overflow.
\<close>

theorem num_target_blocks_is_ceiling:
  assumes "small_count count"
  shows "\<exists>n. find_num_target_blocks offset count = Inr (int n) \<and>
    (\<forall>m. n \<le> m \<longleftrightarrow> unat offset + unat count \<le> BLOCK_SIZE * m)"
  using find_num_target_blocks_eq [OF assms] blocks_needed_le_iff by blast

lemma num_target_blocks_is_ceiling_witness:
  "\<exists>n. find_num_target_blocks 4095 3 = Inr (int n) \<and> (n \<le> 2 \<longleftrightarrow> True)"
  using num_target_blocks_is_ceiling [of 3 4095] by (auto simp: BLOCK_SIZE_def)

section \<open>Scripts\<close>

text \<open>
  C20. The \<open>strtok\<close> loop of the script interpreter computes the parts of the line
  between tabs, where runs of tabs count as one, in the array \<open>command_args\<close> ended by
  NULL, for up to three parts; with four or more it stores past the end of the array.
\<close>

theorem command_line_parts:
  "command_parts line =
    (let parts = tokens 9 (line_text line)
     in if length parts \<le> 3 then Inr (part_array parts) else Inl Out_of_bounds)"
  by (rule command_parts_tokens)

text \<open>
  C21. A script line of four parts or more, which every \<open>READ\<close> command of a script
  is, makes the interpreter write past the end of \<open>command_args\<close>.
\<close>

theorem four_parts_overflow:
  assumes "\<forall>p \<in> set parts. clean_part p" and "4 \<le> length parts" and "length (line_of parts) < 1024" and "calm (dev s)"
  shows "script_lines path (line_of parts @ rest) v s = Inl Out_of_bounds"
  using assms
  by (subst script_lines.simps) (simp add: calm_def fgets_line_of command_parts_line_of)

lemma four_parts_overflow_witness:
  "script_lines ''disk.fs'' (line_of [literal ''READ'', [53], literal ''DATA'', [97, 98, 99, 100, 101]]) mounted_vars
    (fs_init (\<lambda>_. 0) sample_host) = Inl Out_of_bounds"
proof -
  let ?p = "[literal ''READ'', [53], literal ''DATA'', [97, 98, 99, 100, 101]]"
  have "calm (dev (fs_init (\<lambda>_. 0) sample_host))" by (simp add: calm_def fs_init_def sample_host_def)
  with four_parts_overflow [of ?p _ "''disk.fs''" "[]" mounted_vars] show ?thesis
    by (simp add: clean_part_def line_of_def)
qed

section \<open>The allocation table\<close>

text \<open>
  C24. \<open>allocate_blocks_in_fat\<close> appends to the chain of an open file the lowest free
  entries of the table, in increasing order, until the chain has the wanted length or no entry is
  free, and returns 0 exactly when the wanted length was reached.
\<close>

theorem allocation_extends_first_fit:
  assumes "fat_ok s" and "opened_file fd s = Inr (a, f)"
    and "chain (the_fat s) (first_index f) xs" and "0 < target"
  shows "\<exists>r s' f'. allocate_blocks_in_fat fd (int target) s = Inr (r, s') \<and>
    opened_file fd s' = Inr (a, f') \<and>
    chain (the_fat s') (first_index f') (xs @ fresh_blocks (the_fat s) (target - length xs)) \<and>
    (r = 0 \<longleftrightarrow> target \<le> length xs + length (free_entries (the_fat s))) \<and> r \<in> {0, -1}"
proof -
  let ?ys = "xs @ fresh_blocks (the_fat s) (target - length xs)"
  from allocate_blocks_in_fat_ok [OF assms] obtain F where F:
    "allocate_blocks_in_fat fd (int target) s =
      Inr (if target \<le> length xs + length (free_entries (the_fat s)) then 0 else -1,
        with_fat F (set_file a (f\<lparr>first_index := first_of ?ys\<rparr>) s))"
    "grown (the_fat s) F (first_of ?ys) ?ys" by blast
  moreover have "opened_file fd (with_fat F (set_file a (f\<lparr>first_index := first_of ?ys\<rparr>) s)) =
      Inr (a, f\<lparr>first_index := first_of ?ys\<rparr>)"
    by (simp add: opened_file_set_file [OF assms(2)])
  ultimately show ?thesis by (auto simp: grown_def)
qed

lemma allocation_extends_first_fit_witness:
  "\<exists>s' f'. allocate_blocks_in_fat 0 2 (sample table1 10 1 (Some 0)) = Inr (0, s') \<and>
    opened_file 0 s' = Inr (0, f') \<and> chain (the_fat s') (first_index f') [1, 2]"
  using allocation_extends_first_fit [of "sample table1 10 1 (Some 0)" 0 0 "sample_file 10 1" "[1]" 2]
    table_chains
  by (simp add: table_free fresh_blocks_def del: chain.simps) auto

text \<open>
  C25. The loop of \<open>allocate_blocks_in_fat\<close> that follows a chain ends at its last
  block and counts its blocks, which are distinct and fewer than the entries of the table.
\<close>

theorem chain_end_is_last_block:
  assumes "fat_ok s" and "chain (the_fat s) b xs" and "xs \<noteq> []"
  shows "chain_end s b 1 = Inr (last xs, int (length xs)) \<and> distinct xs \<and> length xs < length (the_fat s)"
proof -
  have "length xs < length (the_fat s)" using chain_length [OF assms(2)] assms(3) by simp
  moreover from this have "length xs < 65536" using fat_length_bound [OF assms(1)] by simp
  then have "chain_end s b 1 = Inr (last xs, int (length xs))"
    using chain_end_ok [OF assms, of 1] by (simp add: INT_MAX_def)
  ultimately show ?thesis using chain_distinct [OF assms(2)] by simp
qed

lemma chain_end_is_last_block_witness:
  "chain_end (sample table2 8192 1 None) 1 1 = Inr (2, 2)"
  using chain_end_is_last_block [of "sample table2 8192 1 None" 1 "[1, 2]"] table_chains
  by (simp del: chain.simps)

section \<open>The directory\<close>

text \<open>
  C26. \<open>fs_create\<close> of a valid new name, when an entry is free, returns 0 and adds the
  name, for an empty file in the first free entry, to the directory; no other name and no other
  file changes.
\<close>

theorem create_adds_name:
  assumes "fs_ok s" and "valid_name n" and "catalog s (c_text n) = None" and "free_slot s = Some i"
  shows "\<exists>s'. fs_create (Some n) s = Inr (0, s') \<and> fs_ok s' \<and>
    catalog s' = (catalog s)(c_text n \<mapsto> i) \<and> slot_chain s' i = [] \<and> file_size (slot_file s' i) = 0 \<and>
    (\<forall>j. used s j \<longrightarrow> slot_file s' j = slot_file s j \<and> file_data s' j = file_data s j)"
proof -
  note ok = fs_okD [OF assms(1)]
  let ?s = "set_file (slot_addr s i) (new_entry n (slot_file s i)) s"
  from free_slot_SomeD [OF assms(4)] have i: "i < FS_FILE_MAX_COUNT" by simp
  have "fs_create (Some n) s = Inr (0, ?s)" using assms(2-4) by (simp add: fs_create_eq [OF ok(1,3)])
  moreover have "file_size (slot_file ?s i) = 0"
    using slot_file_set_file(1) [OF ok(3) i i] by (simp add: new_entry_def)
  ultimately show ?thesis using create_ok [OF assms] by blast
qed

lemma create_adds_name_witness:
  "\<exists>s'. fs_create (Some [98]) (sample table1 10 1 None) = Inr (0, s') \<and>
    catalog s' [98] = Some 1 \<and> catalog s' [97] = Some 0"
  using create_adds_name [of "sample table1 10 1 None" "[98]" 1]
  by (auto simp: sample_name_bytes)

text \<open>
  C27. On a mounted disk \<open>fs_create\<close>, \<open>fs_delete\<close> and
  \<open>fs_open\<close> return -1 and change nothing exactly when the name is NULL, empty or of
  16 characters or more, or: for \<open>fs_create\<close>, the name exists or no entry is free;
  for \<open>fs_delete\<close>, no file has the name or that file is open; for
  \<open>fs_open\<close>, no file has the name or all 32 descriptors are open.
\<close>

theorem name_calls_reject:
  assumes "fs_ok s"
  shows "(fs_create name s = Inr (-1, s) \<longleftrightarrow>
      (case name of
         None \<Rightarrow> True
       | Some n \<Rightarrow> c_text n = [] \<or> FS_FILENAME_LEN \<le> length (c_text n) \<or>
           catalog s (c_text n) \<noteq> None \<or> free_slot s = None)) \<and>
    (fs_delete name s = Inr (-1, s) \<longleftrightarrow>
      (case name of
         None \<Rightarrow> True
       | Some n \<Rightarrow> c_text n = [] \<or> FS_FILENAME_LEN \<le> length (c_text n) \<or>
           (case catalog s (c_text n) of None \<Rightarrow> True | Some i \<Rightarrow> is_open s i))) \<and>
    (fs_open name s = Inr (-1, s) \<longleftrightarrow>
      (case name of
         None \<Rightarrow> True
       | Some n \<Rightarrow> c_text n = [] \<or> FS_FILENAME_LEN \<le> length (c_text n) \<or>
           catalog s (c_text n) = None \<or> used_fds s = FS_OPEN_MAX_COUNT))"
proof (intro conjI)
  note ok = fs_okD [OF assms]
  have n: "unat (num_open_files s) \<le> FS_OPEN_MAX_COUNT"
    using ok(6) used_fds_le [OF ok(13)] by (simp add: count_ok_def)
  show "fs_open name s = Inr (-1, s) \<longleftrightarrow>
      (case name of
         None \<Rightarrow> True
       | Some n \<Rightarrow> c_text n = [] \<or> FS_FILENAME_LEN \<le> length (c_text n) \<or>
           catalog s (c_text n) = None \<or> used_fds s = FS_OPEN_MAX_COUNT)"
    by (auto simp: fs_open_eq [OF ok(1,3,4,11) n] valid_name_iff bnd_eq_Inr_iff
        free_fd_None_iff [OF ok(13), symmetric] split: option.splits)
qed (auto simp: fs_create_eq [OF fs_okD(1,3) [OF assms]] fs_delete_eq [OF fs_okD(1,3,4,5) [OF assms]]
    valid_name_iff bnd_eq_Inr_iff split: option.splits)

lemma name_calls_reject_witness:
  "fs_create (Some [97]) (sample table1 10 1 None) = Inr (-1, sample table1 10 1 None) \<and>
    fs_delete (Some sample_name) (sample table1 10 1 (Some 0)) = Inr (-1, sample table1 10 1 (Some 0)) \<and>
    fs_open (Some [98]) (sample table1 10 1 None) = Inr (-1, sample table1 10 1 None)"
proof (intro conjI)
  show "fs_create (Some [97]) (sample table1 10 1 None) = Inr (-1, sample table1 10 1 None)"
    using conjunct1 [OF name_calls_reject [of "sample table1 10 1 None" "Some [97]"]]
    by (simp add: sample_name_bytes(1) [symmetric])
  show "fs_delete (Some sample_name) (sample table1 10 1 (Some 0)) = Inr (-1, sample table1 10 1 (Some 0))"
    using conjunct1 [OF conjunct2 [OF name_calls_reject [of "sample table1 10 1 (Some 0)" "Some sample_name"]]]
    by simp
  show "fs_open (Some [98]) (sample table1 10 1 None) = Inr (-1, sample table1 10 1 None)"
    using conjunct2 [OF conjunct2 [OF name_calls_reject [of "sample table1 10 1 None" "Some [98]"]]]
    by (simp add: sample_name_bytes)
qed

text \<open>
  C28. \<open>fs_delete\<close> of a file of two blocks or more that is not open returns 0 but
  releases the first block only: the table changes in two entries, that of the first block and
  entry 0, which must be \<open>FAT_EOC\<close>, and both become 0. The entries of the second
  block and of all later ones stay nonzero, but none of these blocks is part of a file any more:
  the other files keep their entries and chains, and the deleted one is gone.
\<close>

theorem delete_long_file_leaks:
  assumes "fs_ok s" and "valid_name n" and "catalog s (c_text n) = Some i" and "\<not> is_open s i"
    and "slot_chain s i = x # y # ys"
  shows "\<exists>s'. fs_delete (Some n) s = Inr (0, s') \<and> the_fat s' = (the_fat s)[unat x := 0, 0 := 0] \<and>
    (\<forall>z \<in> set (y # ys). the_fat s' ! unat z \<noteq> 0) \<and>
    (\<forall>j. used s' j \<longleftrightarrow> used s j \<and> j \<noteq> i) \<and>
    (\<forall>j. used s' j \<longrightarrow> slot_file s' j = slot_file s j \<and> slot_chain s' j = slot_chain s j \<and>
      set (slot_chain s' j) \<inter> set (y # ys) = {})"
proof -
  note d = fs_delete_long [OF assms]
  let ?s = "update_slot (broken (the_fat s) x) i (emptied (slot_file s i)) (dev s) s"
  have "slot_chain ?s j = slot_chain s j" if "used ?s j" for j
    unfolding slot_chain_def [of ?s] by (rule chain_of_eq) (use d(5) [OF that] in blast)
  with d show ?thesis by (intro exI [of _ ?s]) (simp add: broken_def)
qed

lemma delete_long_file_leaks_witness:
  "\<exists>s'. fs_delete (Some sample_name) (sample table2 8192 1 None) = Inr (0, s') \<and>
    the_fat s' ! 0 = 0 \<and> the_fat s' ! 2 \<noteq> 0"
  using delete_long_file_leaks [of "sample table2 8192 1 None" sample_name 0 1 2 "[]"] by auto

text \<open>
  C29. After \<open>fs_delete\<close> of one file of two blocks or more, \<open>fs_delete\<close>
  of another such file never returns.
\<close>

theorem second_long_delete_diverges:
  assumes "fs_ok s" and "valid_name n" and "valid_name m"
    and "catalog s (c_text n) = Some i" and "catalog s (c_text m) = Some j" and "i \<noteq> j"
    and "\<not> is_open s i" and "\<not> is_open s j"
    and "2 \<le> length (slot_chain s i)" and "2 \<le> length (slot_chain s j)"
  shows "\<exists>s'. fs_delete (Some n) s = Inr (0, s') \<and> fs_delete (Some m) s' = Inl Diverges"
proof -
  obtain x y xs where "slot_chain s i = x # y # xs"
    using assms(9) by (cases "slot_chain s i" rule: remdups_adj.cases) auto
  moreover obtain v w vs where "slot_chain s j = v # w # vs"
    using assms(10) by (cases "slot_chain s j" rule: remdups_adj.cases) auto
  ultimately show ?thesis
    using fs_delete_twice [OF assms(1,2,4,7) _ assms(3,5,8) _ assms(6)] by blast
qed

lemma second_long_delete_diverges_witness:
  "\<exists>s'. fs_delete (Some sample_name) (pair None) = Inr (0, s') \<and>
    fs_delete (Some [98]) s' = Inl Diverges"
  using second_long_delete_diverges [OF pair_fs_ok, of sample_name "[98]" None 0 1]
  by (simp add: sample_name_bytes(2,3))

section \<open>Mounting\<close>

text \<open>
  C34. For a program with no disk mounted, a host that does not fail and a disk file of whole
  blocks, more than 2 and fewer than 65536, whose superblock names one FAT block and 1 to 2048
  data blocks, \<open>fs_mount\<close> returns 0 exactly if the superblock passes the checks,
  entry 0 of the table is \<open>FAT_EOC\<close> and the padding of all 128 directory entries is
  zero (the directory is read from block 2); then the superblock, the table and the 128 entries of
  that file are in memory, no file is open and the disk is unchanged. Otherwise it returns -1.
\<close>

theorem mount_loads_image:
  assumes "\<not> is_disk_mounted s" and "disk_fd (disk (dev s)) = INVALID_FD" and "calm (dev s)"
    and "0 \<le> host_next (host (dev s))" and "host_files (host (dev s)) path = Some c"
    and "length (root s) = FS_FILE_MAX_COUNT" and "length (open_files s) = FS_OPEN_MAX_COUNT"
    and "length c mod BLOCK_SIZE = 0" and "2 < length c div BLOCK_SIZE" and "length c div BLOCK_SIZE < 65536"
    and "num_fat_blocks (image_sb c) = 1" and "0 < num_data_blocks (image_sb c)"
    and "2 * unat (num_data_blocks (image_sb c)) \<le> BLOCK_SIZE"
  shows "if super_block_ok (image_sb c) (int (length c div BLOCK_SIZE)) \<and> image_fat c ! 0 = FAT_EOC \<and>
      (\<forall>i < FS_FILE_MAX_COUNT. \<forall>x \<in> set (file_padding (image_file c i)). x = 0)
    then \<exists>s'. fs_mount (Some path) s = Inr (0, s') \<and> is_disk_mounted s' \<and>
      the_sb s' = image_sb c \<and> the_fat s' = image_fat c \<and>
      (\<forall>i < FS_FILE_MAX_COUNT. slot_file s' i = image_file c i) \<and>
      all_closed s' \<and> disk_image (dev s') = c
    else \<exists>s'. fs_mount (Some path) s = Inr (-1, s')"
proof (cases "mountable c")
  case True
  show ?thesis
  proof (rule fs_mount_ok [OF assms(1-5) True assms(6,7)])
    fix s'
    assume r: "fs_mount (Some path) s = Inr (0, s')" "holds_image path c s'"
    then have sb: "the_sb s' = image_sb c" by (simp add: holds_image_def the_sb_def image_sb_def)
    with r have "the_fat s' = image_fat c" by (simp add: holds_image_def the_fat_def image_fat_def)
    with r sb True show ?thesis
      by (auto simp: mountable_image intro!: exI [of _ s']) (simp_all add: holds_image_def holds_disk_def image_file_def)
  qed
next
  case False
  with fs_mount_unmountable [OF assms(1-5,8-10) assms(11-13) [unfolded image_sb_def]] assms show ?thesis
    by (auto simp: mountable_image)
qed

lemma mount_loads_image_witness:
  "\<exists>s'. fs_mount (Some ''disk.fs'') (fs_init (\<lambda>_. 0) sample_host) = Inr (0, s') \<and>
    the_fat s' = [0xFFFF, 0, 0, 0] \<and> slot_file s' 5 = blank_entry"
proof -
  note m = mountable_blank [unfolded mountable_image]
  then have "2 < length blank_disk div BLOCK_SIZE" by (simp add: super_block_ok_def word_less_nat_alt)
  with mount_loads_image [of "fs_init (\<lambda>_. 0) sample_host" "''disk.fs''" blank_disk] m mountable_blocks(1) [OF mountable_blank]
  show ?thesis
    by (auto simp: fs_init_def disk_init_def sample_host_def calm_def image_blank FS_FILE_MAX_COUNT_def)
qed

text \<open>
  C35. \<open>load_superblock\<close> accepts a block exactly when its little-endian fields
  satisfy the checks: the block count is that of the disk, directory and data do not start at
  block 0 nor at the same block, data and FAT have fewer blocks than the disk, the padding is
  zero. The signature plays no part.
\<close>

theorem superblock_accepted_iff:
  assumes "length p = BLOCK_SIZE" and "calm (dev s)"
  shows "fst (load_superblock (Some p) s) = 0 \<longleftrightarrow>
    int (unat (p ! 8) + 256 * unat (p ! 9)) = block_disk_count (dev s) \<and>
    concatenate_two_bytes (p ! 10) (p ! 11) \<noteq> 0 \<and> concatenate_two_bytes (p ! 12) (p ! 13) \<noteq> 0 \<and>
    concatenate_two_bytes (p ! 12) (p ! 13) \<noteq> concatenate_two_bytes (p ! 10) (p ! 11) \<and>
    concatenate_two_bytes (p ! 14) (p ! 15) < concatenate_two_bytes (p ! 8) (p ! 9) \<and>
    unat (p ! 16) < unat (p ! 8) + 256 * unat (p ! 9) \<and> (\<forall>x \<in> set (drop 17 p). x = 0)"
proof -
  have "uint (concatenate_two_bytes (p ! 8) (p ! 9)) = int (unat (p ! 8) + 256 * unat (p ! 9))"
    unfolding uint_eq_int_iff unat_concatenate_two_bytes by simp
  moreover have "take SUPERBLOCK_PAD_LEN (drop 17 p) = drop 17 p"
    using assms(1) by (simp add: BLOCK_SIZE_def SUPERBLOCK_PAD_LEN_def)
  ultimately show ?thesis
    unfolding load_superblock_result(1) [OF assms]
    by (simp add: super_block_ok_def parse_super_block_def word_less_nat_alt unat_concatenate_two_bytes)
qed

lemma superblock_accepted_iff_witness:
  "fst (load_superblock (Some blank_super) (sample table1 10 1 None)) = 0"
proof -
  have "block_disk_count sample_dev = 7" 
    by (simp add: block_disk_count_def sample_dev_def INVALID_FD_def to_int_def)
  then show ?thesis
    using superblock_accepted_iff [of blank_super "sample table1 10 1 None"]
    by (simp add: BLOCK_SIZE_def sample_dev_ok) (simp add: blank_super_def concatenate_two_bytes_def)
qed

text \<open>
  C36. \<open>fs_mount\<close> of a disk whose superblock is rejected returns -1 but leaves the
  disk open and marked as mounted, so that every later \<open>fs_mount\<close> fails, too.
\<close>

theorem failed_mount_keeps_disk:
  assumes "\<not> is_disk_mounted s" and "disk_fd (disk (dev s)) = INVALID_FD" and "calm (dev s)"
    and "0 \<le> host_next (host (dev s))" and "host_files (host (dev s)) path = Some c"
    and "length c mod BLOCK_SIZE = 0" and "BLOCK_SIZE < length c" and "length c div BLOCK_SIZE < 65536"
    and "\<not> super_block_ok (image_sb c) (int (length c div BLOCK_SIZE))"
  shows "\<exists>s'. fs_mount (Some path) s = Inr (-1, s') \<and> is_disk_mounted s' \<and>
    disk_fd (disk (dev s')) \<noteq> INVALID_FD \<and> (\<forall>path'. fs_mount path' s' = Inr (-1, s'))"
  using fs_mount_rejects [OF assms(1-8)] assms(9) fs_mount_mounted unfolding image_sb_def by blast

lemma failed_mount_keeps_disk_witness:
  "\<exists>s'. fs_mount (Some ''zero'') (fs_init (\<lambda>_. 0) (sample_host\<lparr>host_files := [''zero'' \<mapsto> replicate 8192 0]\<rparr>)) =
      Inr (-1, s') \<and> is_disk_mounted s'"
proof -
  have "\<not> super_block_ok (image_sb (replicate 8192 0)) 2"
    by (simp add: super_block_ok_def image_sb_def parse_super_block_def content_block_def BLOCK_SIZE_def
        concatenate_two_bytes_def)
  then show ?thesis
    using failed_mount_keeps_disk [of "fs_init (\<lambda>_. 0) (sample_host\<lparr>host_files := [''zero'' \<mapsto> replicate 8192 0]\<rparr>)"
        "''zero''" "replicate 8192 0"]
    by (auto simp: fs_init_def disk_init_def sample_host_def calm_def BLOCK_SIZE_def)
qed

text \<open>
  C39. \<open>load_fat\<close> on a disk with two FAT blocks and 2049 to 3071 data blocks writes
  past the end of its buffer.
\<close>

theorem two_fat_blocks_overflow:
  assumes "sb s = Ptr b" and "num_fat_blocks b = 2" and "2048 < unat (num_data_blocks b)"
    and "unat (num_data_blocks b) < 3072" and "disk_ok (dev s)" and "calm (dev s)" and "2 < blocks (dev s)"
  shows "load_fat s = Inl Out_of_bounds"
  by (rule load_fat_overflow [OF assms])

lemma two_fat_blocks_overflow_witness:
  "load_fat ((sample table1 10 1 None)\<lparr>sb := Ptr (sample_sb\<lparr>num_data_blocks := 2100, num_fat_blocks := 2\<rparr>)\<rparr>) =
    Inl Out_of_bounds"
  by (rule two_fat_blocks_overflow) (simp_all add: sample_dev_ok, simp_all add: sample_sb_def)

text \<open>
  C40. \<open>fs_umount\<close> leaves in the disk file the superblock, the table and the
  directory that are in memory, leaves the data blocks alone and closes the disk: the file is then
  an image of the abstract state.
\<close>

theorem umount_writes_back:
  assumes "mounted_on path s"
  shows "\<exists>s' c. fs_umount s = Inr (0, s') \<and> \<not> is_disk_mounted s' \<and>
    disk_fd (disk (dev s')) = INVALID_FD \<and> host_files (host (dev s')) path = Some c \<and>
    image_sb c = the_sb s \<and> image_fat c = the_fat s \<and>
    (\<forall>i < FS_FILE_MAX_COUNT. image_file c i = slot_file s i) \<and>
    (\<forall>b. 2 < b \<longrightarrow> content_block c b = block_at (dev s) b)"
proof -
  note u = umount_dev_blocks [OF assms]
  let ?c = "disk_image (umount_dev s)"
  from assms have m: "is_disk_mounted s" "fat_ok s" "files_ok s" "disk_ok (dev s)" "calm (dev s)"
    "parse_super_block (block_at (dev s) 0) = the_sb s" "num_fat_blocks (the_sb s) = 1"
    "root_index (the_sb s) = 2" "2 < blocks (dev s)" "2 * length (the_fat s) \<le> BLOCK_SIZE"
    by (simp_all add: mounted_on_def)
  then have n: "unat (num_fat_blocks (the_sb s)) < blocks (dev s)"
    "unat (root_index (the_sb s)) < blocks (dev s)" by simp_all
  have sb: "image_sb ?c = the_sb s"
    using u(5) [of 0] m(6) by (simp add: image_sb_def block_at_content)
  have "image_fat ?c = the_fat s"
    using u(3) fat_of_fat_block_mem [OF m(10), of "junk s"] fat_okD(3) [OF m(2)]
    by (simp add: image_fat_def sb block_at_content)
  moreover have "image_file ?c i = slot_file s i" if "i < FS_FILE_MAX_COUNT" for i
    using u(4) dir_image_entry [OF m(3) that] by (simp add: image_file_def block_at_content)
  moreover have "content_block ?c b = block_at (dev s) b" if "2 < b" for b
    using u(5) [of b] that by (simp add: block_at_content)
  ultimately have c: "host_files (host (umount_dev s)) path = Some ?c \<and> image_sb ?c = the_sb s \<and>
      image_fat ?c = the_fat s \<and> (\<forall>i < FS_FILE_MAX_COUNT. image_file ?c i = slot_file s i) \<and>
      (\<forall>b. 2 < b \<longrightarrow> content_block ?c b = block_at (dev s) b)"
    using u(6) sb by blast
  show ?thesis
  proof (rule fs_umount_ok [OF m(1-5) n])
    fix s' assume "fs_umount s = Inr (0, s')" "\<not> is_disk_mounted s'"
      "disk_fd (disk (dev s')) = INVALID_FD" "host_files (host (dev s')) = host_files (host (umount_dev s))"
    with c show ?thesis by (intro exI [of _ s'] exI [of _ ?c]) simp
  qed
qed

lemma umount_writes_back_witness:
  "\<exists>s' c. fs_umount (sample table2 8192 1 (Some 5)) = Inr (0, s') \<and>
    host_files (host (dev s')) ''disk.fs'' = Some c \<and> image_fat c = table2"
  using umount_writes_back [of "''disk.fs''" "sample table2 8192 1 (Some 5)"] table_in_session(3)
  by (auto simp: in_session_def)

section \<open>Further facts on single calls\<close>

text \<open>
  \<open>fs_ls\<close> does not return -1 without a mounted disk: after \<open>fs_umount\<close>
  it reads the entries that were freed.
\<close>

theorem ls_after_umount_faults:
  assumes "mounted_on path s"
  shows "\<exists>s'. fs_umount s = Inr (0, s') \<and> fs_ls s' = Inl Use_after_free"
proof -
  from assms have m: "is_disk_mounted s" "fat_ok s" "files_ok s" "disk_ok (dev s)" "calm (dev s)"
    "unat (num_fat_blocks (the_sb s)) < blocks (dev s)" "unat (root_index (the_sb s)) < blocks (dev s)"
    by (simp_all add: mounted_on_def)
  from files_ok_slot(1) [OF m(3), of 0] m(3) have r: "root s ! 0 \<in> set (root s)" "length (root s) = FS_FILE_MAX_COUNT"
    by (simp_all add: files_ok_def) (metis files_ok_def FS_FILE_MAX_COUNT_pos(1) nth_mem)
  show ?thesis
  proof (rule fs_umount_ok [OF m])
    fix s' assume "fs_umount s = Inr (0, s')" "root s' = root s"
      "\<And>p. p \<in> set (root s) \<Longrightarrow> file_at p s' = Inl Use_after_free"
    then show ?thesis using r by (auto simp: root_entry_def fetch_def intro!: fs_ls_fault)
  qed
qed

text \<open>
  \<open>fs_info\<close> prints the fields of the superblock, the number of free entries of the
  table and the number of free entries of the directory, and changes nothing else.
\<close>

theorem info_prints_counts:
  assumes "is_disk_mounted s" and "fat_ok s" and "files_ok s"
  shows "fs_info s = Inr (0, s\<lparr>stdout := stdout s @ info_lines s\<rparr>)"
  by (rule fs_info_eq [OF assms])

text \<open>
  \<open>fs_stat\<close> returns the size of the file, below \<open>2 ^ 31\<close> bytes.
\<close>

theorem stat_returns_size:
  assumes "fs_ok s" and "open_fd s fd" and "fd_slot s fd = Some i"
    and "unat (file_size (slot_file s i)) < 2 ^ 31"
  shows "fs_stat fd s = Inr (int (unat (file_size (slot_file s i))))"
proof -
  note ok = fs_okD [OF assms(1)]
  have "unat (file_size (slot_file s i)) \<le> nat INT_MAX" using assms(4) by (simp add: INT_MAX_def)
  then have "uint (file_size (slot_file s i)) \<le> INT_MAX" by (subst (asm) le_nat_iff) (simp_all add: INT_MAX_def)
  then have "to_int (file_size (slot_file s i)) = uint (file_size (slot_file s i))" by (rule to_int_small)
  then show ?thesis using fs_stat_eq [OF ok(1,3,4) assms(2,3)] by simp
qed

text \<open>
  \<open>find_matching_filename\<close> returns the first entry that holds the name, and -1 when
  there is none.
\<close>

theorem matching_filename_is_first:
  assumes "files_ok s" and "valid_name name"
  shows "\<exists>r. find_matching_filename name s = Inr r \<and>
    (r = -1 \<longrightarrow> (\<forall>i < FS_FILE_MAX_COUNT. slot_name s i \<noteq> c_text name)) \<and>
    (r \<noteq> -1 \<longrightarrow> 0 \<le> r \<and> r < int FS_FILE_MAX_COUNT \<and> slot_name s (nat r) = c_text name \<and>
      (\<forall>j < nat r. slot_name s j \<noteq> c_text name))"
  using find_matching_filename_eq [OF assms]
  by (auto simp: index_result_def find_upt_Some_iff find_upt_None_iff split: option.split)

text \<open>
  After any sequence of admissible calls on a mounted disk, \<open>fs_umount\<close> returns 0,
  and another program that starts afterwards, with no memory of the first, mounts the same disk
  file and finds the same names, and every file with the same directory entry and the same data.
\<close>

theorem changes_survive_restart:
  assumes "in_session path s" and "reachable s s'"
  shows "\<exists>s1. fs_umount s' = Inr (0, s1) \<and>
    (\<forall>j. \<exists>s2. fs_mount (Some path) (fs_init j (host (dev s1))) = Inr (0, s2) \<and> catalog s2 = catalog s' \<and>
      (\<forall>i. used s' i \<longrightarrow> slot_file s2 i = slot_file s' i \<and> file_data s2 i = file_data s' i))"
  by (rule session_restart [OF session_call [OF assms]]) meson

text \<open>
  \<open>fs_close\<close> of an open descriptor returns 0, closes it and no other one, and counts
  it off.
\<close>

theorem close_frees_descriptor:
  assumes "fs_ok s" and "open_fd s fd"
  shows "\<exists>s'. fs_close fd s = Inr (0, s') \<and> fs_ok s' \<and> same_files s s' \<and>
    num_open_files s' = num_open_files s - 1 \<and>
    (\<forall>k. open_fd s' k \<longleftrightarrow> open_fd s k \<and> k \<noteq> fd) \<and> (\<forall>k. open_fd s' k \<longrightarrow> the_fd s' k = the_fd s k)"
proof -
  note ok = fs_okD [OF assms(1)]
  have fd: "0 \<le> fd" "fd < int FS_OPEN_MAX_COUNT" using assms(2) by (simp_all add: open_fd_def)
  then have "fs_close fd s = Inr (0, closed fd s)" using assms(2) by (simp add: fs_close_eq [OF ok(1,4)])
  moreover have "open_fd (closed fd s) k \<longleftrightarrow> open_fd s k \<and> k \<noteq> fd" for k
    using fd ok(13) by (auto simp: open_fd_def closed_def nth_list_update eq_nat_nat_iff)
  moreover have "the_fd (closed fd s) k = the_fd s k" if "open_fd s k" "k \<noteq> fd" for k
    using that fd by (auto simp: the_fd_def closed_def open_fd_def eq_nat_nat_iff)
  moreover have "num_open_files (closed fd s) = num_open_files s - 1" by (simp add: closed_def)
  ultimately show ?thesis using closed_fs_ok [OF assms] by blast
qed

text \<open>
  The five functions return -1 and change nothing for every other descriptor that is not open.
\<close>

theorem closed_descriptor_rejected:
  assumes "fs_ok s" and "\<not> open_fd s fd" and "fd < 32 \<or> 128 \<le> fd"
  shows "fs_close fd s = Inr (-1, s) \<and> fs_stat fd s = Inr (-1) \<and> fs_lseek fd offset s = Inr (-1, s) \<and>
    fs_read fd buf count s = Inr (-1, buf, s) \<and> fs_write fd buf count s = Inr (-1, s)"
proof -
  have "fd_rejected fd s = Inr True"
    using fd_rejected_eq [OF fs_okD(13,1) [OF assms(1)], of fd] assms(2,3) by (auto simp: fs_sizes)
  then show ?thesis by (simp add: fs_close_def fs_stat_def fs_lseek_def fs_read_def fs_write_def)
qed

text \<open>
  \<open>test_fs add\<close> of a file of more than 4096 bytes and then \<open>test_fs rm\<close>
  of it both exit with status 0, but leave a disk on which every later \<open>test_fs ls\<close>
  exits with status 1.
\<close>

theorem long_rm_destroys_disk:
  assumes "host_files h path = Some c" and "formatted c" and "host_faults h = []" and "0 \<le> host_next h"
    and "host_files h name = Some d" and "room_for (literal name) (length d) (image_afs c)"
    and "BLOCK_SIZE < length d"
  shows "\<exists>s1. thread_fs_add [path, name] (fs_init j h) = Inr (0, s1) \<and>
    (\<forall>j'. \<exists>s2. thread_fs_rm [path, name] (fs_init j' (host (dev s1))) = Inr (0, s2) \<and>
      (\<forall>j''. \<exists>s3. thread_fs_ls [path] (fs_init j'' (host (dev s2))) = Inr (1, s3)))"
proof (rule add_ok [OF assms(1-6), of j])
  let ?n = "literal name"
  fix s c' rest
  assume a: "thread_fs_add [path, name] (fs_init j h) = Inr (0, s)" "host_files (host (dev s)) path = Some c'"
    "formatted c'" "host_faults (host (dev s)) = []" "0 \<le> host_next (host (dev s))"
    "image_afs c' = with_file ?n d rest (image_afs c)"
  have v: "valid_name ?n" using assms(6) by (simp add: room_for_def)
  have f: "a_files (image_afs c') (c_text ?n) = Some \<lparr>a_size = of_nat (length d), a_data = d @ rest\<rparr>"
    by (simp add: a(6) with_file_def)
  have "BLOCK_SIZE < length (a_data \<lparr>a_size = of_nat (length d), a_data = d @ rest\<rparr>)" using assms(7) by simp
  note r = rm_long [OF a(2-5) v f this]
  have "\<exists>s2. thread_fs_rm [path, name] (fs_init j' (host (dev s))) = Inr (0, s2) \<and>
      (\<forall>j''. \<exists>s3. thread_fs_ls [path] (fs_init j'' (host (dev s2))) = Inr (1, s3))" for j'
  proof (rule r [of j'])
    fix s2 assume "thread_fs_rm [path, name] (fs_init j' (host (dev s))) = Inr (0, s2)"
      and m: "\<And>j. \<exists>s'. fs_mount (Some path) (fs_init j (host (dev s2))) = Inr (-1, s')"
    moreover have "\<exists>s3. thread_fs_ls [path] (fs_init j'' (host (dev s2))) = Inr (1, s3)" for j''
      using m [of j''] by (auto simp: thread_fs_ls_def die_def)
    ultimately show ?thesis by blast
  qed
  with a(1) show ?thesis by blast
qed

text \<open>
  \<open>find_data_block\<close> returns the n-th block of the file's chain, and
  \<open>FAT_EOC\<close> for every n past its end.
\<close>

theorem data_block_is_nth_of_chain:
  assumes "fat_ok s" and "opened_file fd s = Inr (a, f)" and "chain (the_fat s) (first_index f) xs"
  shows "find_data_block fd (int n) s = Inr (if n < length xs then xs ! n else FAT_EOC)"
  by (rule find_data_block_ok [OF assms])

text \<open>
  Numbers of two and four bytes are read in little-endian order, and reading back what
  \<open>fs_umount\<close> writes for a number gives the number.
\<close>

theorem number_roundtrip:
  "unat (concatenate_two_bytes a b) = unat a + 256 * unat b \<and>
   unat (concatenate_four_bytes a b c d) = unat a + 2 ^ 8 * unat b + 2 ^ 16 * unat c + 2 ^ 24 * unat d \<and>
   concatenate_two_bytes (u16_bytes x ! 0) (u16_bytes x ! 1) = x \<and>
   concatenate_four_bytes (u32_bytes y ! 0) (u32_bytes y ! 1) (u32_bytes y ! 2) (u32_bytes y ! 3) = y"
  using u16c.dec_enc [of x] u32c.dec_enc [of y]
  by (simp add: u16_of_bytes_def u32_of_bytes_def unat_concatenate_two_bytes unat_concatenate_four_bytes)

text \<open>
  Without a mounted disk every function but \<open>fs_ls\<close> and \<open>fs_mount\<close>
  returns -1 and changes nothing.
\<close>

theorem unmounted_calls_rejected:
  assumes "\<not> is_disk_mounted s"
  shows "fs_umount s = Inr (-1, s) \<and> fs_info s = Inr (-1, s) \<and> fs_create name s = Inr (-1, s) \<and>
    fs_delete name s = Inr (-1, s) \<and> fs_open name s = Inr (-1, s) \<and> fs_close fd s = Inr (-1, s) \<and>
    fs_stat fd s = Inr (-1) \<and> fs_lseek fd offset s = Inr (-1, s) \<and>
    fs_read fd buf count s = Inr (-1, buf, s) \<and> fs_write fd buf count s = Inr (-1, s)"
  using assms
  by (simp add: fs_umount_def fs_info_def fs_create_def fs_delete_def fs_open_def fs_close_def
      fs_stat_def fs_lseek_def fs_read_def fs_write_def)

text \<open>
  \<open>block_write\<close> on an open disk succeeds for every index in range; the block then
  reads back as written, and every other block as before.
\<close>

theorem block_read_after_write:
  assumes "disk_ok d" and "calm d" and "unat b < blocks d" and "length buf = BLOCK_SIZE"
  shows "\<exists>d'. block_write b buf d = (0, d') \<and> disk_ok d' \<and> block_read b d' = (0, buf, d') \<and>
    (\<forall>b'. unat b' < blocks d \<longrightarrow> b' \<noteq> b \<longrightarrow> block_read b' d' = (0, block_at d (unat b'), d'))"
proof -
  let ?d = "put_block (unat b) buf d"
  have ok: "disk_ok ?d" "calm ?d" using assms by (simp_all add: put_block_disk_ok)
  have "block_read b' ?d = (0, if b' = b then buf else block_at d (unat b'), ?d)" if "unat b' < blocks d" for b'
    using block_read_ok [OF ok, of b'] that assms vd.get_put_same [OF assms(1,3,4)]
      vd.get_put_other [OF assms(1,3,4), of "unat b'"]
    by (cases "b' = b") (auto dest: unsigned_word_eqI)
  with assms block_write_ok [OF assms(1-3)] ok show ?thesis by auto
qed

text \<open>
  \<open>allocate_blocks_in_fat\<close> leaves every chain that shares no block with the file's
  own as it was, and the table its length.
\<close>

theorem allocation_keeps_other_chains:
  assumes "fat_ok s" and "opened_file fd s = Inr (a, f)"
    and "chain (the_fat s) (first_index f) xs" and "0 < target"
    and "chain (the_fat s) b zs" and "set xs \<inter> set zs = {}"
    and "allocate_blocks_in_fat fd (int target) s = Inr (r, s')"
  shows "chain (the_fat s') b zs \<and> length (the_fat s') = length (the_fat s)"
proof -
  let ?ys = "xs @ fresh_blocks (the_fat s) (target - length xs)"
  from allocate_blocks_in_fat_ok [OF assms(1-4)] assms(7) obtain F where F:
    "the_fat s' = F" "grown (the_fat s) F (first_of ?ys) ?ys" by auto
  have "F ! unat z = the_fat s ! unat z" if "z \<in> set zs" for z
  proof -
    have "z \<notin> set ?ys"
      using that assms(6) fresh_blocks_free [OF assms(1), of z] free_not_in_chain [OF assms(5) _ that] by auto
    then have "unat z \<notin> unat ` set ?ys" by (auto dest!: unsigned_word_eqI)
    with F(2) chain_members [OF assms(5) that] show ?thesis by (simp add: grown_def)
  qed
  with F show ?thesis using chain_frame [OF assms(5)] by (simp add: grown_def)
qed

text \<open>
  The two comparisons of names, \<open>strcmp\<close> and \<open>streq\<close>, both decide
  whether an entry holds a valid name, and neither reads past the 16 bytes of the entry.
\<close>

theorem name_comparisons_agree:
  assumes "valid_name name" and "length arr = FS_FILENAME_LEN"
  shows "strcmp_eq (c_mem name) arr = Inr (c_text arr = c_text name) \<and>
    streq arr (c_mem name) = Inr (if c_text arr = c_text name then 0 else -1)"
  using strcmp_eq_valid [OF assms] streq_valid [OF assms] by simp

text \<open>
  The flat array \<open>fs_umount\<close> builds of the directory is one block, from which the
  decoding of \<open>load_root_directory\<close> recovers each of the 128 entries.
\<close>

theorem directory_roundtrip:
  assumes "files_ok s"
  shows "\<exists>block. encode_root 0 s = Inr block \<and> length block = BLOCK_SIZE \<and>
    (\<forall>i < FS_FILE_MAX_COUNT. decode_file (drop (ROOT_ENTRY_LEN * i) block) = slot_file s i)"
  using encode_root_ok [OF assms] length_dir_image [OF assms] dir_image_entry [OF assms]
  by (auto simp: dir_entry_def)

text \<open>
  \<open>fs_delete\<close> of a file of at most one block that is not open returns 0, removes its
  name and nothing else from the directory, and makes its block free; the other files keep entry
  and data.
\<close>

theorem delete_short_file:
  assumes "fs_ok s" and "valid_name n" and "catalog s (c_text n) = Some i" and "\<not> is_open s i"
    and "length (slot_chain s i) \<le> 1"
  shows "\<exists>s'. fs_delete (Some n) s = Inr (0, s') \<and> fs_ok s' \<and>
    catalog s' = (catalog s)(c_text n := None) \<and>
    (\<forall>x \<in> set (slot_chain s i). unat x \<in> set (free_entries (the_fat s'))) \<and>
    (\<forall>j. used s j \<longrightarrow> j \<noteq> i \<longrightarrow> slot_file s' j = slot_file s j \<and> file_data s' j = file_data s j)"
proof -
  let ?s = "update_slot (released (the_fat s) (slot_chain s i)) i (emptied (slot_file s i)) (dev s) s"
  have "used s i" using catalog_SomeD [OF assms(3)] by (auto simp: used_def)
  note c = chains_okD(1) [OF fs_okD(7) [OF assms(1)] this]
  have "unat x \<in> set (free_entries (the_fat ?s))" if "x \<in> set (slot_chain s i)" for x
  proof -
    from that assms(5) have "slot_chain s i = [x]" by (cases "slot_chain s i") auto
    moreover from chain_members [OF c that] have "unat x < length (the_fat s)" "0 < unat x"
      by (simp_all add: unat_gt_0)
    ultimately show ?thesis by (simp add: released_def free_entries_def)
  qed
  with fs_delete_short [OF assms] delete_ok [OF assms(1,3-5)] show ?thesis by blast
qed

end
