(* ===== verification/Spec2Isabelle.thy ===== *)
theory Spec2Isabelle
  imports Properties
begin

text \<open>
  ECS150-FS, the file system of \<open>src/libfs\<close>: a library of twelve calls (\<open>fs_mount\<close>, \<open>fs_umount\<close>,
  \<open>fs_info\<close>, \<open>fs_create\<close>, \<open>fs_delete\<close>, \<open>fs_ls\<close>, \<open>fs_open\<close>, \<open>fs_close\<close>, \<open>fs_stat\<close>, \<open>fs_lseek\<close>, \<open>fs_write\<close>,
  \<open>fs_read\<close>) that keeps up to 128 files in one directory on a virtual disk. The disk is a file of the
  host, divided into blocks of 4096 bytes: a superblock, the file allocation table (FAT), the root
  directory, and the data blocks. The FAT links the blocks of each file in a chain; descriptors (32 at
  most) carry an offset into a file.

  \<^bold>\<open>The model.\<close> The library is one record \<open>fs\<close> for the file-scope variables of \<open>fs.c\<close> (with the objects
  they point to, the static disk of \<open>disk.c\<close> and the host below it), and one function on it per C
  function. A call returns \<open>Inr\<close> of its result and the new state, or \<open>Inl\<close> of a fault where C gives no
  defined result: a null or dangling pointer, an access out of bounds, signed overflow, an endless loop.
  Integers have the width they have in the code (words of 8, 16, 32 and 64 bits; \<open>int\<close> with checked
  overflow). Nothing is bounded by fuel: every loop is a total function with a measure, except the release
  loop of \<open>fs_delete\<close>, which may not end and is a partial function whose value None is the fault
  \<open>Diverges\<close>.

  \<^item> \<open>Prelude\<close>: C integers, faults, \<open>bnd\<close>, checked array accesses, the search loop.
  \<^item> \<open>Bytes\<close>: \<open>concatenate_two_bytes\<close>, \<open>concatenate_four_bytes\<close>, the byte writing of \<open>fs_umount\<close>; the
    locale \<open>fixed_codec\<close> of fixed-width encodings, interpreted on 16-bit and 32-bit numbers and (in
    \<open>Mount\<close>) on directory entries.
  \<^item> \<open>Disk\<close>: \<open>disk.c\<close> over the host; the locale \<open>block_device\<close> of what the file system relies on,
    interpreted on this disk.
  \<^item> \<open>Fs_State\<close>: the structs and variables of \<open>fs.c\<close>, pointer accesses, well-formed tables.
  \<^item> \<open>Names\<close>: \<open>streq\<close>, \<open>strcmp\<close>, \<open>is_filename_invalid\<close> and the two searches of the directory.
  \<^item> \<open>Chains\<close>: the abstract FAT (chains, free entries); \<open>Fat\<close>: \<open>allocate_blocks_in_fat\<close>,
    \<open>find_data_block\<close> and the release loop, with their effect on chains.
  \<^item> \<open>Mount\<close>: \<open>load_disk\<close>, \<open>load_superblock\<close>, \<open>load_fat\<close>, \<open>load_root_directory\<close>, \<open>fs_mount\<close>, \<open>fs_umount\<close>;
    the disk file as an image of the state.
  \<^item> \<open>Directory\<close>: \<open>fs_create\<close>, \<open>fs_delete\<close>, \<open>fs_ls\<close>, \<open>fs_info\<close>, \<open>printblock\<close>; the directory as a map from
    names to slots.
  \<^item> \<open>Descriptors\<close>: \<open>fs_open\<close>, \<open>fs_close\<close>, \<open>fs_stat\<close>, \<open>fs_lseek\<close>.
  \<^item> \<open>Read_Write\<close>: \<open>fs_read\<close> and \<open>fs_write\<close>; \<open>Reading\<close> and \<open>Writing\<close>: their effect on the data of a file.
  \<^item> \<open>Invariant\<close>: the invariant \<open>fs_ok\<close> of a mounted file system, and that every operation keeps it.
  \<^item> \<open>System\<close>: the API as a state machine, its reachable states, sessions from mount to unmount, and
    what a program finds that starts afterwards.
  \<^item> \<open>Abstract_Fs\<close>: the specification of the API on abstract file systems, which have names, contents,
    offsets and a number of free blocks, but no blocks, tables or pointers; the locale \<open>simulation\<close>.
  \<^item> \<open>Refinement\<close>: the abstraction \<open>abs_fs\<close> of a state and \<open>image_afs\<close> of a disk file; every call, mounting
    and unmounting implement the specification (an interpretation of \<open>simulation\<close>).
  \<^item> \<open>Api_Rules\<close>: one rule per call that follows a program on the abstract state.
  \<^item> \<open>Host_Failures\<close>, \<open>Failing_Writes\<close>: every call on a host that fails some transfers, against the same
    call on a host that does not; \<open>Failing_Sessions\<close>: the specification of a session in which the host may start to fail (a
    second interpretation of \<open>simulation\<close>), and mounting and unmounting on a failing host.
  \<^item> \<open>Stopped_Sessions\<close>: sessions that end without \<open>fs_umount\<close>.
  \<^item> \<open>Kept_States\<close>: the locales \<open>kept_by_calls\<close>, \<open>kept_by_descriptors\<close>, \<open>kept_by_loading\<close> and
    \<open>kept_by_mounting\<close>, which follow every call through all its paths for any property of states that the single
    steps keep. Interpreted in \<open>Typed_States\<close> (the declared sizes of arrays and objects), \<open>Host_Files\<close> (the files
    of the host the library writes) and \<open>Open_Counts\<close> (the counter of open files), which hold for all calls
    whatever their arguments.
  \<^item> \<open>Clients\<close>: the example programs \<open>simple_writer\<close> and \<open>simple_reader\<close>; \<open>Tester\<close>: the commands \<open>info\<close>,
    \<open>ls\<close>, \<open>add\<close>, \<open>rm\<close>, \<open>cat\<close> and \<open>stat\<close> of \<open>src/apps/test_fs.c\<close>. Both are verified with those rules.
  \<^item> \<open>Script\<close>: the command \<open>script\<close> of \<open>test_fs.c\<close> (\<open>thread_fs_script\<close>), from the lines of the script to the
    calls, and the dispatch in \<open>main\<close>; \<open>Script_Lines\<close>: how a line is split; \<open>Script_Files\<close>: lines that read another
    file of the host; \<open>Script_Spec\<close>: what the lines of a script mean on an abstract file system, and that the
    interpreter does that.
  \<^item> \<open>Samples\<close>: concrete disks and states; \<open>Properties\<close> and this theory: the properties.

  \<^bold>\<open>What is shown.\<close> From a consistent disk, every admissible sequence of calls is free of faults, keeps the
  file system well formed and behaves as the abstract specification says, and what it did survives
  \<open>fs_umount\<close> and a restart. Each call is specified on all its branches: what it changes, what it leaves
  alone, and exactly when it returns -1. Admissible leaves out calls the code gets wrong: deleting a file
  of two blocks or more, descriptors from 32 to 127 and reads of 0 bytes, each of which has a property of
  its own, and, outside the contract of any caller, buffers shorter than the count and counts of
  \<open>2 ^ 31 - 2 ^ 16\<close> and more, beyond which the \<open>int\<close> arithmetic of a transfer may overflow
  (\<open>small_count\<close>). These results are for a host whose files can be read and written. If
  transfers or allocations fail, in any order, the calls between \<open>fs_mount\<close> and \<open>fs_umount\<close> report it
  and the file system stays well formed, while \<open>fs_mount\<close> and \<open>fs_umount\<close> themselves hide two kinds of
  failure, with the damage shown. A session that stops before \<open>fs_umount\<close> leaves the disk as consistent as
  it found it. Scripts of \<open>test_fs\<close> run as the specification of their lines says, up to three parts a line;
  a fourth part overflows an array, so that no \<open>READ\<close> line that names its data is defined. Outside the
  specification of a script are a \<open>MOUNT\<close> after the first one and a \<open>WRITE FILE\<close> of the disk file itself.
  Whatever a program calls, the library writes no file of the host but the disk files it mounts,
  and changes the length of no file; and the counter of open files is exact but for the descriptors that
  were open at a mount.

  \<^bold>\<open>How the model differs from the text of the code.\<close>
  \<^item> A \<open>struct FileDescriptor\<close> lives in its slot of \<open>open_files\<close>, which is its only owner; \<open>struct File\<close>
    objects are shared and live in a heap.
  \<^item> The three checks the five functions with a descriptor argument begin with are one definition,
    \<open>fd_rejected\<close>. Each part of a transfer is a definition of its own; a \<open>return\<close> from inside is a value.
  \<^item> Uninitialised memory, and the memory next to the FAT that \<open>fs_umount\<close> writes out with it, is an
    arbitrary function \<open>junk\<close> of the position.
  \<^item> \<open>write\<close> and \<open>read\<close> of the host transfer whole blocks or fail; which calls of the host (and which
    \<open>malloc\<close>) fail is given by a schedule, \<open>host_faults\<close>; an empty schedule (\<open>calm\<close>) is a host that never
    fails. \<open>hush\<close> empties the schedule, \<open>failing\<close> sets one.
  \<^item> A pointer passed to a call is a list of bytes: the object from that address on.
  \<^item> The out-of-bounds check on a caller's buffer precedes the disk access that uses it.
  \<^item> The files of the host are regular files. The stream of a script is what is left of the file, as it was
    when \<open>fopen\<close> opened it; each \<open>fgets\<close> is one call of the host. An entry of \<open>command_args\<close> that the current
    line did not set is \<open>Dangling\<close>. A process ends with its exit status, 134 where an \<open>assert\<close> fails.

  \<^bold>\<open>Not modelled.\<close> Messages on the error stream; \<open>get_argv\<close> of \<open>src/apps/test_fs.c\<close>, which nothing calls;
  the shell tests and their scripts; concurrency, which the library does not support.
\<close>

section \<open>Sessions\<close>

text \<open>
  C1. A freshly started program that mounts a disk file holding a consistent file system succeeds,
  and in every state it can reach by admissible API calls, every admissible call returns a result
  (no null, dangling or out-of-bounds access, no signed overflow, no endless loop) and leaves the
  file system well formed again.
\<close>

theorem mounted_calls_return:
  assumes "host_files h path = Some c" and "formatted c"
    and "host_faults h = []" and "0 \<le> host_next h"
  shows "\<exists>s0. fs_mount (Some path) (fs_init j h) = Inr (0, s0) \<and>
    (\<forall>s k. reachable s0 s \<longrightarrow> admissible k s \<longrightarrow> (\<exists>r s'. run_call k s = Inr (r, s') \<and> fs_ok s'))"
proof (rule fs_init_mount [OF assms, of j])
  fix s0 assume s0: "fs_mount (Some path) (fs_init j h) = Inr (0, s0)" "in_session path s0"
  have "\<exists>r s'. run_call k s = Inr (r, s') \<and> fs_ok s'" if "reachable s0 s" "admissible k s" for s k
  proof -
    from s0(2) have "sound s0" by (simp add: in_session_def)
    from call_fine [OF reachable_sound(1) [OF that(1) this] that(2)] show ?thesis
      by (auto simp: step_fine_def sound_def)
  qed
  with s0(1) show ?thesis by blast
qed

lemma mounted_calls_return_witness:
  "\<exists>s0. fs_mount (Some ''disk.fs'') (fs_init (\<lambda>_. 0) sample_host) = Inr (0, s0) \<and>
    (\<forall>s k. reachable s0 s \<longrightarrow> admissible k s \<longrightarrow> (\<exists>r s'. run_call k s = Inr (r, s') \<and> fs_ok s'))"
  by (rule mounted_calls_return [OF _ formatted_blank]) (simp_all add: sample_host_def)

text \<open>
  C2. A disk file with a consistent file system stands for an abstract one: a map from names to
  sizes and contents, and a number of free blocks. \<open>fs_mount\<close> makes it the state of
  the program; every sequence of admissible calls returns what the abstract specification of the
  calls allows and leads to a state the specification allows; \<open>fs_umount\<close> then leaves
  a consistent disk file that stands for exactly that state, with all descriptors closed. The next
  program that mounts it goes on from there.
\<close>

theorem sessions_refine_specification:
  assumes "host_files h path = Some c" and "formatted c" and "host_faults h = []" and "0 \<le> host_next h"
  shows "\<exists>s0. fs_mount (Some path) (fs_init j h) = Inr (0, s0) \<and> abs_fs s0 = image_afs c \<and>
    (\<forall>tr s. runs_through code_step s0 tr s \<longrightarrow>
      runs_through a_step (image_afs c) tr (abs_fs s) \<and>
      (\<exists>s1 c'. fs_umount s = Inr (0, s1) \<and> host_files (host (dev s1)) path = Some c' \<and> formatted c' \<and>
        image_afs c' = (abs_fs s)\<lparr>a_descs := Map.empty\<rparr>))"
proof (rule mount_abs [OF assms, of j])
  fix s0 assume s0: "fs_mount (Some path) (fs_init j h) = Inr (0, s0)" "in_session path s0" "abs_fs s0 = image_afs c"
  have "runs_through a_step (image_afs c) tr (abs_fs s) \<and>
      (\<exists>s1 c'. fs_umount s = Inr (0, s1) \<and> host_files (host (dev s1)) path = Some c' \<and> formatted c' \<and>
        image_afs c' = (abs_fs s)\<lparr>a_descs := Map.empty\<rparr>)" if "runs_through code_step s0 tr s" for tr s
  proof -
    have "sound s0" using s0(2) by (simp add: in_session_def)
    with api.spec_run [OF that] have "runs_through a_step (image_afs c) tr (abs_fs s)" by (simp add: s0(3))
    moreover have "in_session path s"
      by (rule session_call [OF s0(2) runs_reachable [OF that reachable.start]])
    ultimately show ?thesis by (blast intro: umount_abs [of path s])
  qed
  with s0(1,3) show ?thesis by blast
qed

lemma sessions_refine_specification_witness:
  "\<exists>s0 s s1 c. fs_mount (Some ''disk.fs'') (fs_init (\<lambda>_. 0) sample_host) = Inr (0, s0) \<and>
    fs_create (Some sample_name) s0 = Inr (0, s) \<and> fs_umount s = Inr (0, s1) \<and>
    host_files (host (dev s1)) ''disk.fs'' = Some c \<and>
    a_files (image_afs c) = [sample_name \<mapsto> \<lparr>a_size = 0, a_data = []\<rparr>] \<and> a_room (image_afs c) = 3"
proof -
  have h: "host_files sample_host ''disk.fs'' = Some blank_disk" "host_faults sample_host = []"
    "0 \<le> host_next sample_host"
    by (simp_all add: sample_host_def)
  let ?A = "\<lparr>a_files = [sample_name \<mapsto> \<lparr>a_size = 0, a_data = []\<rparr>], a_descs = Map.empty, a_room = 3\<rparr>"
  from sessions_refine_specification [OF h(1) formatted_blank h(2,3), of "\<lambda>_. 0"] obtain s0 where
    s0: "fs_mount (Some ''disk.fs'') (fs_init (\<lambda>_. 0) sample_host) = Inr (0, s0)" "abs_fs s0 = image_afs blank_disk"
    "\<And>tr s. runs_through code_step s0 tr s \<Longrightarrow> \<exists>s1 c'. fs_umount s = Inr (0, s1) \<and>
      host_files (host (dev s1)) ''disk.fs'' = Some c' \<and> formatted c' \<and> image_afs c' = (abs_fs s)\<lparr>a_descs := Map.empty\<rparr>"
    by blast
  have "in_session ''disk.fs'' s0" by (rule mount_abs [OF h(1) formatted_blank h(2,3), of "\<lambda>_. 0"]) (use s0(1) in simp)
  then have "holds ''disk.fs'' (image_afs blank_disk) s0" by (simp add: holds_def s0(2))
  then have "runs (fs_create (Some sample_name) s0) (\<lambda>(r, s). r = 0 \<and> abs_fs s = ?A)"
    by (rule runs_create) (auto simp: a_create_def image_afs_blank holds_def FS_FILE_MAX_COUNT_def)
  then obtain s where s: "fs_create (Some sample_name) s0 = Inr (0, s)" "abs_fs s = ?A" by (auto simp: runs_iff)
  then have "code_step s0 (Create (Some sample_name)) (0, None) s" by (intro code_step.intros) simp_all
  then have "runs_through code_step s0 [(Create (Some sample_name), (0, None))] s"
    by (blast intro: runs_through.intros)
  from s0(3) [OF this] obtain s1 c' where "fs_umount s = Inr (0, s1)"
    "host_files (host (dev s1)) ''disk.fs'' = Some c'" "image_afs c' = ?A" by (auto simp: s(2))
  with s0(1) s(1) show ?thesis by (intro exI [of _ s0] exI [of _ s] exI [of _ s1] exI [of _ c']) simp
qed

text \<open>
  C3. Every admissible call of the API refines its abstract specification: in a sound state it
  returns the specified value (and, for \<open>fs_read\<close>, the specified contents of the
  buffer), and the abstraction of the state it leaves is the specified state. The only choice left
  to the code is what new blocks of a file held before.
\<close>

theorem calls_refine_specification:
  assumes "sound s" and "admissible c s"
  shows "\<exists>stale r out s'. observe c s = Inr (r, out, s') \<and> a_call stale c (abs_fs s) = (r, out, abs_fs s')"
  by (rule call_refines [OF assms])

lemma calls_refine_specification_witness:
  "\<exists>s'. fs_write 0 (Some [5, 6, 7]) 3 (sample table1 10 1 (Some 4)) = Inr (3, s') \<and>
    a_files (abs_fs s') [97] = Some \<lparr>a_size = 13, a_data = replicate 4 0 @ [5, 6, 7] @ replicate 4089 0\<rparr> \<and>
    a_descs (abs_fs s') 0 = Some ([97], 7) \<and> a_room (abs_fs s') = 2"
proof -
  let ?s = "sample table1 10 1 (Some 4)" and ?c = "Write 0 (Some [5, 6, 7]) 3"
  have "sound ?s" "admissible ?c ?s"
    using table_in_session(2) by (simp_all add: in_session_def fd_arg_def buf_arg_def FS_OPEN_MAX_COUNT_def)
  from calls_refine_specification [OF this] obtain stale r out s' where
    "observe ?c ?s = Inr (r, out, s')" "a_call stale ?c (abs_fs ?s) = (r, out, abs_fs s')" by blast
  then have w: "fs_write 0 (Some [5, 6, 7]) 3 ?s = Inr (r, s')"
    "a_write stale 0 (Some [5, 6, 7]) 3 (abs_fs ?s) = (r, abs_fs s')"
    by (simp_all add: bnd_eq_Inr_iff split: prod.splits)
  have d: "file_data ?s 0 = replicate 4096 0"
    using sample_data [of "[1]" table1 1 10 "Some 4"] table_chains by (simp add: BLOCK_SIZE_def)
  have a: "a_desc (abs_fs ?s) 0 = Some ([97], 4)"
    "a_files (abs_fs ?s) [97] = Some \<lparr>a_size = 10, a_data = replicate 4096 0\<rparr>" "a_room (abs_fs ?s) = 2"
    using abs_desc(1) [of ?s 0 0] d
    by (simp_all add: sample_name_bytes(1) abs_file_def abs_fs_simps(3) table_free fd_pos_def)
  have "overwrite (replicate 4096 0) 4 [5, 6, 7 :: byte] = replicate 4 0 @ [5, 6, 7] @ replicate 4089 0"
    by (simp add: overwrite_def)
  with w(2) have "r = 3 \<and> abs_fs s' = a_move 0 [97] 7 ((abs_fs ?s)\<lparr>a_files := (a_files (abs_fs ?s))([97] \<mapsto>
      \<lparr>a_size = 13, a_data = replicate 4 0 @ [5, 6, 7] @ replicate 4089 0\<rparr>), a_room := 2\<rparr>)"
    by (simp add: a_write_def a Let_def blocks_needed_def BLOCK_SIZE_def)
  with w(1) show ?thesis by (simp add: a_move_def)
qed

text \<open>
  C4. From a consistent disk file, any run of admissible calls during which the host may start to
  fail transfers and allocations at any time returns, call by call, what the specification allows
  or reports the failure with -1: a failed open or read changes nothing, a failed write adds the
  blocks it asked for to its own file and puts a prefix of the buffer in place. Every admissible
  call still returns, and once the host behaves again, \<open>fs_umount\<close> leaves a
  consistent disk file of exactly the abstract state.
\<close>

theorem sessions_survive_host_failures:
  assumes "host_files h path = Some c" and "formatted c" and "host_faults h = []" and "0 \<le> host_next h"
  shows "\<exists>s0. fs_mount (Some path) (fs_init j h) = Inr (0, s0) \<and>
    (\<forall>tr s. runs_through f_code s0 tr s \<longrightarrow>
      runs_through f_step (image_afs c) tr (abs_fs s) \<and>
      (\<forall>k. admissible k s \<longrightarrow> (\<exists>r out s'. observe k s = Inr (r, out, s'))) \<and>
      (host_faults (host (dev s)) = [] \<longrightarrow>
        (\<exists>s1 c'. fs_umount s = Inr (0, s1) \<and> host_files (host (dev s1)) path = Some c' \<and> formatted c' \<and>
          image_afs c' = (abs_fs s)\<lparr>a_descs := Map.empty\<rparr>)))"
proof (rule mount_abs [OF assms, of j])
  fix s0 assume s0: "fs_mount (Some path) (fs_init j h) = Inr (0, s0)" "in_session path s0" "abs_fs s0 = image_afs c"
  have calm: "calm (dev s) \<Longrightarrow> in_failing_session path s = in_session path s" for s
    by (simp add: in_failing_session_def hush_calm)
  have f0: "in_failing_session path s0" using s0(2) by (simp add: calm in_session_def sound_def fs_ok_def)
  have "runs_through f_step (image_afs c) tr (abs_fs s) \<and>
      (\<forall>k. admissible k s \<longrightarrow> (\<exists>r out s'. observe k s = Inr (r, out, s'))) \<and>
      (host_faults (host (dev s)) = [] \<longrightarrow>
        (\<exists>s1 c'. fs_umount s = Inr (0, s1) \<and> host_files (host (dev s1)) path = Some c' \<and> formatted c' \<and>
          image_afs c' = (abs_fs s)\<lparr>a_descs := Map.empty\<rparr>))" if run: "runs_through f_code s0 tr s" for tr s
  proof (intro conjI allI impI)
    show "runs_through f_step (image_afs c) tr (abs_fs s)"
      using unreliable.spec_run [OF run f0] by (simp add: s0(3))
    have f: "in_failing_session path s" by (rule unreliable.good_run [OF run f0])
    then show "\<exists>r out s'. observe k s = Inr (r, out, s')" if "admissible k s" for k
      using call_on_failing_host [of s k] that
      by (auto simp: in_failing_session_def in_session_def fine_on_failing_host_def)
    assume "host_faults (host (dev s)) = []"
    with f calm have "in_session path s" by (simp add: calm_def)
    then show "\<exists>s1 c'. fs_umount s = Inr (0, s1) \<and> host_files (host (dev s1)) path = Some c' \<and> formatted c' \<and>
        image_afs c' = (abs_fs s)\<lparr>a_descs := Map.empty\<rparr>"
      by (rule umount_abs) blast
  qed
  with s0(1) show ?thesis by blast
qed

lemma sessions_survive_host_failures_witness:
  "\<exists>s0. fs_mount (Some ''disk.fs'') (fs_init (\<lambda>_. 0) sample_host) = Inr (0, s0) \<and>
    runs_through f_step (image_afs blank_disk) [(Host [False, True], 0, None)] (abs_fs (failing [False, True] s0)) \<and>
    (\<exists>r out s'. observe (Create (Some [98])) (failing [False, True] s0) = Inr (r, out, s'))"
proof -
  from sessions_survive_host_failures [OF _ formatted_blank, of sample_host "''disk.fs''" "\<lambda>_. 0"]
  obtain s0 where s0: "fs_mount (Some ''disk.fs'') (fs_init (\<lambda>_. 0) sample_host) = Inr (0, s0)"
    "\<And>tr s. runs_through f_code s0 tr s \<Longrightarrow> runs_through f_step (image_afs blank_disk) tr (abs_fs s) \<and>
      (\<forall>k. admissible k s \<longrightarrow> (\<exists>r out s'. observe k s = Inr (r, out, s')))"
    by (auto simp: sample_host_def)
  have "runs_through f_code s0 [(Host [False, True], 0, None)] (failing [False, True] s0)"
    by (rule runs_through.some, rule f_code.host, rule runs_through.none)
  from s0(2) [OF this] s0(1) show ?thesis by (auto simp del: observe.simps)
qed

text \<open>
  C6. A program that mounts a consistent disk file and stops at any point of a run of admissible
  calls, without \<open>fs_umount\<close>, and whatever the host fails meanwhile, leaves a
  consistent disk file with the names, the sizes, the lengths of the contents and the free blocks
  it had before: between mounting and unmounting the calls write data blocks only.
\<close>

theorem stopped_session_is_consistent:
  assumes "host_files h path = Some c" and "formatted c" and "host_faults h = []" and "0 \<le> host_next h"
    and "fs_mount (Some path) (fs_init j h) = Inr (0, s0)" and "runs_through f_code s0 tr s"
  shows "\<exists>c'. host_files (host (dev s)) path = Some c' \<and> formatted c' \<and>
    (\<forall>n. map_option a_size (a_files (image_afs c') n) = map_option a_size (a_files (image_afs c) n) \<and>
      map_option (\<lambda>f. length (a_data f)) (a_files (image_afs c') n) =
      map_option (\<lambda>f. length (a_data f)) (a_files (image_afs c) n)) \<and>
    a_room (image_afs c') = a_room (image_afs c)"
proof (rule fs_init_mount [OF assms(1-4), of j])
  fix s1 assume s1: "fs_mount (Some path) (fs_init j h) = Inr (0, s1)" "in_session path s1" "disk_image (dev s1) = c"
  with assms(5) have e: "s1 = s0" by simp
  have "calm (dev s0)" using s1(2) e by (simp add: in_session_def mounted_on_def)
  then have "in_failing_session path s0" using s1(2) e by (simp add: in_failing_session_def hush_calm)
  note st = stopped_session [OF assms(6) this]
  then have "same_metadata c (disk_image (dev s))" using s1(3) e by simp
  with st(2) assms(2) show ?thesis using same_metadata_formatted same_metadata_afs by blast
qed

lemma stopped_session_is_consistent_witness:
  "\<exists>s0 r s c'. fs_mount (Some ''disk.fs'') (fs_init (\<lambda>_. 0) sample_host) = Inr (0, s0) \<and>
    observe (Create (Some [98])) s0 = Inr (r, None, s) \<and>
    host_files (host (dev s)) ''disk.fs'' = Some c' \<and> formatted c' \<and> a_room (image_afs c') = a_room (image_afs blank_disk)"
proof -
  obtain s0 where s0: "fs_mount (Some ''disk.fs'') (fs_init (\<lambda>_. 0) sample_host) = Inr (0, s0)" "in_session ''disk.fs'' s0"
    by (rule mount_abs [OF _ formatted_blank, of sample_host "''disk.fs''" "\<lambda>_. 0"]) (auto simp: sample_host_def)
  then have "sound s0" by (simp add: in_session_def)
  from call_refines [OF this, of "Create (Some [98])"] obtain stale r out s where
    c: "observe (Create (Some [98])) s0 = Inr (r, out, s)" "out = None"
    by (auto split: prod.splits)
  have "runs_through f_code s0 [(Call (Create (Some [98])), (r, out))] s"
    by (rule runs_through.some, rule f_code.call, rule code_step.code, simp, rule c(1), rule runs_through.none)
  from stopped_session_is_consistent [OF _ formatted_blank _ _ s0(1) this] c s0(1) show ?thesis
    by (auto simp: sample_host_def simp del: observe.simps)
qed

text \<open>
  C14. Deleting one file of two blocks or more destroys the whole disk: \<open>fs_delete\<close>
  and the following \<open>fs_umount\<close> both return 0, but no program can mount the disk
  again, because entry 0 of the table on the disk is no longer \<open>FAT_EOC\<close>.
\<close>

theorem long_delete_destroys_disk:
  assumes "in_session path s" and "valid_name n" and "catalog s (c_text n) = Some i" and "\<not> is_open s i"
    and "2 \<le> length (slot_chain s i)"
  shows "\<exists>s1 s2. fs_delete (Some n) s = Inr (0, s1) \<and> fs_umount s1 = Inr (0, s2) \<and>
    (\<forall>j. \<exists>s3. fs_mount (Some path) (fs_init j (host (dev s2))) = Inr (-1, s3))"
proof -
  obtain x y ys where "slot_chain s i = x # y # ys"
    using assms(5) by (cases "slot_chain s i" rule: remdups_adj.cases) auto
  then show ?thesis by (rule long_delete_unmountable [OF assms(1-4)]) blast
qed

lemma long_delete_destroys_disk_witness:
  "\<exists>s1 s2 s3. fs_delete (Some sample_name) (sample table2 8192 1 None) = Inr (0, s1) \<and>
    fs_umount s1 = Inr (0, s2) \<and> fs_mount (Some ''disk.fs'') (fs_init (\<lambda>_. 0) (host (dev s2))) = Inr (-1, s3)"
proof -
  from long_delete_destroys_disk [OF table_in_session(3) [of 8192 None], of sample_name 0] obtain s1 s2 where
    "fs_delete (Some sample_name) (sample table2 8192 1 None) = Inr (0, s1)" "fs_umount s1 = Inr (0, s2)"
    "\<forall>j. \<exists>s3. fs_mount (Some ''disk.fs'') (fs_init j (host (dev s2))) = Inr (-1, s3)" by auto
  then show ?thesis by blast
qed

text \<open>
  C33. \<open>fs_umount\<close> with all 32 descriptors open succeeds, and \<open>fs_mount\<close>
  empties the table but keeps the count: after the next mount one file can be opened, and then
  every further \<open>fs_open\<close> fails although 31 descriptors are free.
\<close>

theorem stale_open_count_blocks_open:
  assumes "in_session path s" and "used_fds s = FS_OPEN_MAX_COUNT"
    and "valid_name n" and "catalog s (c_text n) = Some i"
  shows "\<exists>s1 s2 s3. fs_umount s = Inr (0, s1) \<and> fs_mount (Some path) s1 = Inr (0, s2) \<and> all_closed s2 \<and>
    fs_open (Some n) s2 = Inr (0, s3) \<and> used_fds s3 = 1 \<and> (\<forall>name. fs_open name s3 = Inr (-1, s3))"
proof (rule session_remount [OF assms(1)])
  fix s1 s2
  assume r: "fs_umount s = Inr (0, s1)" "fs_mount (Some path) s1 = Inr (0, s2)" "mounted_on path s2"
    "catalog s2 = catalog s" "all_closed s2"
  from assms(1) have s: "mounted_on path s" "count_ok s"
    using fs_okD(6) by (simp_all add: in_session_def sound_def)
  have "num_open_files s2 = num_open_files s"
    by (rule umount_mount [OF s(1)]) (use r(1,2) in simp)
  then have n: "unat (num_open_files s2) = FS_OPEN_MAX_COUNT"
    using s(2) assms(2) by (simp add: count_ok_def)
  from r(3) have m: "is_disk_mounted s2" "files_ok s2" "calm (dev s2)" by (simp_all add: mounted_on_def)
  have so: "slots_ok s2" using r(5) by (simp add: slots_ok_def all_closed_def)
  have f: "free_fd s2 = Some 0"
    using r(5) by (simp add: free_fd_def find_upt_Some_iff all_closed_def FS_OPEN_MAX_COUNT_def)
  let ?s3 = "opened 0 i s2"
  have "fs_open (Some n) s2 = Inr (0, ?s3)"
    using assms(3,4) r(4) f by (simp add: fs_open_eq [OF m(1,2) so m(3)] n)
  moreover have "open_files s2 = None # replicate 31 None"
    using r(5) by (simp add: all_closed_def FS_OPEN_MAX_COUNT_def flip: replicate_Suc)
  then have "used_fds ?s3 = 1" by (simp add: used_fds_def opened_def)
  moreover have "unat (num_open_files ?s3) = Suc FS_OPEN_MAX_COUNT"
    using n by (simp add: opened_def unat_word_ariths FS_OPEN_MAX_COUNT_def)
  then have "fs_open name ?s3 = Inr (-1, ?s3)" for name
    using m(1,2) by (intro fs_open_count_exceeded) (simp_all add: opened_def files_ok_def)
  ultimately show ?thesis using r(1,2,5) by blast
qed

lemma stale_open_count_blocks_open_witness:
  "\<exists>s1 s2 s3. fs_umount crowded = Inr (0, s1) \<and> fs_mount (Some ''disk.fs'') s1 = Inr (0, s2) \<and>
    fs_open (Some sample_name) s2 = Inr (0, s3) \<and> fs_open (Some sample_name) s3 = Inr (-1, s3)"
proof -
  from stale_open_count_blocks_open [OF crowded_in_session _ sample_name_not_Nil(3), of 0] obtain s1 s2 s3
    where "fs_umount crowded = Inr (0, s1)" "fs_mount (Some ''disk.fs'') s1 = Inr (0, s2)"
      "fs_open (Some sample_name) s2 = Inr (0, s3)" "\<forall>name. fs_open name s3 = Inr (-1, s3)" by auto
  then show ?thesis by (intro exI [of _ s1] exI [of _ s2] exI [of _ s3]) simp
qed

text \<open>
  C37. \<open>fs_umount\<close> returns 0 even if the host refuses its writes: after
  \<open>fs_mount\<close> of a consistent disk file and any run of admissible calls, with both of
  its writes refused the disk file is consistent with the superblock, the table and the 128
  directory entries it had before \<open>fs_mount\<close>, so that what the session did to table
  and directory is lost; with only the first one refused it has the directory of the session
  beside the superblock and the table from before \<open>fs_mount\<close>.
\<close>

theorem umount_hides_failures:
  assumes "host_files h path = Some c" and "formatted c" and "host_faults h = []" and "0 \<le> host_next h"
    and "fs_mount (Some path) (fs_init j h) = Inr (0, s0)" and "runs_through f_code s0 tr s"
    and "host_faults (host (dev s)) = []"
  shows "(\<exists>s1 c1. fs_umount (failing [True, True] s) = Inr (0, s1) \<and> \<not> is_disk_mounted s1 \<and>
      host_files (host (dev s1)) path = Some c1 \<and> formatted c1 \<and> image_sb c1 = image_sb c \<and>
      image_fat c1 = image_fat c \<and> (\<forall>i < FS_FILE_MAX_COUNT. image_file c1 i = image_file c i)) \<and>
    (\<exists>s1 c1. fs_umount (failing [True] s) = Inr (0, s1) \<and> host_files (host (dev s1)) path = Some c1 \<and>
      image_sb c1 = image_sb c \<and> image_fat c1 = image_fat c \<and>
      (\<forall>i < FS_FILE_MAX_COUNT. image_file c1 i = slot_file s i))"
proof (rule fs_init_mount [OF assms(1-4), of j])
  fix s1 assume s1: "fs_mount (Some path) (fs_init j h) = Inr (0, s1)" "in_session path s1" "disk_image (dev s1) = c"
  with assms(5) have e: "s1 = s0" by simp
  have "calm (dev s0)" using s1(2) e by (simp add: in_session_def mounted_on_def)
  then have f: "in_failing_session path s0" using s1(2) e by (simp add: in_failing_session_def hush_calm)
  have calm: "calm (dev s)" using assms(7) by (simp add: calm_def)
  have "formatted c1 \<and> image_sb c1 = image_sb c \<and> image_fat c1 = image_fat c \<and> image_file c1 = image_file c"
    if "same_metadata c c1" for c1
    using same_metadata_formatted [OF that] same_metadata_images [OF that] assms(2) by simp
  moreover note u = umount_refused [OF assms(6) f calm, unfolded s1(3) [unfolded e]]
  ultimately show ?thesis using u(1) by (intro conjI [OF _ u(2)]) metis
qed

lemma umount_hides_failures_witness:
  "\<exists>s0 r s s1 c1. fs_mount (Some ''disk.fs'') (fs_init (\<lambda>_. 0) sample_host) = Inr (0, s0) \<and>
    observe (Create (Some [98])) s0 = Inr (r, None, s) \<and> fs_umount (failing [True, True] s) = Inr (0, s1) \<and>
    host_files (host (dev s1)) ''disk.fs'' = Some c1 \<and> image_file c1 0 = blank_entry"
proof -
  obtain s0 where s0: "fs_mount (Some ''disk.fs'') (fs_init (\<lambda>_. 0) sample_host) = Inr (0, s0)" "in_session ''disk.fs'' s0"
    by (rule mount_abs [OF _ formatted_blank, of sample_host "''disk.fs''" "\<lambda>_. 0"]) (auto simp: sample_host_def)
  obtain r out s where c: "observe (Create (Some [98])) s0 = Inr (r, out, s)" "in_session ''disk.fs'' s"
    by (rule session_run_call [OF s0(2), of "Create (Some [98])"]) auto
  then have o: "out = None" by (auto simp: bnd_eq_Inr_iff)
  have "runs_through f_code s0 [(Call (Create (Some [98])), (r, out))] s"
    by (rule runs_through.some, rule f_code.call, rule code_step.code, simp, rule c(1), rule runs_through.none)
  moreover have "host_faults (host (dev s)) = []" using c(2) by (simp add: in_session_def mounted_on_def calm_def)
  ultimately show ?thesis
    using umount_hides_failures [OF _ formatted_blank _ _ s0(1), of _ s] c(1) o s0(1) image_blank
    by (fastforce simp: sample_host_def simp del: observe.simps)
qed

text \<open>
  C38. If the host fails the ninth call of \<open>fs_mount\<close>, the read of the directory,
  \<open>fs_mount\<close> returns 0 with the superblock taken for the directory: the next
  \<open>fs_umount\<close> overwrites the directory on the disk with it, and all that is left is
  one entry whose name begins with the signature of the disk.
\<close>

theorem mount_hides_failed_directory_read:
  assumes "host_files h path = Some c" and "formatted c" and "host_faults h = replicate 8 False @ [True]"
    and "0 \<le> host_next h"
  shows "\<exists>s0 s1 c'. fs_mount (Some path) (fs_init j h) = Inr (0, s0) \<and> fs_umount s0 = Inr (0, s1) \<and>
    host_files (host (dev s1)) path = Some c' \<and> (\<forall>i. image_used c' i \<longrightarrow> i = 0) \<and>
    filename (image_file c' 0) = take FS_FILENAME_LEN (content_block c 0)"
proof -
  from assms(2) have m: "mountable c" "root_index (image_sb c) = 2" by (simp_all add: formatted_def)
  note mb = mountable_blocks [OF m(1)]
  from m(1) have sb: "super_block_ok (image_sb c) (int (length c div BLOCK_SIZE))" "num_fat_blocks (image_sb c) = 1"
    by (simp_all add: mountable_def Let_def image_sb_def)
  let ?t = "fs_init j (h\<lparr>host_faults := []\<rparr>)"
  have t: "failing (replicate 8 False @ [True]) ?t = fs_init j h"
    using assms(3) by (simp add: failing_def on_schedule_def fs_init_def)
  show ?thesis
  proof (rule mount_on_failing_host [of ?t path c])
    fix s0 assume s0: "fs_mount (Some path) (failing (replicate 8 False @ [True]) ?t) = Inr (0, s0)"
      "is_disk_mounted s0" "fat_ok s0" "the_sb s0 = parse_super_block (content_block c 0)" "files_ok s0"
      "\<And>i. i < FS_FILE_MAX_COUNT \<Longrightarrow> slot_file s0 i = dir_entry (content_block c 0) i"
      "holds_disk path c (dev s0)"
    from s0(7) have hd: "disk_ok (dev s0)" "calm (dev s0)" "blocks (dev s0) = length c div BLOCK_SIZE"
      "host_fds (host (dev s0)) (disk_fd (disk (dev s0))) = Some path" by (simp_all add: holds_disk_def)
    from s0(4) have b: "the_sb s0 = image_sb c" by (simp add: image_sb_def)
    obtain s1 where s1: "fs_umount s0 = Inr (0, s1)" "host_files (host (dev s1)) = host_files (host (umount_dev s0))"
      by (rule fs_umount_ok [OF s0(2,3,5) hd(1,2)]) (use m(2) sb(2) mb(2) hd(3) b in simp_all)
    have bl: "2 < blocks (dev s0)" using mb(2) hd(3) by simp
    note u = umount_dev_written [OF hd(1) bl s0(5) _ _ hd(4), unfolded b, OF sb(2) m(2)]
    let ?c' = "disk_image (umount_dev s0)"
    have f: "image_file ?c' i = dir_entry (content_block c 0) i" if "i < FS_FILE_MAX_COUNT" for i
      using u(4) dir_image_entry [OF s0(5) that] s0(6) [OF that] by (simp add: image_file_def block_at_content)
    have l: "length (content_block c 0) = BLOCK_SIZE" using mult_le_mono2 [of 1 "length c div BLOCK_SIZE" BLOCK_SIZE] mb(2,3) by (simp add: content_block_def)
    note d = superblock_as_directory [OF sb(1) [unfolded image_sb_def] l]
    have "i = 0" if "image_used ?c' i" for i
      using that d(2) [of i] f [of i] by (auto simp: image_used_def)
    moreover have "filename (image_file ?c' 0) = take FS_FILENAME_LEN (content_block c 0)"
      using f [of 0] d(3) by (simp add: FS_FILE_MAX_COUNT_def)
    ultimately show ?thesis using s0(1) t s1 u(6) by auto
  qed (use assms m(1) in \<open>simp_all add: fs_init_def disk_init_def calm_def\<close>)
qed

lemma mount_hides_failed_directory_read_witness:
  "\<exists>s0 s1 c'. fs_mount (Some ''disk.fs'')
      (fs_init (\<lambda>_. 0) (sample_host\<lparr>host_faults := replicate 8 False @ [True]\<rparr>)) = Inr (0, s0) \<and>
    fs_umount s0 = Inr (0, s1) \<and> host_files (host (dev s1)) ''disk.fs'' = Some c' \<and>
    filename (image_file c' 0) = [69, 67, 83, 49, 53, 48, 70, 83, 7, 0, 2, 0, 3, 0, 4, 0]"
proof -
  have "take FS_FILENAME_LEN (content_block blank_disk 0) = [69, 67, 83, 49, 53, 48, 70, 83, 7, 0, 2, 0, 3, 0, 4, 0]"
    by (simp add: blank_blocks blank_super_def FS_FILENAME_LEN_def)
  with mount_hides_failed_directory_read [OF _ formatted_blank,
      of "sample_host\<lparr>host_faults := replicate 8 False @ [True]\<rparr>" "''disk.fs''" "\<lambda>_. 0"]
  show ?thesis by (auto simp: sample_host_def)
qed

section \<open>Client programs\<close>

text \<open>
  C5. \<open>test_fs script\<close>, run on a consistent disk with a script whose first line is
  \<open>MOUNT\<close> and whose other lines are covered by the specification, ends with an exit
  status and a state the specification of the lines allows: it runs each line as the call of the
  abstract file system it names (\<open>WRITE FILE\<close> with the contents of that file of the
  host), goes on after a call that succeeds, and after one that fails, or a line without a valid
  source, unmounts and exits with status 1. In every case the process ends without a fault and
  leaves a consistent disk file of the specified state.
\<close>

theorem scripts_refine_specification:
  assumes "host_files h path = Some c" and "formatted c" and "host_faults h = []" and "0 \<le> host_next h"
    and "host_files h script = Some (script_text ([literal ''MOUNT''] # cmds))"
    and "\<forall>parts \<in> set cmds. good_line parts" and "covered path (host_files h) cmds mounted_vars (image_afs c)"
  shows "\<exists>status A s c'. test_fs [prog, ''script'', path, script] (fs_init j h) = Inr (status, s) \<and>
    script_outcome path (host_files h) cmds mounted_vars (image_afs c) status A \<and>
    host_files (host (dev s)) path = Some c' \<and> formatted c' \<and> image_afs c' = A"
  by (rule script_ok [OF assms, of j]) (auto simp: test_fs_def commands_def left_on_def)

lemma scripts_refine_specification_witness:
  "\<exists>s c'. test_fs [''test_fs'', ''script'', ''disk.fs'', ''b'']
      (fs_init (\<lambda>_. 0) (other_host (script_text ([literal ''MOUNT''] # store_script [98] [literal ''WRITE'', literal ''DATA'', [104, 105]])))) = Inr (0, s) \<and>
    host_files (host (dev s)) ''disk.fs'' = Some c' \<and> formatted c' \<and> a_files (image_afs c') [98] \<noteq> None"
proof -
  let ?cmds = "store_script [98] [literal ''WRITE'', literal ''DATA'', [104, 105]]"
  let ?h = "other_host (script_text ([literal ''MOUNT''] # ?cmds))"
  have "room_for (literal ''b'') (length [104, 105 :: byte]) (image_afs blank_disk)"
    by (rule room_on_blank) (simp_all add: BLOCK_SIZE_def)
  then have room: "room_for [98] (length [104, 105 :: byte]) (image_afs blank_disk)" by simp
  have l: "line_data ''disk.fs'' (host_files ?h) [literal ''WRITE'', literal ''DATA'', [104, 105]] = Some [104, 105]"
    by (simp add: line_data_def)
  note ends = store_script_ends [OF room l]
  then have e: "covered ''disk.fs'' (host_files ?h) ?cmds mounted_vars (image_afs blank_disk)"
    "\<And>status A. script_outcome ''disk.fs'' (host_files ?h) ?cmds mounted_vars (image_afs blank_disk) status A \<Longrightarrow>
      status = 0 \<and> (\<exists>rest. A = with_file [98] [104, 105] rest (image_afs blank_disk))"
    by (auto simp: script_ends_def)
  have g: "\<forall>parts \<in> set ?cmds. good_line parts"
    by (simp add: store_script_def good_line_def clean_part_def line_of_def)
  from scripts_refine_specification [OF _ formatted_blank _ _ _ g e(1), where script = "''b''" and prog = "''test_fs''" and j = "\<lambda>_. 0"]
  obtain status A s c' where r: "test_fs [''test_fs'', ''script'', ''disk.fs'', ''b''] (fs_init (\<lambda>_. 0) ?h) = Inr (status, s)"
    "script_outcome ''disk.fs'' (host_files ?h) ?cmds mounted_vars (image_afs blank_disk) status A"
    "host_files (host (dev s)) ''disk.fs'' = Some c'" "formatted c'" "image_afs c' = A"
    by auto
  with e(2) [OF r(2)] show ?thesis by (auto simp: with_file_def c_text_def)
qed

text \<open>
  C10. The command \<open>test_fs add\<close> copies a file of the host, of any contents that fit,
  to a consistent disk, and \<open>test_fs cat\<close>, run later as another process, prints its
  size and exactly its bytes; both exit with status 0.
\<close>

theorem add_then_cat:
  assumes "host_files h path = Some c" and "formatted c" and "host_faults h = []" and "0 \<le> host_next h"
    and "host_files h name = Some d" and "room_for (literal name) (length d) (image_afs c)"
  shows "\<exists>s1. thread_fs_add [path, name] (fs_init j h) = Inr (0, s1) \<and>
    (\<forall>j'. \<exists>s2 out. thread_fs_cat [path, name] (fs_init j' (host (dev s1))) = Inr (0, s2) \<and> stdout s2 = out @
      [(''Read file '' @ quoted_s @ '' (%d/%d bytes)'' @ newline,
          [Str (literal name), Dec (int (length d)), Dec (int (length d))]),
       (''Content of the file:'' @ newline, []), (''%s'', [Str d])])"
proof (rule add_ok [OF assms, of j])
  fix s c' rest
  assume a: "thread_fs_add [path, name] (fs_init j h) = Inr (0, s)" "host_files (host (dev s)) path = Some c'"
    "formatted c'" "host_faults (host (dev s)) = []" "0 \<le> host_next (host (dev s))"
    "image_afs c' = with_file (literal name) d rest (image_afs c)"
  have f: "a_files (image_afs c') (c_text (literal name)) = Some \<lparr>a_size = of_nat (length d), a_data = d @ rest\<rparr>"
    by (simp add: a(6) with_file_def)
  from assms(6) have d: "valid_name (literal name)" "0 < length d" "length d < 2147418112"
    by (simp_all add: room_for_def)
  show ?thesis
    using a(1) cat_ok [OF a(2-5) d(1) f _ d(2,3)] by simp
qed

lemma add_then_cat_witness:
  "\<exists>s1 s2 out. thread_fs_add [''disk.fs'', ''b''] (fs_init (\<lambda>_. 0) (other_host [1, 2, 3])) = Inr (0, s1) \<and>
    thread_fs_cat [''disk.fs'', ''b''] (fs_init (\<lambda>_. 5) (host (dev s1))) = Inr (0, s2) \<and>
    last (stdout s2) = (''%s'', [Str [1, 2, 3]])"
proof -
  have "room_for (literal ''b'') (length [1, 2, 3 :: byte]) (image_afs blank_disk)"
    by (rule room_on_blank) (simp_all add: BLOCK_SIZE_def)
  from add_then_cat [OF _ formatted_blank _ _ _ this, of "other_host [1, 2, 3]" "''disk.fs''" "\<lambda>_. 0"]
  obtain s1 where s1: "thread_fs_add [''disk.fs'', ''b''] (fs_init (\<lambda>_. 0) (other_host [1, 2, 3])) = Inr (0, s1)"
    "\<And>j'. \<exists>s2 out. thread_fs_cat [''disk.fs'', ''b''] (fs_init j' (host (dev s1))) = Inr (0, s2) \<and> stdout s2 = out @
      [(''Read file '' @ quoted_s @ '' (%d/%d bytes)'' @ newline, [Str (literal ''b''), Dec (int (length [1, 2, 3 :: byte])),
          Dec (int (length [1, 2, 3 :: byte]))]), (''Content of the file:'' @ newline, []), (''%s'', [Str [1, 2, 3]])]"
    by auto
  from s1(2) [of "\<lambda>_. 5"] s1(1) show ?thesis by auto
qed

text \<open>
  C11. A script that mounts a consistent disk, creates a file, opens it, writes to it a text of
  the script or a file of the host, of any contents that fit, and closes it, run by \<open>test_fs
  script\<close>, exits with status 0, and \<open>test_fs cat\<close>, run later as another
  process, prints the size of the file and exactly what was written.
\<close>

theorem script_then_cat:
  assumes "host_files h path = Some c" and "formatted c" and "host_faults h = []" and "0 \<le> host_next h"
    and "host_files h script = Some (script_text ([literal ''MOUNT''] # store_script (literal name) w))"
    and "room_for (literal name) (length d) (image_afs c)" and "clean_part (literal name)" and "good_line w"
    and "line_data path (host_files h) w = Some d"
  shows "\<exists>s1. test_fs [prog, ''script'', path, script] (fs_init j h) = Inr (0, s1) \<and>
    (\<forall>j'. \<exists>s2 out. test_fs [prog, ''cat'', path, name] (fs_init j' (host (dev s1))) = Inr (0, s2) \<and> stdout s2 = out @
      [(''Read file '' @ quoted_s @ '' (%d/%d bytes)'' @ newline,
          [Str (literal name), Dec (int (length d)), Dec (int (length d))]),
       (''Content of the file:'' @ newline, []), (''%s'', [Str d])])"
proof -
  let ?cmds = "store_script (literal name) w"
  from assms(6) have n: "valid_name (literal name)" "0 < length d" "length d < 2147418112" by (simp_all add: room_for_def)
  have "c_text (literal name) = literal name"
    using assms(7) unfolding c_text_def clean_part_def by (subst takeWhile_eq_all_conv) auto
  with n(1) have "length (literal name) < 16" by (simp add: valid_name_iff FS_FILENAME_LEN_def)
  then have g: "\<forall>parts \<in> set ?cmds. good_line parts"
    using assms(7,8) by (simp add: store_script_def good_line_def clean_part_def line_of_def)
  from store_script_ends [OF assms(6,9)] have e: "covered path (host_files h) ?cmds mounted_vars (image_afs c)"
    "\<And>status A. script_outcome path (host_files h) ?cmds mounted_vars (image_afs c) status A \<Longrightarrow>
      status = 0 \<and> (\<exists>rest. A = with_file (literal name) d rest (image_afs c))"
    by (auto simp: script_ends_def)
  show ?thesis
  proof (rule script_ok [OF assms(1-5) g e(1), of j])
    fix status A s
    assume r: "thread_fs_script [path, script] (fs_init j h) = Inr (status, s)"
      "script_outcome path (host_files h) ?cmds mounted_vars (image_afs c) status A" "left_on path A s"
    obtain rest c' where c': "status = 0" "host_files (host (dev s)) path = Some c'" "formatted c'"
      "host_faults (host (dev s)) = []" "0 \<le> host_next (host (dev s))"
      "image_afs c' = with_file (literal name) d rest (image_afs c)"
      using e(2) [OF r(2)] r(3) by (auto simp: left_on_def calm_def)
    have f: "a_files (image_afs c') (c_text (literal name)) = Some \<lparr>a_size = of_nat (length d), a_data = d @ rest\<rparr>"
      by (simp add: c'(6) with_file_def)
    show ?thesis
      using r(1) c'(1) cat_ok [OF c'(2-5) n(1) f _ n(2,3)] by (simp add: test_fs_def commands_def)
  qed
qed

lemma script_then_cat_witness:
  "let w = [literal ''WRITE'', literal ''FILE'', literal ''c''];
       h = sample_host\<lparr>host_files := [''disk.fs'' \<mapsto> blank_disk, ''c'' \<mapsto> [104, 0, 105],
         ''b'' \<mapsto> script_text ([literal ''MOUNT''] # store_script (literal ''a'') w)]\<rparr>
   in \<exists>s1 s2. test_fs [''test_fs'', ''script'', ''disk.fs'', ''b''] (fs_init (\<lambda>_. 0) h) = Inr (0, s1) \<and>
    test_fs [''test_fs'', ''cat'', ''disk.fs'', ''a''] (fs_init (\<lambda>_. 5) (host (dev s1))) = Inr (0, s2) \<and>
    last (stdout s2) = (''%s'', [Str [104, 0, 105]])"
proof -
  let ?w = "[literal ''WRITE'', literal ''FILE'', literal ''c'']"
  let ?h = "sample_host\<lparr>host_files := [''disk.fs'' \<mapsto> blank_disk, ''c'' \<mapsto> [104, 0, 105],
    ''b'' \<mapsto> script_text ([literal ''MOUNT''] # store_script (literal ''a'') ?w)]\<rparr>"
  have "room_for (literal ''a'') (length [104, 0, 105 :: byte]) (image_afs blank_disk)"
    by (rule room_on_blank) (simp_all add: BLOCK_SIZE_def valid_name_iff literal_def c_text_def FS_FILENAME_LEN_def)
  moreover have "clean_part (literal ''a'')" by (simp add: clean_part_def literal_def)
  moreover have "good_line ?w" by (simp add: good_line_def clean_part_def line_of_def literal_def)
  moreover have "path_of (literal ''c'') = ''c''" by (rule path_of_literal)
  then have "line_data ''disk.fs'' (host_files ?h) ?w = Some [104, 0, 105]" by (simp add: line_data_def)
  ultimately obtain s1 where s1: "test_fs [''test_fs'', ''script'', ''disk.fs'', ''b''] (fs_init (\<lambda>_. 0) ?h) = Inr (0, s1)"
    "\<And>j'. \<exists>s2 out. test_fs [''test_fs'', ''cat'', ''disk.fs'', ''a''] (fs_init j' (host (dev s1))) = Inr (0, s2) \<and>
      stdout s2 = out @ [(''Read file '' @ quoted_s @ '' (%d/%d bytes)'' @ newline,
        [Str (literal ''a''), Dec (int (length [104, 0, 105 :: byte])), Dec (int (length [104, 0, 105 :: byte]))]),
       (''Content of the file:'' @ newline, []), (''%s'', [Str [104, 0, 105]])]"
    using script_then_cat [OF _ formatted_blank, of ?h "''disk.fs''" "''b''" "''a''" ?w "[104, 0, 105]" "''test_fs''" "\<lambda>_. 0"]
    by (auto simp: sample_host_def)
  from s1(2) [of "\<lambda>_. 5"] s1(1) show ?thesis unfolding Let_def by auto
qed

text \<open>
  C17. The two example programs agree: on a consistent disk without a file \<open>myfile\<close>,
  with a free directory entry and a free block, \<open>simple_writer\<close> exits with status 0,
  and \<open>simple_reader\<close>, started as a new process on what the first one left on the
  disk, also exits with status 0, that is, it reads back ten of the bytes written.
\<close>

theorem writer_then_reader:
  assumes "host_files h path = Some c" and "formatted c" and "host_faults h = []" and "0 \<le> host_next h"
    and "room_for (literal ''myfile'') 26 (image_afs c)"
  shows "\<exists>s. simple_writer [prog, path] (fs_init j h) = Inr (0, s) \<and>
    (\<forall>j'. \<exists>s'. simple_reader [prog', path] (fs_init j' (host (dev s))) = Inr (0, s'))"
proof (rule simple_writer_ok [OF assms, of prog j])
  let ?n = "literal ''myfile''"
  fix s c' rest
  assume w: "simple_writer [prog, path] (fs_init j h) = Inr (0, s)"
    "host_files (host (dev s)) path = Some c'" "formatted c'" "host_faults (host (dev s)) = []"
    "0 \<le> host_next (host (dev s))" "image_afs c' = with_file ?n alphabet rest (image_afs c)"
  have "c_text ?n = ?n" "length alphabet = 26" by simp_all
  then have f: "a_files (image_afs c') ?n = Some \<lparr>a_size = 26, a_data = alphabet @ rest\<rparr>"
    unfolding w(6) with_file_def by simp
  have "\<exists>s'. simple_reader [prog', path] (fs_init j' (host (dev s))) = Inr (0, s')" for j'
    by (rule simple_reader_ok [OF w(2-5) f]) simp_all
  with w(1) show ?thesis by blast
qed

lemma writer_then_reader_witness:
  "\<exists>s s'. simple_writer [''simple_writer'', ''disk.fs''] (fs_init (\<lambda>_. 0) sample_host) = Inr (0, s) \<and>
    simple_reader [''simple_reader'', ''disk.fs''] (fs_init (\<lambda>_. 1) (host (dev s))) = Inr (0, s')"
proof -
  have "room_for (literal ''myfile'') 26 (image_afs blank_disk)"
    by (simp add: room_for_def image_afs_blank blocks_needed_def BLOCK_SIZE_def FS_FILE_MAX_COUNT_def)
  from writer_then_reader [OF _ formatted_blank _ _ this, of sample_host "''disk.fs''"] show ?thesis
    by (simp add: sample_host_def) blast
qed

text \<open>
  C18. \<open>test_fs rm\<close> of a file of at most one block undoes \<open>test_fs add\<close>:
  afterwards the disk holds the same files with the same contents, and as many free blocks, as
  before.
\<close>

theorem add_then_rm:
  assumes "host_files h path = Some c" and "formatted c" and "host_faults h = []" and "0 \<le> host_next h"
    and "host_files h name = Some d" and "room_for (literal name) (length d) (image_afs c)"
    and "length d \<le> BLOCK_SIZE"
  shows "\<exists>s1. thread_fs_add [path, name] (fs_init j h) = Inr (0, s1) \<and>
    (\<forall>j'. \<exists>s2 c'. thread_fs_rm [path, name] (fs_init j' (host (dev s1))) = Inr (0, s2) \<and>
      host_files (host (dev s2)) path = Some c' \<and> formatted c' \<and> image_afs c' = image_afs c)"
proof (rule add_ok [OF assms(1-6), of j])
  let ?n = "literal name"
  fix s c' rest
  assume a: "thread_fs_add [path, name] (fs_init j h) = Inr (0, s)" "host_files (host (dev s)) path = Some c'"
    "formatted c'" "host_faults (host (dev s)) = []" "0 \<le> host_next (host (dev s))"
    "image_afs c' = with_file ?n d rest (image_afs c)"
    "length (d @ rest) = BLOCK_SIZE * blocks_needed (length d)"
  from assms(6) have d: "valid_name ?n" "a_files (image_afs c) (c_text ?n) = None"
    "blocks_needed (length d) \<le> a_room (image_afs c)"
    by (simp_all add: room_for_def)
  have f: "a_files (image_afs c') (c_text ?n) = Some \<lparr>a_size = of_nat (length d), a_data = d @ rest\<rparr>"
    by (simp add: a(6) with_file_def)
  have "blocks_needed (length d) \<le> 1" using assms(7) by (simp add: blocks_needed_le_iff)
  then have "length (d @ rest) \<le> BLOCK_SIZE" unfolding a(7) by (cases "blocks_needed (length d)") auto
  then have l: "length (a_data \<lparr>a_size = of_nat (length d), a_data = d @ rest\<rparr>) \<le> BLOCK_SIZE" by simp
  have "\<exists>s2 c''. thread_fs_rm [path, name] (fs_init j' (host (dev s))) = Inr (0, s2) \<and>
      host_files (host (dev s2)) path = Some c'' \<and> formatted c'' \<and> image_afs c'' = image_afs c" for j'
  proof (rule rm_ok [OF a(2-5) d(1) f l, of j'])
    fix s2 c''
    assume r: "thread_fs_rm [path, name] (fs_init j' (host (dev s))) = Inr (0, s2)"
      "host_files (host (dev s2)) path = Some c''" "formatted c''"
      "image_afs c'' = (image_afs c')\<lparr>a_files := (a_files (image_afs c'))(c_text ?n := None),
        a_room := a_room (image_afs c') + length (a_data \<lparr>a_size = of_nat (length d), a_data = d @ rest\<rparr>) div BLOCK_SIZE\<rparr>"
    have "image_afs c'' = image_afs c"
      unfolding r(4) a(6) using a(7) d(2,3) by (simp add: with_file_def fun_upd_idem)
    with r show ?thesis by blast
  qed
  with a(1) show ?thesis by blast
qed

lemma add_then_rm_witness:
  "\<exists>s1 s2 c. thread_fs_add [''disk.fs'', ''b''] (fs_init (\<lambda>_. 0) (other_host [1, 2, 3])) = Inr (0, s1) \<and>
    thread_fs_rm [''disk.fs'', ''b''] (fs_init (\<lambda>_. 5) (host (dev s1))) = Inr (0, s2) \<and>
    host_files (host (dev s2)) ''disk.fs'' = Some c \<and> a_files (image_afs c) = Map.empty \<and> a_room (image_afs c) = 3"
proof -
  have l: "length [1, 2, 3 :: byte] \<le> BLOCK_SIZE" by (simp add: BLOCK_SIZE_def)
  have "room_for (literal ''b'') (length [1, 2, 3 :: byte]) (image_afs blank_disk)"
    by (rule room_on_blank) (simp_all add: BLOCK_SIZE_def)
  from add_then_rm [OF _ formatted_blank _ _ _ this l, of "other_host [1, 2, 3]" "''disk.fs''" "\<lambda>_. 0"]
  obtain s1 where "thread_fs_add [''disk.fs'', ''b''] (fs_init (\<lambda>_. 0) (other_host [1, 2, 3])) = Inr (0, s1)"
    "\<And>j'. \<exists>s2 c'. thread_fs_rm [''disk.fs'', ''b''] (fs_init j' (host (dev s1))) = Inr (0, s2) \<and>
      host_files (host (dev s2)) ''disk.fs'' = Some c' \<and> formatted c' \<and> image_afs c' = image_afs blank_disk"
    by auto
  then show ?thesis unfolding image_afs_blank by (metis (no_types) afs.select_convs(1,3))
qed

end
